(* ===== verification/Choreo_Prelude.thy ===== *)
theory Choreo_Prelude
  imports Main "HOL-Library.Word" "HOL-Library.Char_ord" "HOL-Library.List_Lexorder"
    "HOL-Library.Sublist"
begin

text \<open>
  Shared vocabulary of the development: the machine integer types of the C++ runtime, the
  result type that stands for \<open>state::Result\<close>, a model of \<open>std::map\<close> with its
  iteration order, and the generic lemmas on words and lists that the components share.
\<close>

section \<open>Machine integers\<close>

type_synonym u8 = "8 word"
type_synonym u16 = "16 word"
type_synonym u32 = "32 word"
type_synonym u64 = "64 word"

text \<open>\<open>std::numeric_limits<std::uint64_t>::max()\<close>.\<close>

abbreviation max_u64 :: u64 where
  "max_u64 \<equiv> - 1"

named_theorems u64_arith \<open>exact arithmetic on words that do not wrap\<close>

lemma unat_max_u64 [simp]: "unat max_u64 = 2 ^ 64 - 1"
  by (simp add: unsigned_minus_1_eq_mask mask_eq_exp_minus_1)

lemma unat_lt_u64: "unat (a :: u64) < 2 ^ 64"
  using unsigned_less [of a] by simp

lemma unat_add_exact [u64_arith]:
  fixes a b :: u64
  assumes "unat a + unat b < 2 ^ 64"
  shows "unat (a + b) = unat a + unat b"
  using assms by (simp add: unat_word_ariths)

lemma unat_sub_exact [u64_arith]:
  fixes a b :: u64
  assumes "b \<le> a"
  shows "unat (a - b) = unat a - unat b"
  using assms by (simp add: unat_sub)

lemma unat_of_nat_exact [u64_arith]: "n < 2 ^ 64 \<Longrightarrow> unat (of_nat n :: u64) = n"
  by (simp add: unat_of_nat)

lemma unat_Suc_exact [u64_arith]:
  fixes a :: u64
  assumes "a \<noteq> max_u64"
  shows "unat (a + 1) = unat a + 1"
proof -
  have "unat a \<noteq> 2 ^ 64 - 1"
    using assms by (metis unat_max_u64 word_unat_eq_iff)
  then have "unat a + unat (1 :: u64) < 2 ^ 64"
    using unat_lt_u64 [of a] by simp
  then show ?thesis
    using unat_add_exact [of a 1] by simp
qed

lemma unat_pos_iff: "0 < unat (a :: u64) \<longleftrightarrow> a \<noteq> 0"
  by (simp add: unat_gt_0)

lemma u64_less_max [simp]: "(a :: u64) < max_u64 \<longleftrightarrow> a \<noteq> max_u64"
  by (meson max_word_max le_less less_irrefl)

section \<open>Results\<close>

text \<open>
  \<open>state::Result<T>\<close> holds a value or an error: \<open>Inr\<close> is the value, \<open>Inl\<close> the error.
  \<open>bindE\<close> is the shape \<open>if (!x) return x.error();\<close> of the source.
\<close>

definition bindE :: "'e + 'a \<Rightarrow> ('a \<Rightarrow> 'e + 'b) \<Rightarrow> 'e + 'b" where
  "bindE x f = (case x of Inl e \<Rightarrow> Inl e | Inr v \<Rightarrow> f v)"

lemma bindE_simps [simp]:
  "bindE (Inl e) f = Inl e"
  "bindE (Inr v) f = f v"
  by (simp_all add: bindE_def)

lemma bindE_Inr_iff: "bindE x f = Inr b \<longleftrightarrow> (\<exists>a. x = Inr a \<and> f a = Inr b)"
  by (cases x) auto

lemma bindE_Inl_iff: "bindE x f = Inl e \<longleftrightarrow> x = Inl e \<or> (\<exists>a. x = Inr a \<and> f a = Inl e)"
  by (cases x) auto

lemma bindE_assoc: "bindE (bindE x f) g = bindE x (\<lambda>a. bindE (f a) g)"
  by (cases x) auto

lemma bindE_cong [fundef_cong]:
  "x = y \<Longrightarrow> (\<And>a. y = Inr a \<Longrightarrow> f a = g a) \<Longrightarrow> bindE x f = bindE y g"
  by (cases y) auto

text \<open>A guard that returns an error: \<open>if (cond) return Error{...};\<close>.\<close>

definition requireE :: "bool \<Rightarrow> 'e \<Rightarrow> 'e + unit" where
  "requireE ok e = (if ok then Inr () else Inl e)"

lemma requireE_simps [simp]:
  "requireE ok e = Inr u \<longleftrightarrow> ok"
  "requireE ok e = Inl e' \<longleftrightarrow> \<not> ok \<and> e' = e"
  by (auto simp: requireE_def)

definition is_ok :: "'e + 'a \<Rightarrow> bool" where
  "is_ok r = (case r of Inl _ \<Rightarrow> False | Inr _ \<Rightarrow> True)"

lemma is_ok_simps [simp]: "is_ok (Inl e) = False" "is_ok (Inr v) = True"
  by (simp_all add: is_ok_def)

lemma is_ok_iff: "is_ok r \<longleftrightarrow> (\<exists>v. r = Inr v)"
  by (cases r) auto

text \<open>A loop over a vector that stops at the first error.\<close>

fun foldE :: "('s \<Rightarrow> 'a \<Rightarrow> 'e + 's) \<Rightarrow> 's \<Rightarrow> 'a list \<Rightarrow> 'e + 's" where
  "foldE f s [] = Inr s"
| "foldE f s (x # xs) = bindE (f s x) (\<lambda>s'. foldE f s' xs)"

lemma foldE_append: "foldE f s (xs @ ys) = bindE (foldE f s xs) (\<lambda>s'. foldE f s' ys)"
  by (induction xs arbitrary: s) (auto simp: bindE_assoc)

lemma foldE_invariant:
  assumes "foldE f s xs = Inr s'" and "P s"
    and "\<And>s x s'. P s \<Longrightarrow> x \<in> set xs \<Longrightarrow> f s x = Inr s' \<Longrightarrow> P s'"
  shows "P s'"
  using assms
proof (induction xs arbitrary: s)
  case Nil
  then show ?case by simp
next
  case (Cons x xs)
  from Cons.prems(1) obtain t where t: "f s x = Inr t" "foldE f t xs = Inr s'"
    by (auto simp: bindE_Inr_iff)
  have "P t"
    by (rule Cons.prems(3) [OF Cons.prems(2) _ t(1)]) simp
  then show ?case
    using Cons.IH [OF t(2)] Cons.prems(3) by (meson list.set_intros(2))
qed

section \<open>Ordered maps\<close>

text \<open>
  \<open>std::map<K, V>\<close> as the list of its elements in iteration order. A well-formed map has
  strictly increasing keys. \<open>sm_assign\<close> is \<open>insert_or_assign\<close> (and \<open>operator[]\<close> on the
  left of an assignment), \<open>sm_insert\<close> is \<open>insert\<close>, \<open>emplace\<close> and \<open>try_emplace\<close>
  (an existing key keeps its value), \<open>sm_erase\<close> is \<open>erase\<close>, \<open>sm_modify\<close> is a write
  through an iterator; \<open>find\<close> is the library's \<open>map_of\<close>.
\<close>

type_synonym ('k, 'v) smap = "('k \<times> 'v) list"

definition sm_ok :: "('k::linorder, 'v) smap \<Rightarrow> bool" where
  "sm_ok m \<longleftrightarrow> sorted_wrt (<) (map fst m)"

fun sm_assign :: "'k::linorder \<Rightarrow> 'v \<Rightarrow> ('k, 'v) smap \<Rightarrow> ('k, 'v) smap" where
  "sm_assign k v [] = [(k, v)]"
| "sm_assign k v (e # m) =
     (if fst e = k then (k, v) # m
      else if fst e < k then e # sm_assign k v m
      else (k, v) # e # m)"

definition sm_insert :: "'k::linorder \<Rightarrow> 'v \<Rightarrow> ('k, 'v) smap \<Rightarrow> ('k, 'v) smap" where
  "sm_insert k v m = (case map_of m k of None \<Rightarrow> sm_assign k v m | Some _ \<Rightarrow> m)"

definition sm_erase :: "'k \<Rightarrow> ('k, 'v) smap \<Rightarrow> ('k, 'v) smap" where
  "sm_erase k m = filter (\<lambda>e. fst e \<noteq> k) m"

definition sm_modify :: "'k \<Rightarrow> ('v \<Rightarrow> 'v) \<Rightarrow> ('k, 'v) smap \<Rightarrow> ('k, 'v) smap" where
  "sm_modify k f m = map (\<lambda>e. if fst e = k then (k, f (snd e)) else e) m"

text \<open>\<open>a.merge(b)\<close>: nodes of \<open>b\<close> whose key is new move into \<open>a\<close>.\<close>

definition sm_merge :: "('k::linorder, 'v) smap \<Rightarrow> ('k, 'v) smap \<Rightarrow> ('k, 'v) smap" where
  "sm_merge a b = fold (\<lambda>e m. sm_insert (fst e) (snd e) m) b a"

lemma sm_ok_Nil [simp]: "sm_ok []"
  by (simp add: sm_ok_def)

lemma sm_ok_Cons: "sm_ok (e # m) \<longleftrightarrow> (\<forall>x\<in>set m. fst e < fst x) \<and> sm_ok m"
  by (auto simp: sm_ok_def)

lemma sm_ok_distinct: "sm_ok m \<Longrightarrow> distinct (map fst m)"
  by (simp add: sm_ok_def strict_sorted_iff)

lemma set_sm_assign_sub: "set (sm_assign k v m) \<subseteq> insert (k, v) (set m)"
  by (induction m) auto

lemma fst_set_sm_assign: "fst ` set (sm_assign k v m) = insert k (fst ` set m)"
  by (induction m) auto

lemma find_assign [simp]: "map_of (sm_assign k v m) j = (if j = k then Some v else map_of m j)"
  by (induction m) auto

lemma sm_ok_assign [simp]: "sm_ok m \<Longrightarrow> sm_ok (sm_assign k v m)"
proof (induction m)
  case Nil
  then show ?case by (simp add: sm_ok_Cons)
next
  case (Cons e m)
  then have ok: "sm_ok m" and lt: "\<forall>x\<in>set m. fst e < fst x"
    by (auto simp: sm_ok_Cons)
  consider "fst e = k" | "fst e < k" | "k < fst e" by fastforce
  then show ?case
  proof cases
    case 2
    have "\<forall>x\<in>set (sm_assign k v m). fst e < fst x"
      using set_sm_assign_sub [of k v m] lt 2 by auto
    with 2 Cons.IH [OF ok] show ?thesis by (auto simp: sm_ok_Cons)
  qed (use ok lt in \<open>auto simp: sm_ok_Cons dest: less_trans\<close>)
qed

lemma find_insert [simp]:
  "map_of (sm_insert k v m) j = (if j = k \<and> map_of m k = None then Some v else map_of m j)"
  by (auto simp: sm_insert_def split: option.splits)

lemma sm_ok_insert [simp]: "sm_ok m \<Longrightarrow> sm_ok (sm_insert k v m)"
  by (auto simp: sm_insert_def split: option.splits)

lemma find_erase [simp]: "map_of (sm_erase k m) j = (if j = k then None else map_of m j)"
  by (induction m) (auto simp: sm_erase_def)

lemma sm_ok_erase [simp]: "sm_ok m \<Longrightarrow> sm_ok (sm_erase k m)"
  by (induction m) (auto simp: sm_ok_Cons sm_erase_def)

lemma map_of_sm_modify:
  "map_of (sm_modify k f m) j = (if j = k then map_option f (map_of m k) else map_of m j)"
  by (induction m) (auto simp: sm_modify_def)

lemma keys_sm_modify [simp]: "map fst (sm_modify k f m) = map fst m"
  by (induction m) (auto simp: sm_modify_def)

lemma sm_ok_modify [simp]: "sm_ok (sm_modify k f m) = sm_ok m"
  by (simp add: sm_ok_def)

lemma find_merge:
  "map_of (sm_merge a b) j = (case map_of a j of Some v \<Rightarrow> Some v | None \<Rightarrow> map_of b j)"
proof (induction b arbitrary: a)
  case Nil
  then show ?case by (simp add: sm_merge_def split: option.splits)
next
  case (Cons e b)
  have "sm_merge a (e # b) = sm_merge (sm_insert (fst e) (snd e) a) b"
    by (simp add: sm_merge_def)
  then show ?case
    using Cons.IH by (auto split: option.splits)
qed

lemma sm_ok_merge [simp]: "sm_ok a \<Longrightarrow> sm_ok (sm_merge a b)"
proof (induction b arbitrary: a)
  case (Cons e b)
  have "sm_merge a (e # b) = sm_merge (sm_insert (fst e) (snd e) a) b"
    by (simp add: sm_merge_def)
  then show ?case using Cons by simp
qed (simp add: sm_merge_def)

text \<open>A well-formed map is determined by its lookups.\<close>

lemma sm_eqI:
  fixes a b :: "('k::linorder, 'v) smap"
  assumes "sm_ok a" "sm_ok b" "map_of a = map_of b"
  shows "a = b"
proof -
  have "x \<in> set c \<longleftrightarrow> map_of c (fst x) = Some (snd x)" if "sm_ok c" for c :: "('k, 'v) smap" and x
    using sm_ok_distinct [OF that] by (metis map_of_SomeD map_of_is_SomeI prod.collapse)
  then have same: "set a = set b"
    using assms by auto
  have "inj_on fst (set a \<union> set b)"
    using sm_ok_distinct [OF assms(1)] same by (simp add: distinct_map)
  with same show ?thesis
    using assms sm_ok_distinct [of a] sm_ok_distinct [of b]
    by (intro map_sorted_distinct_set_unique [where f = fst])
      (auto simp: sm_ok_def strict_sorted_iff)
qed

lemma sm_erase_absent: "map_of m k = None \<Longrightarrow> sm_erase k m = m"
  by (induction m) (auto simp: sm_erase_def split: if_splits)

lemma sm_erase_assign:
  assumes "sm_ok m" "map_of m k = None"
  shows "sm_erase k (sm_assign k v m) = m"
  by (rule sm_eqI) (use assms in \<open>auto\<close>)

section \<open>Lists\<close>

lemma nth_append_take: "i < n \<Longrightarrow> n \<le> length xs \<Longrightarrow> (take n xs @ ys) ! i = xs ! i"
  by (simp add: nth_append)

lemma take_append_drop_ge: "n \<le> k \<Longrightarrow> take n (take k xs @ ys) = take n (take k xs @ zs) \<or> length xs < n"
  by (cases "length xs < n") (auto simp: min_def)

text \<open>Strictly increasing lists as written by \<open>std::sort\<close> then \<open>std::unique\<close>.\<close>

definition unique_sorted_list :: "'a::linorder list \<Rightarrow> 'a list" where
  "unique_sorted_list xs = remdups_adj (sort xs)"

lemma set_unique_sorted_list [simp]: "set (unique_sorted_list xs) = set xs"
  by (simp add: unique_sorted_list_def)

lemma remdups_adj_sorted_distinct: "sorted xs \<Longrightarrow> distinct (remdups_adj xs)"
proof (induction xs rule: remdups_adj.induct)
  case (3 x y xs)
  show ?case
  proof (cases "x = y")
    case False
    with 3 have "\<forall>z\<in>set (y # xs). x < z" by auto
    with 3 False show ?thesis by auto
  qed (use 3 in auto)
qed auto

lemma sorted_unique_sorted_list [simp]: "sorted (unique_sorted_list xs)"
  by (simp add: unique_sorted_list_def)

lemma distinct_unique_sorted_list [simp]: "distinct (unique_sorted_list xs)"
  by (simp add: unique_sorted_list_def remdups_adj_sorted_distinct)

lemma unique_sorted_list_id:
  "sorted xs \<Longrightarrow> distinct xs \<Longrightarrow> unique_sorted_list xs = xs"
  by (simp add: unique_sorted_list_def sorted_sort_id remdups_adj_distinct)

lemma unique_sorted_list_idem [simp]:
  "unique_sorted_list (unique_sorted_list xs) = unique_sorted_list xs"
  by (simp add: unique_sorted_list_id)

lemma unique_sorted_list_Nil_iff [simp]: "unique_sorted_list xs = [] \<longleftrightarrow> xs = []"
  by (metis set_empty set_unique_sorted_list)

section \<open>Running a deterministic machine\<close>

text \<open>A machine that is fed one input at a time, its final state and its outputs in order.\<close>

fun run :: "('s \<Rightarrow> 'i \<Rightarrow> 's \<times> 'o) \<Rightarrow> 's \<Rightarrow> 'i list \<Rightarrow> 's \<times> 'o list" where
  "run f s [] = (s, [])"
| "run f s (i # is) = (let (s1, out) = f s i; (s2, outs) = run f s1 is in (s2, out # outs))"

lemma run_append_state: "fst (run f s (is @ js)) = fst (run f (fst (run f s is)) js)"
  by (induction "is" arbitrary: s) (simp_all add: Let_def split_beta)

lemma run_outputs:
  "snd (run f s is) = map (\<lambda>k. snd (f (fst (run f s (take k is))) (is ! k))) [0..<length is]"
  by (induction "is" arbitrary: s)
    (simp_all add: Let_def split_beta upt_conv_Cons map_Suc_upt [symmetric] del: upt_Suc)

text \<open>
  The contract of a machine with an invariant and an order its state only climbs. What holds of
  every step then holds of every run.
\<close>

locale climbing_machine =
  fixes step :: "'s \<Rightarrow> 'i \<Rightarrow> 's \<times> 'o"
    and inv :: "'s \<Rightarrow> bool"
    and le :: "'s \<Rightarrow> 's \<Rightarrow> bool"
  assumes step_inv: "inv s \<Longrightarrow> inv (fst (step s i))"
    and step_le: "inv s \<Longrightarrow> le s (fst (step s i))"
    and le_refl: "le s s"
    and le_trans: "le a b \<Longrightarrow> le b c \<Longrightarrow> le a c"
begin

lemma run_inv: "inv s \<Longrightarrow> inv (fst (run step s is))"
  by (induction "is" arbitrary: s) (simp_all add: Let_def split_beta step_inv)

lemma run_le: "inv s \<Longrightarrow> le s (fst (run step s is))"
proof (induction "is" arbitrary: s)
  case (Cons i "is")
  then show ?case
    using le_trans [OF step_le [OF Cons.prems] Cons.IH [OF step_inv [OF Cons.prems]]]
    by (simp add: Let_def split_beta)
qed (simp add: le_refl)

lemma run_prefix_le:
  assumes "inv s"
  shows "le (fst (run step s is)) (fst (run step s (is @ js)))"
  using run_le [OF run_inv [OF assms]] by (simp add: run_append_state)

lemma run_take_le:
  assumes "inv s" "m \<le> n"
  shows "le (fst (run step s (take m is))) (fst (run step s (take n is)))"
  using run_prefix_le [OF assms(1), of "take m is" "drop m (take n is)"] assms(2)
  by (metis append_take_drop_id min.absorb1 take_take)

end

end
