(* ===== verification/Entry_Log.thy ===== *)
theory Entry_Log
  imports Choreo_Prelude
begin

text \<open>
  The replicated log of the Raft core, \<open>include/choreoos/raft/entry_log.hpp\<close>: entries are
  kept in shared immutable chunks of 256, copied on write. The first half is the list the log
  stands for, the second half the chunked representation with its reference counts and pointer
  comparisons, and the proof that it implements the list.
\<close>

section \<open>Entries and the list a log stands for\<close>

record Entry =
  e_term :: u64
  command :: string

abbreviation kMaximumEntries :: nat where
  "kMaximumEntries \<equiv> 100000"

text \<open>\<open>EntryLog::validate_terms\<close>: every term is positive and the terms never decrease.\<close>

fun validate_from :: "u64 \<Rightarrow> Entry list \<Rightarrow> bool" where
  "validate_from previous [] = True"
| "validate_from previous (e # es) =
     (e_term e \<noteq> 0 \<and> previous \<le> e_term e \<and> validate_from (e_term e) es)"

definition terms_valid :: "Entry list \<Rightarrow> bool" where
  "terms_valid es = validate_from 0 es"

text \<open>\<open>EntryLog::valid_terms(before, maximum)\<close>.\<close>

definition valid_terms :: "u64 \<Rightarrow> u64 \<Rightarrow> Entry list \<Rightarrow> bool" where
  "valid_terms lowest maximum es \<longleftrightarrow>
     terms_valid es \<and>
     (es = [] \<or> (lowest \<le> e_term (hd es) \<and> e_term (last es) \<le> maximum))"

lemma validate_from_append:
  "validate_from p (xs @ ys) \<longleftrightarrow>
     validate_from p xs \<and> validate_from (if xs = [] then p else e_term (last xs)) ys"
  by (induction xs arbitrary: p) auto

lemma validate_from_mono: "validate_from p xs \<Longrightarrow> q \<le> p \<Longrightarrow> validate_from q xs"
  by (cases xs) auto

lemma validate_from_bounds:
  "validate_from p xs \<Longrightarrow> e \<in> set xs \<Longrightarrow> p \<le> e_term e \<and> e_term e \<noteq> 0"
  by (induction xs arbitrary: p) (auto intro: order.trans)

lemma validate_from_le_last:
  "validate_from p xs \<Longrightarrow> e \<in> set xs \<Longrightarrow> e_term e \<le> e_term (last xs)"
  by (induction xs arbitrary: p) (auto dest: validate_from_bounds [OF _ last_in_set])

lemma terms_valid_iff_sorted:
  "terms_valid es \<longleftrightarrow> sorted (map e_term es) \<and> (\<forall>e\<in>set es. e_term e \<noteq> 0)"
proof -
  have "validate_from p es \<longleftrightarrow>
      sorted (map e_term es) \<and> (\<forall>e\<in>set es. p \<le> e_term e \<and> e_term e \<noteq> 0)" for p
    by (induction es arbitrary: p) (auto intro: order.trans)
  then show ?thesis by (simp add: terms_valid_def)
qed

lemma valid_terms_iff:
  "valid_terms lowest maximum es \<longleftrightarrow>
     validate_from lowest es \<and> (\<forall>e\<in>set es. e_term e \<le> maximum)"
proof (cases es)
  case Nil
  then show ?thesis by (simp add: valid_terms_def terms_valid_def)
next
  case (Cons e rest)
  have "validate_from lowest es \<Longrightarrow> \<forall>x\<in>set es. e_term x \<le> e_term (last es)"
    using validate_from_le_last by blast
  with Cons show ?thesis
    unfolding valid_terms_def terms_valid_def
    by (auto dest: validate_from_le_last order.trans split: if_splits)
qed

lemma valid_terms_append:
  "valid_terms lowest maximum (xs @ ys) \<longleftrightarrow>
     valid_terms lowest maximum xs \<and>
     valid_terms (if xs = [] then lowest else e_term (last xs)) maximum ys"
  by (auto simp: valid_terms_iff validate_from_append)

lemma valid_terms_take: "valid_terms b m es \<Longrightarrow> valid_terms b m (take n es)"
  by (metis append_take_drop_id valid_terms_append)

lemma valid_terms_mono: "valid_terms b m es \<Longrightarrow> m \<le> m' \<Longrightarrow> valid_terms b m' es"
  by (auto simp: valid_terms_iff)

lemma valid_terms_drop:
  "valid_terms b m es \<Longrightarrow> n \<le> length es \<Longrightarrow>
     valid_terms (if n = 0 then b else e_term (es ! (n - 1))) m (drop n es)"
  using valid_terms_append [of b m "take n es" "drop n es"]
  by (cases n) (auto simp: last_conv_nth min_def split: if_splits)

text \<open>The length of the longest common prefix of two logs.\<close>

fun common_prefix_length :: "'a list \<Rightarrow> 'a list \<Rightarrow> nat" where
  "common_prefix_length (x # xs) (y # ys) =
     (if x = y then Suc (common_prefix_length xs ys) else 0)"
| "common_prefix_length _ _ = 0"

lemma common_prefix_length_bounds:
  "common_prefix_length xs ys \<le> length xs" "common_prefix_length xs ys \<le> length ys"
  by (induction xs ys rule: common_prefix_length.induct) auto

lemma take_common_prefix_length:
  "take (common_prefix_length xs ys) xs = take (common_prefix_length xs ys) ys"
  by (induction xs ys rule: common_prefix_length.induct) auto

lemma common_prefix_length_append [simp]:
  "common_prefix_length (zs @ xs) (zs @ ys) = length zs + common_prefix_length xs ys"
  by (induction zs) auto

lemma common_prefix_length_full_iff:
  "length xs = length ys \<Longrightarrow> common_prefix_length xs ys = length xs \<longleftrightarrow> xs = ys"
  by (induction xs ys rule: common_prefix_length.induct) auto

lemma common_prefix_length_eqI:
  assumes "n \<le> length xs" "n \<le> length ys" "take n xs = take n ys"
    and "n = length xs \<or> n = length ys \<or> xs ! n \<noteq> ys ! n"
  shows "common_prefix_length xs ys = n"
  using assms
proof (induction xs ys arbitrary: n rule: common_prefix_length.induct)
  case (1 x xs y ys)
  then show ?case by (cases n) auto
qed auto

section \<open>The chunked representation\<close>

text \<open>
  A chunk is a \<open>shared_ptr<vector<Entry>>\<close>: the address tells shared chunks apart, the cells are
  its entries. \<open>Data\<close> is likewise shared between copies of a log, so a log has the address of
  its data. \<open>Alloc\<close> holds what an operation learns from the allocator and the reference counts:
  whether the data and the last chunk have another owner (\<open>use_count() != 1\<close>) and the addresses of
  new objects.
\<close>

abbreviation kChunkSize :: nat where
  "kChunkSize \<equiv> 256"

record Chunk =
  c_addr :: nat
  cells :: "Entry list"

record EntryLog =
  data_addr :: nat
  chunks :: "Chunk list"
  el_size :: nat
  el_valid :: bool

record Alloc =
  data_shared :: bool
  chunk_shared :: bool
  fresh_data :: nat
  fresh_chunk :: nat

definition el_empty :: "EntryLog \<Rightarrow> bool" where
  "el_empty l \<longleftrightarrow> el_size l = 0"

definition el_at :: "EntryLog \<Rightarrow> nat \<Rightarrow> Entry" where
  "el_at l i = cells (chunks l ! (i div kChunkSize)) ! (i mod kChunkSize)"

definition el_back :: "EntryLog \<Rightarrow> Entry" where
  "el_back l = el_at l (el_size l - 1)"

definition el_valid_terms :: "u64 \<Rightarrow> u64 \<Rightarrow> EntryLog \<Rightarrow> bool" where
  "el_valid_terms lowest maximum l \<longleftrightarrow>
     el_valid l \<and>
     (el_empty l \<or> (lowest \<le> e_term (el_at l 0) \<and> e_term (el_back l) \<le> maximum))"

definition shares_storage_with :: "EntryLog \<Rightarrow> EntryLog \<Rightarrow> bool" where
  "shares_storage_with l other \<longleftrightarrow> data_addr l = data_addr other"

definition el_new :: "Alloc \<Rightarrow> EntryLog" where
  "el_new al = \<lparr>data_addr = fresh_data al, chunks = [], el_size = 0, el_valid = True\<rparr>"

definition detach :: "Alloc \<Rightarrow> EntryLog \<Rightarrow> EntryLog" where
  "detach al l = (if data_shared al then l\<lparr>data_addr := fresh_data al\<rparr> else l)"

definition el_push_back :: "Alloc \<Rightarrow> Entry \<Rightarrow> EntryLog \<Rightarrow> EntryLog" where
  "el_push_back al e l0 =
     (let l1 = detach al l0;
          l = l1\<lparr>el_valid := el_valid l1 \<and> e_term e \<noteq> 0 \<and>
                  (el_empty l1 \<or> e_term (el_back l1) \<le> e_term e)\<rparr>
      in if el_size l mod kChunkSize = 0 then
           l\<lparr>chunks := chunks l @ [\<lparr>c_addr = fresh_chunk al, cells = [e]\<rparr>],
             el_size := el_size l + 1\<rparr>
         else
           (let c = last (chunks l);
                c' = (if chunk_shared al then c\<lparr>c_addr := fresh_chunk al\<rparr> else c)
            in l\<lparr>chunks := butlast (chunks l) @ [c'\<lparr>cells := cells c' @ [e]\<rparr>],
                 el_size := el_size l + 1\<rparr>))"

text \<open>The range loop of \<open>validate_terms\<close> walks the entries through the iterator.\<close>

definition el_entries :: "EntryLog \<Rightarrow> Entry list" where
  "el_entries l = map (el_at l) [0..<el_size l]"

definition validate_terms :: "EntryLog \<Rightarrow> EntryLog" where
  "validate_terms l =
     l\<lparr>el_valid :=
         fst (fold (\<lambda>e (ok, previous). (ok \<and> \<not> (e_term e = 0 \<or> e_term e < previous), e_term e))
                (el_entries l) (True, 0))\<rparr>"

definition el_set :: "Alloc \<Rightarrow> nat \<Rightarrow> Entry \<Rightarrow> EntryLog \<Rightarrow> EntryLog" where
  "el_set al i e l0 =
     (let l = detach al l0;
          c = chunks l ! (i div kChunkSize)
      in validate_terms
           (l\<lparr>chunks := (chunks l)[i div kChunkSize :=
              \<lparr>c_addr = fresh_chunk al, cells = (cells c)[i mod kChunkSize := e]\<rparr>]\<rparr>))"

fun el_grow :: "(nat \<Rightarrow> Alloc) \<Rightarrow> nat \<Rightarrow> EntryLog \<Rightarrow> EntryLog" where
  "el_grow al 0 l = l"
| "el_grow al (Suc n) l =
     el_grow (\<lambda>k. al (Suc k)) n (el_push_back (al 0) \<lparr>e_term = 0, command = []\<rparr> l)"

definition el_resize :: "(nat \<Rightarrow> Alloc) \<Rightarrow> nat \<Rightarrow> EntryLog \<Rightarrow> EntryLog" where
  "el_resize al count l0 =
     (if el_size l0 \<le> count then el_grow al (count - el_size l0) l0
      else
        (let l = detach (al 0) l0;
             kept = take ((count + kChunkSize - 1) div kChunkSize) (chunks l);
             kept' = (if count mod kChunkSize \<noteq> 0 then
                        butlast kept @
                          [\<lparr>c_addr = fresh_chunk (al 0),
                            cells = take (count mod kChunkSize) (cells (last kept))\<rparr>]
                      else kept)
         in validate_terms (l\<lparr>chunks := kept', el_size := count\<rparr>)))"

text \<open>\<open>pop_back\<close> on an empty log would resize to \<open>SIZE_MAX\<close>; it has no result here.\<close>

definition el_pop_back :: "(nat \<Rightarrow> Alloc) \<Rightarrow> EntryLog \<Rightarrow> EntryLog option" where
  "el_pop_back al l = (if el_size l = 0 then None else Some (el_resize al (el_size l - 1) l))"

lemma chunk_progress:
  "index < count \<Longrightarrow> index < min count ((index div kChunkSize + 1) * kChunkSize)"
  by (simp add: dividend_less_div_times)

function cps_loop :: "EntryLog \<Rightarrow> EntryLog \<Rightarrow> nat \<Rightarrow> nat \<Rightarrow> nat" where
  "cps_loop a b count index =
     (if index < count then
        (let chunk = index div kChunkSize;
             stop = min count ((chunk + 1) * kChunkSize)
         in if c_addr (chunks a ! chunk) = c_addr (chunks b ! chunk) then cps_loop a b count stop
            else (case find (\<lambda>i. el_at a i \<noteq> el_at b i) [index..<stop] of
                    Some i \<Rightarrow> i
                  | None \<Rightarrow> cps_loop a b count stop))
      else count)"
  by pat_completeness auto
termination
  by (relation "measure (\<lambda>(a, b, count, index). count - index)")
    (auto intro!: diff_less_mono2 chunk_progress [THEN order.strict_trans2] simp: Let_def)

definition common_prefix_size :: "EntryLog \<Rightarrow> EntryLog \<Rightarrow> nat" where
  "common_prefix_size a b =
     (if data_addr a = data_addr b then el_size a
      else cps_loop a b (min (el_size a) (el_size b)) 0)"

definition el_eq :: "EntryLog \<Rightarrow> EntryLog \<Rightarrow> bool" where
  "el_eq a b \<longleftrightarrow> el_size a = el_size b \<and> common_prefix_size a b = el_size a"

declare cps_loop.simps [simp del]

section \<open>The chunked log implements the list\<close>

definition el_abs :: "EntryLog \<Rightarrow> Entry list" where
  "el_abs l = concat (map cells (chunks l))"

fun chunk_layout :: "'a list list \<Rightarrow> bool" where
  "chunk_layout [] = True"
| "chunk_layout [c] = (0 < length c \<and> length c \<le> kChunkSize)"
| "chunk_layout (c # d # cs) = (length c = kChunkSize \<and> chunk_layout (d # cs))"

definition el_shape :: "EntryLog \<Rightarrow> bool" where
  "el_shape l \<longleftrightarrow> chunk_layout (map cells (chunks l)) \<and> el_size l = length (el_abs l)"

definition el_ok :: "EntryLog \<Rightarrow> bool" where
  "el_ok l \<longleftrightarrow> el_shape l \<and> el_valid l = terms_valid (el_abs l)"

lemma chunk_layout_snoc:
  "chunk_layout (cs @ [c]) \<longleftrightarrow>
     (\<forall>x\<in>set cs. length x = kChunkSize) \<and> 0 < length c \<and> length c \<le> kChunkSize"
  by (induction cs rule: chunk_layout.induct) auto

lemma length_concat_full:
  "\<forall>x\<in>set cs. length x = kChunkSize \<Longrightarrow> length (concat cs) = length cs * kChunkSize"
  by (induction cs) auto

lemma chunk_layout_nth:
  assumes "chunk_layout cs" "i < length (concat cs)"
  shows "i div kChunkSize < length cs \<and> i mod kChunkSize < length (cs ! (i div kChunkSize)) \<and>
    cs ! (i div kChunkSize) ! (i mod kChunkSize) = concat cs ! i"
  using assms
proof (induction cs arbitrary: i rule: chunk_layout.induct)
  case (3 c d cs)
  show ?case
  proof (cases "i < kChunkSize")
    case False
    define j where "j = i - kChunkSize"
    have i: "i = j + kChunkSize" using False by (simp add: j_def)
    have "j < length (concat (d # cs))" using 3 i by simp
    moreover have "i div kChunkSize = Suc (j div kChunkSize)" "i mod kChunkSize = j mod kChunkSize"
      by (simp_all add: i)
    ultimately show ?thesis using 3 i by (auto simp: nth_append)
  qed (use 3 in \<open>auto simp: nth_append\<close>)
qed auto

lemma el_at_abs: "el_shape l \<Longrightarrow> i < el_size l \<Longrightarrow> el_at l i = el_abs l ! i"
  using chunk_layout_nth [of "map cells (chunks l)" i]
  by (auto simp: el_shape_def el_at_def el_abs_def)

lemma el_entries_abs: "el_shape l \<Longrightarrow> el_entries l = el_abs l"
  by (intro nth_equalityI) (auto simp: el_entries_def el_at_abs el_shape_def)

lemma el_empty_abs: "el_shape l \<Longrightarrow> el_empty l \<longleftrightarrow> el_abs l = []"
  by (simp add: el_empty_def el_shape_def)

lemma el_back_abs: "el_shape l \<Longrightarrow> el_abs l \<noteq> [] \<Longrightarrow> el_back l = last (el_abs l)"
  using el_at_abs [of l "el_size l - 1"]
  by (simp add: el_back_def el_shape_def last_conv_nth)

lemma el_valid_terms_abs:
  assumes "el_ok l"
  shows "el_valid_terms b m l = valid_terms b m (el_abs l)"
proof (cases "el_abs l = []")
  case False
  then have "el_at l 0 = hd (el_abs l)"
    using assms el_at_abs [of l 0] by (simp add: el_ok_def el_shape_def hd_conv_nth)
  with False assms show ?thesis
    by (simp add: el_valid_terms_def valid_terms_def el_ok_def el_empty_abs el_back_abs)
qed (use assms in \<open>simp add: el_valid_terms_def valid_terms_def el_ok_def el_empty_abs\<close>)

lemma detach_abs [simp]:
  "el_abs (detach al l) = el_abs l" "el_ok (detach al l) = el_ok l"
  "el_shape (detach al l) = el_shape l"
  "chunks (detach al l) = chunks l" "el_size (detach al l) = el_size l"
  "el_valid (detach al l) = el_valid l" "el_back (detach al l) = el_back l"
  "el_empty (detach al l) = el_empty l"
  by (auto simp: detach_def el_abs_def el_ok_def el_shape_def el_back_def el_at_def el_empty_def)

lemma el_new_ok [simp]: "el_ok (el_new al)" "el_abs (el_new al) = []"
  by (auto simp: el_new_def el_ok_def el_shape_def el_abs_def terms_valid_def)

lemma validate_fold:
  "fst (fold (\<lambda>e (ok, previous). (ok \<and> e_term e \<noteq> 0 \<and> \<not> e_term e < previous, e_term e))
     es (ok, p)) \<longleftrightarrow> ok \<and> validate_from p es"
  by (induction es arbitrary: ok p) auto

lemma validate_terms_ok:
  "el_shape l \<Longrightarrow> el_ok (validate_terms l)" "el_abs (validate_terms l) = el_abs l"
  by (auto simp: validate_terms_def el_ok_def el_shape_def el_abs_def validate_fold
      el_entries_abs [unfolded el_shape_def el_abs_def] terms_valid_def)

lemma terms_valid_snoc:
  "terms_valid (es @ [e]) \<longleftrightarrow>
     terms_valid es \<and> e_term e \<noteq> 0 \<and> (es = [] \<or> e_term (last es) \<le> e_term e)"
  by (auto simp: terms_valid_def validate_from_append)

text \<open>\<open>push_back\<close> opens a chunk exactly when all chunks are full.\<close>

lemma chunk_layout_full:
  assumes "chunk_layout cs" "length (concat cs) mod kChunkSize = 0"
  shows "\<forall>x\<in>set cs. length x = kChunkSize"
proof (cases cs rule: rev_cases)
  case (snoc ds c)
  with assms(1) have full: "\<forall>x\<in>set ds. length x = kChunkSize"
    and c: "0 < length c" "length c \<le> kChunkSize"
    by (auto simp: chunk_layout_snoc)
  from assms(2) snoc full have "length c mod kChunkSize = 0"
    by (simp add: length_concat_full mod_simps)
  with c have "length c = kChunkSize"
    by (metis le_neq_implies_less mod_less not_gr_zero)
  with full snoc show ?thesis by simp
qed simp

lemma chunk_layout_room:
  assumes "chunk_layout cs" "length (concat cs) mod kChunkSize \<noteq> 0"
  shows "cs \<noteq> [] \<and> (\<forall>x\<in>set (butlast cs). length x = kChunkSize) \<and> length (last cs) < kChunkSize"
proof (cases cs rule: rev_cases)
  case (snoc ds c)
  with assms(1) have "\<forall>x\<in>set ds. length x = kChunkSize" and "length c \<le> kChunkSize"
    by (auto simp: chunk_layout_snoc)
  moreover have "length c \<noteq> kChunkSize"
    using assms(2) snoc calculation(1) by (auto simp: length_concat_full)
  ultimately show ?thesis using snoc by simp
qed (use assms in simp)

lemma push_layout_new:
  assumes "chunk_layout cs" "length (concat cs) mod kChunkSize = 0"
  shows "chunk_layout (cs @ [[e]])"
  using chunk_layout_full [OF assms] by (simp add: chunk_layout_snoc)

lemma push_layout_last:
  assumes "chunk_layout cs" "length (concat cs) mod kChunkSize \<noteq> 0"
  shows "chunk_layout (butlast cs @ [last cs @ [e]])"
    and "concat (butlast cs @ [last cs @ [e]]) = concat cs @ [e]"
proof -
  note room = chunk_layout_room [OF assms]
  show "chunk_layout (butlast cs @ [last cs @ [e]])"
    using room by (simp add: chunk_layout_snoc)
  have "concat cs = concat (butlast cs @ [last cs])" using room by simp
  then show "concat (butlast cs @ [last cs @ [e]]) = concat cs @ [e]" by simp
qed

lemma el_push_back_shape:
  assumes "el_shape l"
  shows "el_shape (el_push_back al e l)" "el_abs (el_push_back al e l) = el_abs l @ [e]"
proof -
  let ?cs = "map cells (chunks l)"
  from assms have lay: "chunk_layout ?cs" and size: "el_size l = length (concat ?cs)"
    by (auto simp: el_shape_def el_abs_def)
  have "el_shape (el_push_back al e l) \<and> el_abs (el_push_back al e l) = el_abs l @ [e]"
  proof (cases "el_size l mod kChunkSize = 0")
    case True
    then show ?thesis
      using push_layout_new [OF lay] size
      by (simp add: el_push_back_def el_shape_def el_abs_def Let_def)
  next
    case False
    then have ne: "chunks l \<noteq> []" using size by auto
    have "length (concat ?cs) mod kChunkSize \<noteq> 0" using False size by simp
    note last = push_layout_last [OF lay this, of e]
    have "length (concat ?cs) = length (concat (butlast ?cs @ [last ?cs]))"
      using ne by simp
    then show ?thesis
      using last False size ne
      by (simp add: el_push_back_def el_shape_def el_abs_def Let_def map_butlast last_map)
  qed
  then show "el_shape (el_push_back al e l)" "el_abs (el_push_back al e l) = el_abs l @ [e]"
    by simp_all
qed

lemma el_push_back_ok:
  assumes "el_ok l"
  shows "el_ok (el_push_back al e l)"
proof -
  have shape: "el_shape l" and valid: "el_valid l = terms_valid (el_abs l)"
    using assms by (auto simp: el_ok_def)
  have "el_valid (el_push_back al e l) \<longleftrightarrow>
      el_valid l \<and> e_term e \<noteq> 0 \<and>
      (el_empty (detach al l) \<or> e_term (el_back (detach al l)) \<le> e_term e)"
    by (simp add: el_push_back_def Let_def)
  also have "\<dots> \<longleftrightarrow> terms_valid (el_abs l @ [e])"
    using shape valid
    by (cases "el_abs l = []") (simp_all add: validate_from_append el_empty_abs el_back_abs terms_valid_def conj_commute)
  finally show ?thesis
    using shape by (simp add: el_ok_def el_push_back_shape)
qed

lemma el_grow_ok:
  "el_ok l \<Longrightarrow> el_ok (el_grow al n l) \<and>
     el_abs (el_grow al n l) = el_abs l @ replicate n \<lparr>e_term = 0, command = []\<rparr>"
proof (induction n arbitrary: al l)
  case (Suc n)
  then show ?case
    using Suc.IH [OF el_push_back_ok [OF Suc.prems]]
    by (simp add: el_push_back_shape el_ok_def replicate_append_same [symmetric])
qed simp

text \<open>Overwriting one entry and cutting a suffix.\<close>

lemma chunk_layout_cong: "map length cs = map length ds \<Longrightarrow> chunk_layout cs = chunk_layout ds"
proof (induction cs arbitrary: ds rule: chunk_layout.induct)
  case (3 c d cs)
  then obtain c' d' ds' where ds: "ds = c' # d' # ds'" by auto
  then have "map length (d # cs) = map length (d' # ds')" using 3 by simp
  then have "chunk_layout (d # cs) = chunk_layout (d' # ds')" by (rule 3)
  then show ?case using 3 ds by simp
qed auto

lemma concat_update_chunk:
  assumes "chunk_layout cs" "i < length (concat cs)"
  shows "concat (cs[i div kChunkSize := (cs ! (i div kChunkSize))[i mod kChunkSize := e]]) =
    (concat cs)[i := e]"
  using assms
proof (induction cs arbitrary: i rule: chunk_layout.induct)
  case (3 c d cs)
  show ?case
  proof (cases "i < kChunkSize")
    case False
    define j where "j = i - kChunkSize"
    have i: "i = j + kChunkSize" using False by (simp add: j_def)
    have "j < length (concat (d # cs))" using 3 i by simp
    moreover have "i div kChunkSize = Suc (j div kChunkSize)" "i mod kChunkSize = j mod kChunkSize"
      by (simp_all add: i)
    ultimately show ?thesis using 3 i by (auto simp: list_update_append)
  qed (use 3 in \<open>auto simp: list_update_append\<close>)
qed (auto simp: list_update_append)

lemma el_set_ok:
  assumes "el_shape l" "i < el_size l"
  shows "el_ok (el_set al i e l)" "el_abs (el_set al i e l) = (el_abs l)[i := e]"
proof -
  let ?q = "i div kChunkSize"
  let ?cs = "map cells (chunks l)"
  let ?l' = "(detach al l)\<lparr>chunks := (chunks l)[?q :=
      \<lparr>c_addr = fresh_chunk al, cells = (cells (chunks l ! ?q))[i mod kChunkSize := e]\<rparr>]\<rparr>"
  have lay: "chunk_layout ?cs" and i: "i < length (concat ?cs)"
    using assms by (auto simp: el_shape_def el_abs_def)
  have q: "?q < length (chunks l)" using chunk_layout_nth [OF lay i] by simp
  then have cs': "map cells (chunks ?l') = ?cs[?q := (?cs ! ?q)[i mod kChunkSize := e]]"
    by (simp add: map_update)
  have abs': "el_abs ?l' = (el_abs l)[i := e]"
    unfolding el_abs_def cs' by (rule concat_update_chunk [OF lay i])
  have "map length (map cells (chunks ?l')) = map length ?cs"
    unfolding cs' using q by (simp add: map_update list_update_same_conv)
  then have "chunk_layout (map cells (chunks ?l'))"
    using lay chunk_layout_cong by blast
  then have "el_shape ?l'"
    using assms abs' by (simp add: el_shape_def)
  moreover have "el_set al i e l = validate_terms ?l'"
    by (simp add: el_set_def Let_def)
  ultimately show "el_ok (el_set al i e l)" "el_abs (el_set al i e l) = (el_abs l)[i := e]"
    using abs' by (simp_all add: validate_terms_ok)
qed

lemma chunk_layout_take_full:
  "chunk_layout cs \<Longrightarrow> q < length cs \<Longrightarrow> \<forall>x\<in>set (take q cs). length x = kChunkSize"
proof (induction cs arbitrary: q rule: chunk_layout.induct)
  case (3 c d cs)
  then show ?case by (cases q) auto
qed auto

lemma chunk_layout_full_take:
  "\<forall>x\<in>set cs. length x = kChunkSize \<Longrightarrow> chunk_layout cs"
  by (cases cs rule: rev_cases) (auto simp: chunk_layout_snoc)

lemma ceil_div_chunk:
  "(n + kChunkSize - 1) div kChunkSize = n div kChunkSize + (if n mod kChunkSize = 0 then 0 else 1)"
proof -
  define q r where "q = n div kChunkSize" and "r = n mod kChunkSize"
  have n: "n = q * kChunkSize + r" and r: "r < kChunkSize"
    by (simp_all add: q_def r_def)
  have "(n + kChunkSize - 1) div kChunkSize = q + (r + (kChunkSize - 1)) div kChunkSize"
    unfolding n by (simp add: add.assoc)
  also have "(r + (kChunkSize - 1)) div kChunkSize = (if r = 0 then 0 else 1)"
    using r by (auto intro: div_nat_eqI)
  finally show ?thesis by (simp add: q_def r_def)
qed

definition cut_chunks :: "nat \<Rightarrow> 'a list list \<Rightarrow> 'a list list" where
  "cut_chunks n cs =
     (let kept = take ((n + kChunkSize - 1) div kChunkSize) cs
      in if n mod kChunkSize \<noteq> 0 then butlast kept @ [take (n mod kChunkSize) (last kept)]
         else kept)"

lemma cut_chunks_eq:
  assumes "chunk_layout cs" "n < length (concat cs)"
  shows "cut_chunks n cs = take (n div kChunkSize) cs @
      (if n mod kChunkSize = 0 then [] else [take (n mod kChunkSize) (cs ! (n div kChunkSize))])"
proof -
  let ?q = "n div kChunkSize"
  have q: "?q < length cs" using chunk_layout_nth [OF assms] by simp
  show ?thesis
  proof (cases "n mod kChunkSize = 0")
    case True
    then show ?thesis by (simp add: cut_chunks_def ceil_div_chunk [simplified])
  next
    case False
    with q show ?thesis
      by (simp add: cut_chunks_def ceil_div_chunk [simplified] take_Suc_conv_app_nth)
  qed
qed

lemma cut_chunks_ok:
  assumes "chunk_layout cs" "n < length (concat cs)"
  shows "chunk_layout (cut_chunks n cs)" "concat (cut_chunks n cs) = take n (concat cs)"
proof -
  let ?q = "n div kChunkSize" and ?r = "n mod kChunkSize"
  have q: "?q < length cs" and r: "?r < length (cs ! ?q)"
    using chunk_layout_nth [OF assms] by auto
  have full: "\<forall>x\<in>set (take ?q cs). length x = kChunkSize"
    by (rule chunk_layout_take_full [OF assms(1) q])
  show "chunk_layout (cut_chunks n cs)"
    using full r by (auto simp: cut_chunks_eq [OF assms] chunk_layout_snoc chunk_layout_full_take)
  have split: "cs = take ?q cs @ cs ! ?q # drop (Suc ?q) cs"
    using q by (simp add: id_take_nth_drop [symmetric])
  have len: "length (concat (take ?q cs)) = ?q * kChunkSize"
    using length_concat_full [OF full] q by simp
  have "take n (concat cs) = take n (concat (take ?q cs) @ cs ! ?q @ concat (drop (Suc ?q) cs))"
    by (subst split) simp
  also have "\<dots> = concat (take ?q cs) @ take ?r (cs ! ?q)"
    using len r by (simp add: minus_div_mult_eq_mod [symmetric])
  finally show "concat (cut_chunks n cs) = take n (concat cs)"
    by (simp add: cut_chunks_eq [OF assms])
qed

lemma el_resize_ok:
  assumes "el_ok l"
  shows "el_ok (el_resize al n l)"
    and "el_abs (el_resize al n l) =
      (if length (el_abs l) \<le> n
       then el_abs l @ replicate (n - length (el_abs l)) \<lparr>e_term = 0, command = []\<rparr>
       else take n (el_abs l))"
proof -
  have shape: "el_shape l" using assms by (simp add: el_ok_def)
  then have size: "el_size l = length (el_abs l)" by (simp add: el_shape_def)
  let ?cs = "map cells (chunks l)"
  let ?kept = "take ((n + kChunkSize - 1) div kChunkSize) (chunks l)"
  let ?kept' = "if n mod kChunkSize \<noteq> 0 then butlast ?kept @
      [\<lparr>c_addr = fresh_chunk (al 0), cells = take (n mod kChunkSize) (cells (last ?kept))\<rparr>]
      else ?kept"
  let ?l' = "(detach (al 0) l)\<lparr>chunks := ?kept', el_size := n\<rparr>"
  have "el_ok (el_resize al n l) \<and> el_abs (el_resize al n l) = take n (el_abs l)"
    if n: "\<not> el_size l \<le> n"
  proof -
    have lay: "chunk_layout ?cs" and less: "n < length (concat ?cs)"
      using n shape by (auto simp: el_shape_def el_abs_def)
    have "?kept \<noteq> []" if "n mod kChunkSize \<noteq> 0"
      using that less chunk_layout_nth [OF lay less] by (auto simp: ceil_div_chunk [simplified])
    then have cs': "map cells ?kept' = cut_chunks n ?cs"
      by (auto simp: cut_chunks_def Let_def take_map map_butlast last_map)
    have abs': "el_abs ?l' = take n (el_abs l)"
      using cut_chunks_ok(2) [OF lay less] cs' by (simp add: el_abs_def)
    have "el_shape ?l'"
      using cut_chunks_ok(1) [OF lay less] cs' abs' n size by (simp add: el_shape_def)
    moreover have "el_resize al n l = validate_terms ?l'"
      using n by (simp add: el_resize_def Let_def)
    ultimately show ?thesis using abs' by (simp add: validate_terms_ok)
  qed
  moreover have "el_ok (el_resize al n l) \<and> el_abs (el_resize al n l) =
      el_abs l @ replicate (n - length (el_abs l)) \<lparr>e_term = 0, command = []\<rparr>"
    if "el_size l \<le> n"
    using that el_grow_ok [OF assms, of al "n - el_size l"] size by (simp add: el_resize_def)
  ultimately show "el_ok (el_resize al n l)"
    and "el_abs (el_resize al n l) =
      (if length (el_abs l) \<le> n
       then el_abs l @ replicate (n - length (el_abs l)) \<lparr>e_term = 0, command = []\<rparr>
       else take n (el_abs l))"
    using size by auto
qed

text \<open>
  \<open>common_prefix_size\<close> compares pointers before entries. That is sound for logs that agree on
  what each address holds.
\<close>

definition coherent :: "EntryLog \<Rightarrow> EntryLog \<Rightarrow> bool" where
  "coherent a b \<longleftrightarrow>
     (data_addr a = data_addr b \<longrightarrow> chunks a = chunks b \<and> el_size a = el_size b) \<and>
     (\<forall>c\<in>set (chunks a). \<forall>d\<in>set (chunks b). c_addr c = c_addr d \<longrightarrow> cells c = cells d)"

lemma find_upt_None: "find P [i..<j] = None \<longleftrightarrow> (\<forall>k. i \<le> k \<and> k < j \<longrightarrow> \<not> P k)"
  by (auto simp: find_None_iff)

lemma find_upt_Some:
  assumes "find P [i..<j] = Some k"
  shows "i \<le> k \<and> k < j \<and> P k \<and> (\<forall>m. i \<le> m \<and> m < k \<longrightarrow> \<not> P m)"
proof -
  from assms obtain n where n: "n < j - i" "P ([i..<j] ! n)" "k = [i..<j] ! n"
      "\<forall>m<n. \<not> P ([i..<j] ! m)"
    by (auto simp: find_Some_iff)
  have "\<not> P m" if "i \<le> m" "m < k" for m
    using n(4) [rule_format, of "m - i"] that n by auto
  then show ?thesis using n by auto
qed

lemma chunk_block_equal:
  assumes "el_shape a" "el_shape b" "coherent a b"
    and "index < min (el_size a) (el_size b)"
    and "c_addr (chunks a ! (index div kChunkSize)) = c_addr (chunks b ! (index div kChunkSize))"
    and "index div kChunkSize * kChunkSize \<le> k" "k < (index div kChunkSize + 1) * kChunkSize"
    and "k < min (el_size a) (el_size b)"
  shows "el_abs a ! k = el_abs b ! k"
proof -
  have q: "k div kChunkSize = index div kChunkSize"
    using assms(6,7) by (intro div_nat_eqI) auto
  have "k div kChunkSize < length (chunks a)" "k div kChunkSize < length (chunks b)"
    using assms(1,2,8) chunk_layout_nth [of "map cells (chunks a)" k]
      chunk_layout_nth [of "map cells (chunks b)" k]
    by (auto simp: el_shape_def el_abs_def)
  then have "cells (chunks a ! (k div kChunkSize)) = cells (chunks b ! (k div kChunkSize))"
    using assms(3,5) q by (auto simp: coherent_def)
  then have "el_at a k = el_at b k" by (simp add: el_at_def)
  then show ?thesis using assms(1,2,8) by (simp add: el_at_abs)
qed

lemma cps_loop_correct:
  assumes "el_shape a" "el_shape b" "coherent a b" "count = min (el_size a) (el_size b)"
    and "index \<le> count" "\<forall>k<index. el_abs a ! k = el_abs b ! k"
    and "index mod kChunkSize = 0 \<or> index = count"
  shows "cps_loop a b count index = common_prefix_length (el_abs a) (el_abs b)"
  using assms
proof (induction a b count index rule: cps_loop.induct)
  case (1 a b count index)
  define stop where "stop = min count ((index div kChunkSize + 1) * kChunkSize)"
  define same where
    "same \<longleftrightarrow> c_addr (chunks a ! (index div kChunkSize)) = c_addr (chunks b ! (index div kChunkSize))"
  have sizes: "el_size a = length (el_abs a)" "el_size b = length (el_abs b)"
    using 1(3,4) by (auto simp: el_shape_def)
  have unfold: "cps_loop a b count index =
      (if index < count then
         if same then cps_loop a b count stop
         else case find (\<lambda>i. el_at a i \<noteq> el_at b i) [index..<stop] of
                Some i \<Rightarrow> i | None \<Rightarrow> cps_loop a b count stop
       else count)"
    by (subst cps_loop.simps) (simp only: Let_def stop_def same_def)
  have at: "el_at a k = el_abs a ! k" "el_at b k = el_abs b ! k" if "k < count" for k
    using that 1(3,4,6) by (auto simp: el_at_abs)
  show ?case
  proof (cases "index < count")
    case False
    then have "index = count" using 1(7) by simp
    then have "common_prefix_length (el_abs a) (el_abs b) = count"
      using 1(6,8) sizes by (intro common_prefix_length_eqI) (auto intro!: nth_equalityI)
    with False unfold show ?thesis by simp
  next
    case True
    then have block: "index = index div kChunkSize * kChunkSize"
      using 1(9) by (auto simp: minus_mod_eq_div_mult [symmetric])
    have stop: "stop \<le> count" "stop mod kChunkSize = 0 \<or> stop = count"
      by (auto simp: stop_def min_def)
    have step: "cps_loop a b count stop = common_prefix_length (el_abs a) (el_abs b)"
      if "\<forall>k. index \<le> k \<and> k < stop \<longrightarrow> el_abs a ! k = el_abs b ! k"
    proof -
      have pre: "\<forall>k < stop. el_abs a ! k = el_abs b ! k" using that 1(8) by (meson not_le)
      show ?thesis
      proof (cases same)
        case True
        show ?thesis
          by (rule 1(1) [OF \<open>index < count\<close> refl stop_def True [unfolded same_def]])
            (use 1(3-6) stop pre in auto)
      next
        case False
        have "find (\<lambda>i. el_at a i \<noteq> el_at b i) [index..<stop] = None"
          using that at stop(1) by (auto simp: find_upt_None)
        then show ?thesis
          by (intro 1(2) [OF \<open>index < count\<close> refl stop_def False [unfolded same_def]])
            (use 1(3-6) stop pre in auto)
      qed
    qed
    consider "same" | "\<not> same" "find (\<lambda>i. el_at a i \<noteq> el_at b i) [index..<stop] = None"
      | i where "\<not> same" "find (\<lambda>i. el_at a i \<noteq> el_at b i) [index..<stop] = Some i"
      by (cases "find (\<lambda>i. el_at a i \<noteq> el_at b i) [index..<stop]") auto
    then show ?thesis
    proof cases
      case 1
      have "el_abs a ! k = el_abs b ! k" if "index \<le> k" "k < stop" for k
        by (rule chunk_block_equal [of a b index k])
          (use "1.prems" 1 True that block in \<open>auto simp: same_def stop_def\<close>)
      with step unfold True 1 show ?thesis by simp
    next
      case 2
      then have "el_abs a ! k = el_abs b ! k" if "index \<le> k" "k < stop" for k
        using that at stop(1) by (auto simp: find_upt_None)
      with step unfold True 2 show ?thesis by simp
    next
      case (3 i)
      note found = find_upt_Some [OF 3(2)]
      have "el_abs a ! k = el_abs b ! k" if "k < i" for k
        using that found at stop(1) "1.prems" by (cases "k < index") auto
      then have "common_prefix_length (el_abs a) (el_abs b) = i"
        using found at stop(1) "1.prems" sizes
        by (intro common_prefix_length_eqI) (auto intro!: nth_equalityI)
      with unfold True 3 show ?thesis by simp
    qed
  qed
qed

lemma common_prefix_size_abs:
  assumes "el_ok a" "el_ok b" "coherent a b"
  shows "common_prefix_size a b = common_prefix_length (el_abs a) (el_abs b)"
proof (cases "data_addr a = data_addr b")
  case True
  then have "el_abs a = el_abs b" using assms by (auto simp: coherent_def el_abs_def)
  with True assms show ?thesis
    using common_prefix_length_full_iff [of "el_abs a" "el_abs a"]
    by (simp add: common_prefix_size_def el_ok_def el_shape_def)
next
  case False
  then show ?thesis
    using assms cps_loop_correct [of a b "min (el_size a) (el_size b)" 0]
    by (simp add: common_prefix_size_def el_ok_def)
qed

lemma el_eq_abs:
  assumes "el_ok a" "el_ok b" "coherent a b"
  shows "el_eq a b \<longleftrightarrow> el_abs a = el_abs b"
  using assms common_prefix_length_full_iff [of "el_abs a" "el_abs b"]
  by (auto simp: el_eq_def common_prefix_size_abs el_ok_def el_shape_def)

lemma el_ok_shape: "el_ok l \<Longrightarrow> el_shape l"
  by (simp add: el_ok_def)

lemma el_size_abs: "el_ok l \<Longrightarrow> el_size l = length (el_abs l)"
  by (simp add: el_ok_def el_shape_def)

section \<open>What clients of a log rely on\<close>

text \<open>
  The operations a client of an append-only sequence uses, and their laws. \<open>'a\<close> stands for the
  allocator's answers, which no law depends on.
\<close>

locale entry_sequence =
  fixes ok :: "'l \<Rightarrow> bool"
    and abs :: "'l \<Rightarrow> Entry list"
    and new :: "'a \<Rightarrow> 'l"
    and push :: "'a \<Rightarrow> Entry \<Rightarrow> 'l \<Rightarrow> 'l"
    and at :: "'l \<Rightarrow> nat \<Rightarrow> Entry"
    and size :: "'l \<Rightarrow> nat"
  assumes new_ok: "ok (new a)"
    and new_abs: "abs (new a) = []"
    and push_ok: "ok l \<Longrightarrow> ok (push a e l)"
    and push_abs: "ok l \<Longrightarrow> abs (push a e l) = abs l @ [e]"
    and at_abs: "ok l \<Longrightarrow> i < size l \<Longrightarrow> at l i = abs l ! i"
    and size_abs: "ok l \<Longrightarrow> size l = length (abs l)"
begin

lemma size_push: "ok l \<Longrightarrow> size (push a e l) = size l + 1"
  by (simp add: size_abs push_ok push_abs)

lemma at_push:
  "ok l \<Longrightarrow> i \<le> size l \<Longrightarrow> at (push a e l) i = (if i < size l then at l i else e)"
  using at_abs [OF push_ok, of l i a e] at_abs [of l i]
  by (auto simp: size_push push_abs size_abs nth_append)

lemma push_list:
  "ok l \<Longrightarrow> ok (fold (\<lambda>(a, e). push a e) aes l) \<and>
     abs (fold (\<lambda>(a, e). push a e) aes l) = abs l @ map snd aes"
  by (induction aes arbitrary: l) (auto simp: push_ok push_abs)

end

interpretation chunked: entry_sequence el_ok el_abs el_new el_push_back el_at el_size
  by unfold_locales
    (auto simp: el_push_back_ok el_push_back_shape el_ok_shape el_at_abs el_size_abs)

text \<open>The constructors from a list of entries push them one at a time.\<close>

definition el_of_list :: "Alloc \<Rightarrow> (Alloc \<times> Entry) list \<Rightarrow> EntryLog" where
  "el_of_list al aes = fold (\<lambda>(a, e). el_push_back a e) aes (el_new al)"

lemma el_of_list_ok [simp]:
  "el_ok (el_of_list al aes)" "el_abs (el_of_list al aes) = map snd aes"
  using chunked.push_list [OF chunked.new_ok, of aes al] by (simp_all add: el_of_list_def)


definition sample_alloc :: Alloc where
  "sample_alloc = \<lparr>data_shared = True, chunk_shared = False, fresh_data = 7, fresh_chunk = 9\<rparr>"

definition sample_entries :: "(Alloc \<times> Entry) list" where
  "sample_entries =
     [(sample_alloc, \<lparr>e_term = 1, command = ''a''\<rparr>), (sample_alloc, \<lparr>e_term = 2, command = ''b''\<rparr>)]"


text \<open>
  Comparing two logs through shared storage is content comparison: when equal addresses mean
  equal contents, \<open>common_prefix_size\<close> is the length of the longest common prefix of the two entry
  lists and \<open>==\<close> is equality of the lists, so skipping shared chunks never changes an answer.
\<close>

theorem shared_storage_comparison:
  assumes "el_ok a" "el_ok b" "coherent a b"
  shows "common_prefix_size a b = common_prefix_length (el_abs a) (el_abs b) \<and>
    (el_eq a b \<longleftrightarrow> el_abs a = el_abs b)"
  using assms by (simp add: common_prefix_size_abs el_eq_abs)

theorem shared_storage_comparison_witness:
  "el_eq (el_of_list sample_alloc sample_entries) (el_of_list sample_alloc sample_entries) \<and>
   common_prefix_size (el_of_list sample_alloc sample_entries)
     (el_of_list sample_alloc sample_entries) = 2"
proof -
  have "coherent (el_of_list sample_alloc sample_entries) (el_of_list sample_alloc sample_entries)"
    by (simp add: coherent_def el_of_list_def sample_entries_def el_push_back_def el_new_def
        sample_alloc_def detach_def Let_def)
  from shared_storage_comparison [OF el_of_list_ok(1) el_of_list_ok(1) this] show ?thesis
    by (simp add: sample_entries_def)
qed

end
