(* ===== verification/Raft_Core.thy ===== *)
theory Raft_Core
  imports Entry_Log
begin

text \<open>
  The pure Raft transition core: the data types of \<open>include/choreoos/raft/transition.hpp\<close> and the
  step function of \<open>src/raft/transition.cpp\<close>, one definition per handler. A step takes a node and
  an input to the next node and the effects the host must carry out. Log contents are the list of
  \<^theory_text>\<open>Entry_Log\<close>; indexes, terms and request identifiers are 64-bit words and wrap as in
  the source.
\<close>

section \<open>State, messages and effects\<close>

datatype Role = Follower | Candidate | Leader

record Durable =
  d_term :: u64
  voted_for :: "string option"
  d_log :: "Entry list"
  commit :: u64
  applied :: u64
  snapshot_index :: u64
  snapshot_term :: u64

record RequestVote =
  rv_term :: u64
  rv_candidate :: string
  rv_last_index :: u64
  rv_last_term :: u64
  rv_request_id :: u64

record VoteReply =
  vr_term :: u64
  vr_voter :: string
  vr_granted :: bool
  vr_request_id :: u64

record AppendEntries =
  ae_term :: u64
  ae_leader :: string
  ae_prev_index :: u64
  ae_prev_term :: u64
  ae_entries :: "Entry list"
  ae_leader_commit :: u64
  ae_request_id :: u64

record AppendReply =
  ar_term :: u64
  ar_follower :: string
  ar_success :: bool
  ar_hint :: u64
  ar_request_id :: u64
  ar_matched :: u64

record SnapshotRequest =
  sr_term :: u64
  sr_leader :: string
  sr_index :: u64
  sr_snapshot_term :: u64
  sr_request_id :: u64
  sr_ready :: bool

record SnapshotReply =
  sp_term :: u64
  sp_follower :: string
  sp_success :: bool
  sp_index :: u64
  sp_request_id :: u64

datatype WireMessage =
    MRequestVote RequestVote
  | MVoteReply VoteReply
  | MAppendEntries AppendEntries
  | MAppendReply AppendReply
  | MSnapshotReply SnapshotReply

record Outbound =
  ob_to :: string
  ob_message :: WireMessage

record SnapshotNeeded =
  sn_peer :: string
  sn_index :: u64
  sn_term :: u64
  sn_request_id :: u64

record Probe =
  pb_request_id :: u64
  pb_term :: u64
  pb_prev :: u64
  pb_count :: u64
  pb_request :: "AppendEntries option"

record PeerProgress =
  next_index :: u64
  match_index :: u64
  in_flight :: "Probe option"
  snapshot_in_flight :: "SnapshotNeeded option"

record ReadBarrier =
  rb_context :: u64
  rb_term :: u64
  rb_index :: u64
  acknowledgements :: "string set"
  probes :: "(string, u64) smap"

datatype ReadStatus =
  ReadReady | ReadNotLeader | ReadNotReady | ReadBusy | ReadCancelled | ReadUnavailable

record ReadResult =
  rr_context :: u64
  rr_status :: ReadStatus
  rr_term :: u64
  rr_index :: u64

record Volatile =
  role :: Role
  votes :: "string set"
  peer_map :: "(string, PeerProgress) smap"
  leadership_epoch :: u64
  read_barrier :: "ReadBarrier option"

record PendingWrite =
  pw_token :: u64
  target :: Durable
  after :: "Outbound list"
  apply_after :: "Entry list"
  self_vote :: bool
  snapshot_after :: "SnapshotNeeded list"

record Node =
  durable :: Durable
  volatile_state :: Volatile
  pending :: "PendingWrite option"
  next_token :: u64
  next_request_id :: u64
  halted :: bool

record Config =
  self :: string
  peers :: "string list"

datatype Input =
    ElectionTimeout
  | HeartbeatTimeout
  | ClientPropose string
  | RecvRequestVote RequestVote
  | RecvVoteReply VoteReply
  | RecvAppend AppendEntries
  | RecvAppendReply AppendReply
  | AdvanceCommit
  | ApplyCommitted
  | CompactCommitted
  | RecvSnapshot SnapshotRequest
  | RecvSnapshotReply SnapshotReply
  | BeginRead u64
  | CancelRead u64
  | PersistCompleted u64
  | PersistFailed u64
  | Restart

datatype PersistKind = StateUpdate | LocalCompaction | SnapshotInstall

record PersistRequest =
  pr_token :: u64
  pr_target :: Durable
  pr_kind :: PersistKind

record Effects =
  persist :: "PersistRequest option"
  send_now :: "Outbound list"
  ef_apply :: "Entry list"
  halt :: bool
  capacity_exhausted :: bool
  snapshot_needed :: "SnapshotNeeded list"
  read_result :: "ReadResult option"

abbreviation no_effects :: Effects where
  "no_effects \<equiv>
     \<lparr>persist = None, send_now = [], ef_apply = [], halt = False, capacity_exhausted = False,
      snapshot_needed = [], read_result = None\<rparr>"

section \<open>Helpers of the step function\<close>

definition quorum :: "Config \<Rightarrow> nat" where
  "quorum c = (length (peers c) + 1) div 2 + 1"

abbreviation progress_of :: "Node \<Rightarrow> string \<Rightarrow> PeerProgress option" where
  "progress_of s p \<equiv> map_of (peer_map (volatile_state s)) p"

definition known_peer :: "Node \<Rightarrow> string \<Rightarrow> bool" where
  "known_peer s p \<longleftrightarrow> progress_of s p \<noteq> None"

definition last_index :: "Durable \<Rightarrow> u64" where
  "last_index d = snapshot_index d + of_nat (length (d_log d))"

definition valid_durable :: "Durable \<Rightarrow> bool" where
  "valid_durable d \<longleftrightarrow>
     \<not> ((snapshot_index d = 0) \<noteq> (snapshot_term d = 0) \<or>
        d_term d < snapshot_term d \<or>
        unat (max_u64 - snapshot_index d) < length (d_log d) \<or>
        last_index d = max_u64 \<or>
        applied d < snapshot_index d \<or>
        commit d < applied d \<or>
        last_index d < commit d) \<and>
     length (d_log d) \<le> kMaximumEntries \<and>
     valid_terms (snapshot_term d) (d_term d) (d_log d)"

definition entry_at :: "Durable \<Rightarrow> u64 \<Rightarrow> Entry" where
  "entry_at d i = d_log d ! unat (i - snapshot_index d - 1)"

definition term_at :: "Durable \<Rightarrow> u64 \<Rightarrow> u64 option" where
  "term_at d i =
     (if i = snapshot_index d then Some (snapshot_term d)
      else if i < snapshot_index d \<or> last_index d < i then None
      else Some (e_term (entry_at d i)))"

definition last_term :: "Durable \<Rightarrow> u64" where
  "last_term d = (if d_log d = [] then snapshot_term d else e_term (last (d_log d)))"

definition up_to_date :: "Durable \<Rightarrow> u64 \<Rightarrow> u64 \<Rightarrow> bool" where
  "up_to_date d t i \<longleftrightarrow> last_term d < t \<or> (t = last_term d \<and> last_index d \<le> i)"

definition begin_write ::
  "Node \<Rightarrow> Effects \<Rightarrow> Durable \<Rightarrow> Outbound list \<Rightarrow> Entry list \<Rightarrow> bool \<Rightarrow>
   SnapshotNeeded list \<Rightarrow> PersistKind \<Rightarrow> Node \<times> Effects" where
  "begin_write s eff tgt outs applies vote snaps kind =
     (let token = next_token s
      in (s\<lparr>next_token := token + 1,
            pending := Some \<lparr>pw_token = token, target = tgt, after = outs, apply_after = applies,
                             self_vote = vote, snapshot_after = snaps\<rparr>\<rparr>,
          eff\<lparr>persist := Some \<lparr>pr_token = token, pr_target = tgt, pr_kind = kind\<rparr>\<rparr>))"

definition set_progress :: "string \<Rightarrow> (PeerProgress \<Rightarrow> PeerProgress) \<Rightarrow> Node \<Rightarrow> Node" where
  "set_progress p f s =
     s\<lparr>volatile_state := (volatile_state s)
         \<lparr>peer_map := sm_modify p f (peer_map (volatile_state s))\<rparr>\<rparr>"

definition append_request :: "Config \<Rightarrow> Durable \<Rightarrow> u64 \<Rightarrow> u64 \<Rightarrow> u64 \<Rightarrow> AppendEntries" where
  "append_request c d next prev_term request_id =
     \<lparr>ae_term = d_term d, ae_leader = self c, ae_prev_index = next - 1, ae_prev_term = prev_term,
      ae_entries = (if next \<le> last_index d then [entry_at d next] else []),
      ae_leader_commit = commit d, ae_request_id = request_id\<rparr>"

definition probe_of :: "AppendEntries \<Rightarrow> Probe" where
  "probe_of m =
     \<lparr>pb_request_id = ae_request_id m, pb_term = ae_term m, pb_prev = ae_prev_index m,
      pb_count = of_nat (length (ae_entries m)), pb_request = Some m\<rparr>"

definition send_append ::
  "Config \<Rightarrow> Node \<Rightarrow> Durable \<Rightarrow> string \<Rightarrow> Outbound list \<Rightarrow> SnapshotNeeded list \<Rightarrow>
   Node \<times> Outbound list \<times> SnapshotNeeded list" where
  "send_append c s d peer out snapshots =
     (case progress_of s peer of
        None \<Rightarrow> (s, out, snapshots)
      | Some progress \<Rightarrow>
          if in_flight progress \<noteq> None then (s, out, snapshots)
          else
            (case snapshot_in_flight progress of
               Some r \<Rightarrow> (s, out, snapshots @ [r])
             | None \<Rightarrow>
                 (let next = max 1 (next_index progress);
                      request_id = next_request_id s
                  in if next \<le> snapshot_index d then
                       (let r = \<lparr>sn_peer = peer, sn_index = snapshot_index d,
                                 sn_term = snapshot_term d, sn_request_id = request_id\<rparr>
                        in (set_progress peer (\<lambda>g. g\<lparr>snapshot_in_flight := Some r\<rparr>)
                              (s\<lparr>next_request_id := request_id + 1\<rparr>),
                            out, snapshots @ [r]))
                     else if last_index d + 1 < next then (s, out, snapshots)
                     else
                       (case term_at d (next - 1) of
                          None \<Rightarrow> (s, out, snapshots)
                        | Some prev_term \<Rightarrow>
                            (let m = append_request c d next prev_term request_id;
                                 s1 = set_progress peer (\<lambda>g. g\<lparr>in_flight := Some (probe_of m)\<rparr>)
                                        (s\<lparr>next_request_id := request_id + 1\<rparr>);
                                 v = volatile_state s1;
                                 s2 = s1\<lparr>volatile_state := v\<lparr>read_barrier :=
                                        map_option (\<lambda>r. r\<lparr>probes :=
                                          sm_assign peer request_id (probes r)\<rparr>)
                                          (read_barrier v)\<rparr>\<rparr>
                             in (s2, out @ [\<lparr>ob_to = peer, ob_message = MAppendEntries m\<rparr>],
                                 snapshots))))))"

text \<open>The loops over peers that call \<open>send_append\<close>.\<close>

fun send_appends ::
  "Config \<Rightarrow> Durable \<Rightarrow> string list \<Rightarrow> Node \<times> Outbound list \<times> SnapshotNeeded list \<Rightarrow>
   Node \<times> Outbound list \<times> SnapshotNeeded list" where
  "send_appends c d [] acc = acc"
| "send_appends c d (p # ps) (s, out, snapshots) =
     send_appends c d ps (send_append c s d p out snapshots)"

definition fresh_progress :: "u64 \<Rightarrow> PeerProgress" where
  "fresh_progress next =
     \<lparr>next_index = next, match_index = 0, in_flight = None, snapshot_in_flight = None\<rparr>"

fun leader_sends ::
  "Config \<Rightarrow> string list \<Rightarrow> Node \<times> Outbound list \<times> SnapshotNeeded list \<Rightarrow>
   Node \<times> Outbound list \<times> SnapshotNeeded list" where
  "leader_sends c [] acc = acc"
| "leader_sends c (p # ps) (s, out, snapshots) =
     leader_sends c ps
       (send_append c (set_progress p (\<lambda>_. fresh_progress (last_index (durable s) + 1)) s)
          (durable s) p out snapshots)"

definition become_leader :: "Config \<Rightarrow> Node \<Rightarrow> Effects \<Rightarrow> Node \<times> Effects" where
  "become_leader c s eff =
     (let v = volatile_state s;
          s1 = s\<lparr>volatile_state := v\<lparr>role := Leader,
                 leadership_epoch := leadership_epoch v + 1\<rparr>\<rparr>;
          (s2, out, snapshots) =
            leader_sends c (map fst (peer_map v)) (s1, send_now eff, snapshot_needed eff)
      in (s2, eff\<lparr>send_now := out, snapshot_needed := snapshots\<rparr>))"

definition read_outcome :: "u64 \<Rightarrow> ReadStatus \<Rightarrow> ReadResult" where
  "read_outcome ctx st = \<lparr>rr_context = ctx, rr_status = st, rr_term = 0, rr_index = 0\<rparr>"

definition step_down :: "Node \<Rightarrow> Effects \<Rightarrow> Node \<times> Effects" where
  "step_down s eff =
     (let v = volatile_state s
      in (s\<lparr>volatile_state := v\<lparr>role := Follower, votes := {},
              peer_map := map (\<lambda>e. (fst e, (snd e)\<lparr>in_flight := None, snapshot_in_flight := None\<rparr>))
                            (peer_map v),
              read_barrier := None\<rparr>\<rparr>,
          (case read_barrier v of
             None \<Rightarrow> eff
           | Some r \<Rightarrow> eff\<lparr>read_result := Some (read_outcome (rb_context r) ReadNotLeader)\<rparr>)))"

function highest_from :: "Config \<Rightarrow> Node \<Rightarrow> u64 \<Rightarrow> u64" where
  "highest_from c s n =
     (let d = durable s
      in if commit d < n then
           if e_term (entry_at d n) \<noteq> d_term d then highest_from c s (n - 1)
           else if quorum c \<le>
                1 + length (filter (\<lambda>e. n \<le> match_index (snd e)) (peer_map (volatile_state s)))
           then n
           else highest_from c s (n - 1)
         else commit d)"
  by pat_completeness auto
termination
proof (relation "measure (\<lambda>(c, s, n). unat n)")
  have less: "unat (n - 1) < unat n" if "commit d < n" for n :: u64 and d :: Durable
    using that by (metis measure_unat word_not_simps(1))
  show "((c, s, n - 1), c, s, n) \<in> measure (\<lambda>(c, s, n). unat n)"
    if "d = durable s" "commit d < n" for c :: Config and s :: Node and n d
    using less [OF that(2)] by simp
  then show "((c, s, n - 1), c, s, n) \<in> measure (\<lambda>(c, s, n). unat n)"
    if "d = durable s" "commit d < n" for c :: Config and s :: Node and n d
    using that by blast
qed simp

declare highest_from.simps [simp del]

definition highest_committable :: "Config \<Rightarrow> Node \<Rightarrow> u64" where
  "highest_committable c s = highest_from c s (last_index (durable s))"

definition complete_read :: "Config \<Rightarrow> Node \<Rightarrow> Effects \<Rightarrow> Node \<times> Effects" where
  "complete_read c s eff =
     (let v = volatile_state s
      in case read_barrier v of
           None \<Rightarrow> (s, eff)
         | Some r \<Rightarrow>
             if role v = Leader \<and> rb_term r = d_term (durable s) \<and>
                quorum c \<le> card (acknowledgements r) \<and> rb_index r \<le> applied (durable s)
             then (s\<lparr>volatile_state := v\<lparr>read_barrier := None\<rparr>\<rparr>,
                   eff\<lparr>read_result := Some \<lparr>rr_context = rb_context r, rr_status = ReadReady,
                                         rr_term = rb_term r, rr_index = rb_index r\<rparr>\<rparr>)
             else (s, eff))"

section \<open>Start state\<close>

definition empty_durable :: Durable where
  "empty_durable = \<lparr>d_term = 0, voted_for = None, d_log = [], commit = 0, applied = 0,
     snapshot_index = 0, snapshot_term = 0\<rparr>"

definition initial_volatile :: "Config \<Rightarrow> Volatile" where
  "initial_volatile c =
     \<lparr>role = Follower, votes = {},
      peer_map = fold (\<lambda>p m. sm_insert p (fresh_progress 1) m) (peers c) [],
      leadership_epoch = 0, read_barrier = None\<rparr>"

definition initial :: "Config \<Rightarrow> Node" where
  "initial c = \<lparr>durable = empty_durable, volatile_state = initial_volatile c, pending = None,
     next_token = 1, next_request_id = 1, halted = False\<rparr>"

section \<open>Handlers\<close>

text \<open>Terms above the local one are adopted and clear the vote.\<close>

definition adopt_term :: "Durable \<Rightarrow> u64 \<Rightarrow> Durable" where
  "adopt_term d t = (if d_term d < t then d\<lparr>d_term := t, voted_for := None\<rparr> else d)"

definition fail_stop :: "Node \<Rightarrow> Node \<times> Effects" where
  "fail_stop s =
     (let (s1, eff) = step_down (s\<lparr>pending := None\<rparr>) no_effects
      in (s1\<lparr>halted := True\<rparr>,
          eff\<lparr>halt := True,
              read_result := map_option (\<lambda>r. r\<lparr>rr_status := ReadUnavailable\<rparr>) (read_result eff)\<rparr>))"

text \<open>A write that only raises the term, used for every reply that carries a higher one.\<close>

definition raise_term :: "Node \<Rightarrow> u64 \<Rightarrow> Node \<times> Effects" where
  "raise_term s t =
     (let (s1, eff) = step_down s no_effects
      in begin_write s1 eff ((durable s)\<lparr>d_term := t, voted_for := None\<rparr>) [] [] False [] StateUpdate)"

text \<open>A changed target is written with the reply held back; otherwise the reply leaves at once.\<close>

definition write_or_reply ::
  "Node \<Rightarrow> Effects \<Rightarrow> Durable \<Rightarrow> Outbound \<Rightarrow> PersistKind \<Rightarrow> Node \<times> Effects" where
  "write_or_reply s eff tgt reply kind =
     (if tgt \<noteq> durable s then begin_write s eff tgt [reply] [] False [] kind
      else (s, eff\<lparr>send_now := send_now eff @ [reply]\<rparr>))"

definition add_vote :: "string \<Rightarrow> Node \<Rightarrow> Node" where
  "add_vote p s =
     s\<lparr>volatile_state := (volatile_state s)\<lparr>votes := insert p (votes (volatile_state s))\<rparr>\<rparr>"

definition on_persist_completed :: "Config \<Rightarrow> Node \<Rightarrow> u64 \<Rightarrow> Node \<times> Effects" where
  "on_persist_completed c s token =
     (case pending s of
        None \<Rightarrow> (s, no_effects)
      | Some w \<Rightarrow>
          if pw_token w = token \<and> \<not> halted s then
            (let (s1, eff) =
               complete_read c (s\<lparr>pending := None, durable := target w\<rparr>)
                 (no_effects\<lparr>send_now := after w, ef_apply := apply_after w,
                             snapshot_needed := snapshot_after w\<rparr>)
             in if self_vote w then
                  (let s2 = add_vote (self c) s1
                   in if quorum c \<le> card (votes (volatile_state s2)) then become_leader c s2 eff
                      else (s2, eff))
                else (s1, eff))
          else (s, no_effects))"

definition on_persist_failed :: "Node \<Rightarrow> u64 \<Rightarrow> Node \<times> Effects" where
  "on_persist_failed s token =
     (case pending s of
        None \<Rightarrow> (s, no_effects)
      | Some w \<Rightarrow>
          if pw_token w = token \<and> \<not> halted s then fail_stop s else (s, no_effects))"

definition on_restart :: "Config \<Rightarrow> Node \<Rightarrow> Node \<times> Effects" where
  "on_restart c s =
     (s\<lparr>pending := None, halted := False, volatile_state := initial_volatile c\<rparr>,
      no_effects\<lparr>read_result :=
        map_option (\<lambda>r. read_outcome (rb_context r) ReadCancelled)
          (read_barrier (volatile_state s))\<rparr>)"

definition on_cancel_read :: "Node \<Rightarrow> u64 \<Rightarrow> Node \<times> Effects" where
  "on_cancel_read s ctx =
     (case read_barrier (volatile_state s) of
        None \<Rightarrow> (s, no_effects)
      | Some r \<Rightarrow>
          if rb_context r = ctx then
            (s\<lparr>volatile_state := (volatile_state s)\<lparr>read_barrier := None\<rparr>\<rparr>,
             no_effects\<lparr>read_result := Some (read_outcome ctx ReadCancelled)\<rparr>)
          else (s, no_effects))"

definition on_begin_read :: "Config \<Rightarrow> Node \<Rightarrow> u64 \<Rightarrow> Node \<times> Effects" where
  "on_begin_read c s ctx =
     (let v = volatile_state s;
          d = durable s;
          refuse = (\<lambda>st. (s, no_effects\<lparr>read_result := Some (read_outcome ctx st)\<rparr>))
      in if halted s \<or> pending s \<noteq> None then
           refuse (if halted s then ReadUnavailable else ReadBusy)
         else if read_barrier v \<noteq> None then refuse ReadBusy
         else if role v \<noteq> Leader then refuse ReadNotLeader
         else if commit d = 0 \<or> term_at d (commit d) \<noteq> Some (d_term d) then refuse ReadNotReady
         else
           (let s1 = s\<lparr>volatile_state := v\<lparr>read_barrier :=
                  Some \<lparr>rb_context = ctx, rb_term = d_term d, rb_index = commit d,
                        acknowledgements = {self c}, probes = []\<rparr>\<rparr>\<rparr>;
                (s2, out, snapshots) = send_appends c d (peers c) (s1, [], [])
            in complete_read c s2 (no_effects\<lparr>send_now := out, snapshot_needed := snapshots\<rparr>)))"

definition on_compact_committed :: "Node \<Rightarrow> Node \<times> Effects" where
  "on_compact_committed s =
     (let d = durable s
      in if applied d \<noteq> commit d \<or> commit d = snapshot_index d then (s, no_effects)
         else case term_at d (commit d) of
                None \<Rightarrow> (s, no_effects)
              | Some boundary_term \<Rightarrow>
                  begin_write s no_effects
                    (d\<lparr>snapshot_index := commit d, snapshot_term := boundary_term,
                       d_log := drop (unat (commit d - snapshot_index d)) (d_log d)\<rparr>)
                    [] [] False [] LocalCompaction)"

definition install_snapshot :: "Durable \<Rightarrow> u64 \<Rightarrow> u64 \<Rightarrow> Durable" where
  "install_snapshot d i t =
     d\<lparr>snapshot_index := i, snapshot_term := t,
       d_log := (if term_at d i = Some t then drop (unat (i - snapshot_index d)) (d_log d) else []),
       commit := i, applied := i\<rparr>"

definition on_recv_snapshot :: "Config \<Rightarrow> Node \<Rightarrow> SnapshotRequest \<Rightarrow> Node \<times> Effects" where
  "on_recv_snapshot c s m =
     (let d = durable s;
          reply = (\<lambda>term success.
            \<lparr>ob_to = sr_leader m,
             ob_message = MSnapshotReply
               \<lparr>sp_term = term, sp_follower = self c, sp_success = success,
                sp_index = (if success then sr_index m else 0),
                sp_request_id = sr_request_id m\<rparr>\<rparr>)
      in if \<not> known_peer s (sr_leader m) \<or> sr_term m = 0 \<or> sr_index m = 0 \<or>
            sr_index m = max_u64 \<or> sr_snapshot_term m = 0 \<or> sr_term m < sr_snapshot_term m
         then (s, no_effects)
         else if commit d < sr_index m \<and>
                 (case term_at d (commit d) of None \<Rightarrow> False | Some t \<Rightarrow> sr_snapshot_term m < t)
         then (s, no_effects)
         else if sr_term m < d_term d then
           (s, no_effects\<lparr>send_now := [reply (d_term d) False]\<rparr>)
         else
           (let tgt = adopt_term d (sr_term m);
                (s1, eff) = step_down s no_effects
            in if \<not> sr_ready m then
                 (if tgt \<noteq> durable s1 then begin_write s1 eff tgt [] [] False [] StateUpdate
                  else (s1, eff))
               else
                 (let installed = commit tgt < sr_index m;
                      tgt1 = (if installed then install_snapshot tgt (sr_index m) (sr_snapshot_term m)
                              else tgt);
                      success = (installed \<or>
                                 term_at tgt1 (sr_index m) = Some (sr_snapshot_term m))
                  in write_or_reply s1 eff tgt1 (reply (d_term tgt1) success)
                       (if installed then SnapshotInstall else StateUpdate))))"

definition on_recv_snapshot_reply :: "Node \<Rightarrow> SnapshotReply \<Rightarrow> Node \<times> Effects" where
  "on_recv_snapshot_reply s m =
     (case progress_of s (sp_follower m) of
        None \<Rightarrow> (s, no_effects)
      | Some progress \<Rightarrow>
          if d_term (durable s) < sp_term m then raise_term s (sp_term m)
          else if sp_term m = d_term (durable s) \<and> role (volatile_state s) = Leader then
            (case snapshot_in_flight progress of
               None \<Rightarrow> (s, no_effects)
             | Some probe \<Rightarrow>
                 if sn_request_id probe = sp_request_id m \<and>
                    (\<not> sp_success m \<or> sn_index probe = sp_index m)
                 then (set_progress (sp_follower m)
                         (\<lambda>g. (if sp_success m then
                                 (let match = max (match_index g) (sn_index probe)
                                  in g\<lparr>match_index := match, next_index := match + 1\<rparr>)
                               else g)\<lparr>snapshot_in_flight := None\<rparr>) s,
                       no_effects)
                 else (s, no_effects))
          else (s, no_effects))"

fun vote_requests :: "Config \<Rightarrow> Durable \<Rightarrow> u64 \<Rightarrow> string list \<Rightarrow> Outbound list" where
  "vote_requests c tgt rid [] = []"
| "vote_requests c tgt rid (p # ps) =
     \<lparr>ob_to = p, ob_message = MRequestVote
        \<lparr>rv_term = d_term tgt, rv_candidate = self c, rv_last_index = last_index tgt,
         rv_last_term = last_term tgt, rv_request_id = rid\<rparr>\<rparr>
     # vote_requests c tgt (rid + 1) ps"

definition on_election_timeout :: "Config \<Rightarrow> Node \<Rightarrow> Node \<times> Effects" where
  "on_election_timeout c s =
     (let d = durable s
      in if role (volatile_state s) \<noteq> Leader \<and> d_term d \<noteq> max_u64 then
           (let tgt = d\<lparr>d_term := d_term d + 1, voted_for := Some (self c)\<rparr>;
                (s1, eff) = step_down s no_effects;
                s2 = s1\<lparr>volatile_state := (volatile_state s1)\<lparr>role := Candidate\<rparr>,
                        next_request_id := next_request_id s1 + of_nat (length (peers c))\<rparr>
            in begin_write s2 eff tgt (vote_requests c tgt (next_request_id s1) (peers c))
                 [] True [] StateUpdate)
         else (s, no_effects))"

definition on_request_vote :: "Config \<Rightarrow> Node \<Rightarrow> RequestVote \<Rightarrow> Node \<times> Effects" where
  "on_request_vote c s m =
     (let d = durable s;
          reply = (\<lambda>term granted.
            \<lparr>ob_to = rv_candidate m,
             ob_message = MVoteReply \<lparr>vr_term = term, vr_voter = self c, vr_granted = granted,
                                      vr_request_id = rv_request_id m\<rparr>\<rparr>)
      in if \<not> known_peer s (rv_candidate m) \<or> rv_term m = 0 \<or> rv_term m < rv_last_term m \<or>
            (rv_last_index m = 0) \<noteq> (rv_last_term m = 0)
         then (s, no_effects)
         else if rv_term m < d_term d then
           (s, no_effects\<lparr>send_now := [reply (d_term d) False]\<rparr>)
         else
           (let tgt = adopt_term d (rv_term m);
                (s1, eff) = (if d_term d < rv_term m then step_down s no_effects
                             else (s, no_effects));
                grant = ((voted_for tgt = None \<or> voted_for tgt = Some (rv_candidate m)) \<and>
                         up_to_date tgt (rv_last_term m) (rv_last_index m));
                tgt1 = (if grant then tgt\<lparr>voted_for := Some (rv_candidate m)\<rparr> else tgt)
            in write_or_reply s1 eff tgt1 (reply (d_term tgt1) grant) StateUpdate))"

definition on_vote_reply :: "Config \<Rightarrow> Node \<Rightarrow> VoteReply \<Rightarrow> Node \<times> Effects" where
  "on_vote_reply c s m =
     (if \<not> known_peer s (vr_voter m) then (s, no_effects)
      else if d_term (durable s) < vr_term m then raise_term s (vr_term m)
      else if vr_term m = d_term (durable s) \<and> vr_granted m \<and>
              role (volatile_state s) = Candidate \<and> known_peer s (vr_voter m)
      then
        (let s1 = add_vote (vr_voter m) s
         in if quorum c \<le> card (votes (volatile_state s1)) then become_leader c s1 no_effects
            else (s1, no_effects))
      else (s, no_effects))"

definition on_client_propose :: "Config \<Rightarrow> Node \<Rightarrow> string \<Rightarrow> Node \<times> Effects" where
  "on_client_propose c s cmd =
     (let d = durable s
      in if role (volatile_state s) = Leader \<and> kMaximumEntries \<le> length (d_log d) then
           (s, no_effects\<lparr>capacity_exhausted := True\<rparr>)
         else if role (volatile_state s) = Leader \<and> cmd \<noteq> [] \<and> last_index d < max_u64 - 1 then
           (let tgt = d\<lparr>d_log := d_log d @ [\<lparr>e_term = d_term d, command = cmd\<rparr>]\<rparr>;
                (s1, outs, snapshots) = send_appends c tgt (peers c) (s, [], [])
            in begin_write s1 no_effects tgt outs [] False snapshots StateUpdate)
         else (s, no_effects))"

fun heartbeats ::
  "Config \<Rightarrow> string list \<Rightarrow> Node \<times> Outbound list \<times> SnapshotNeeded list \<Rightarrow>
   Node \<times> Outbound list \<times> SnapshotNeeded list" where
  "heartbeats c [] acc = acc"
| "heartbeats c (p # ps) (s, out, snapshots) =
     heartbeats c ps
       (case Option.bind (progress_of s p) in_flight of
          Some probe \<Rightarrow>
            (s, (case pb_request probe of
                   None \<Rightarrow> out
                 | Some m \<Rightarrow> out @ [\<lparr>ob_to = p, ob_message = MAppendEntries m\<rparr>]),
             snapshots)
        | None \<Rightarrow> send_append c s (durable s) p out snapshots)"

definition on_heartbeat_timeout :: "Config \<Rightarrow> Node \<Rightarrow> Node \<times> Effects" where
  "on_heartbeat_timeout c s =
     (if role (volatile_state s) = Leader then
        (let (s1, out, snapshots) = heartbeats c (map fst (peer_map (volatile_state s))) (s, [], [])
         in (s1, no_effects\<lparr>send_now := out, snapshot_needed := snapshots\<rparr>))
      else (s, no_effects))"

text \<open>The shape checks of an append request, and its entry loop. \<open>append_entries\<close> returns the
  merged target, and the commit index as a hint when a committed entry conflicts.\<close>

fun entry_terms_ok :: "u64 \<Rightarrow> u64 \<Rightarrow> Entry list \<Rightarrow> bool" where
  "entry_terms_ok previous t [] \<longleftrightarrow> True"
| "entry_terms_ok previous t (e # es) \<longleftrightarrow>
     \<not> (e_term e = 0 \<or> e_term e < previous \<or> t < e_term e) \<and> entry_terms_ok (e_term e) t es"

definition append_shape_ok :: "AppendEntries \<Rightarrow> bool" where
  "append_shape_ok m \<longleftrightarrow>
     \<not> (ae_term m = 0 \<or> ae_prev_index m = max_u64 \<or>
        unat (max_u64 - 1 - ae_prev_index m) < length (ae_entries m) \<or>
        ae_term m < ae_prev_term m \<or> (ae_prev_index m = 0) \<noteq> (ae_prev_term m = 0)) \<and>
     entry_terms_ok (ae_prev_term m) (ae_term m) (ae_entries m)"

fun append_entries :: "Durable \<Rightarrow> u64 \<Rightarrow> Entry list \<Rightarrow> Durable \<times> u64 option" where
  "append_entries t i [] = (t, None)"
| "append_entries t i (e # es) =
     (let offset = unat (i - snapshot_index t - 1);
          conflict = (i \<le> last_index t \<and> d_log t ! offset \<noteq> e)
      in if conflict \<and> i \<le> commit t then (t, Some (commit t))
         else
           (let t1 = (if conflict then t\<lparr>d_log := take offset (d_log t)\<rparr> else t);
                t2 = (if i = last_index t1 + 1 then t1\<lparr>d_log := d_log t1 @ [e]\<rparr> else t1)
            in append_entries t2 (i + 1) es))"

definition append_reply :: "Config \<Rightarrow> AppendEntries \<Rightarrow> u64 \<Rightarrow> bool \<Rightarrow> u64 \<Rightarrow> u64 \<Rightarrow> Outbound" where
  "append_reply c m term success hint matched =
     \<lparr>ob_to = ae_leader m,
      ob_message = MAppendReply
        \<lparr>ar_term = term, ar_follower = self c, ar_success = success, ar_hint = hint,
         ar_request_id = ae_request_id m, ar_matched = matched\<rparr>\<rparr>"

definition on_recv_append :: "Config \<Rightarrow> Node \<Rightarrow> AppendEntries \<Rightarrow> Node \<times> Effects" where
  "on_recv_append c s m =
     (if \<not> known_peer s (ae_leader m) then (s, no_effects)
      else if \<not> append_shape_ok m then (s, no_effects)
      else if ae_term m < d_term (durable s) then
        (s, no_effects\<lparr>send_now :=
              [append_reply c m (d_term (durable s)) False (last_index (durable s)) 0]\<rparr>)
      else
        (let tgt = adopt_term (durable s) (ae_term m);
             (s1, eff) = step_down s no_effects;
             prev = ae_prev_index m;
             covered = prev + of_nat (length (ae_entries m));
             prev_ok = (term_at tgt prev = Some (ae_prev_term m));
             hint = (if prev < snapshot_index tgt then snapshot_index tgt else last_index tgt)
         in if prev_ok \<and> of_nat kMaximumEntries < covered - snapshot_index tgt then
              (let tgt1 = tgt\<lparr>commit := max (commit tgt) (min (ae_leader_commit m) prev)\<rparr>
               in write_or_reply s1 (eff\<lparr>capacity_exhausted := True\<rparr>) tgt1
                    (append_reply c m (d_term tgt1) False (last_index tgt1) 0) StateUpdate)
            else
              (let (tgt1, conflict) =
                     (if prev_ok then append_entries tgt (prev + 1) (ae_entries m) else (tgt, None));
                   success = (prev_ok \<and> conflict = None);
                   tgt2 = (if success then
                             tgt1\<lparr>commit := max (commit tgt1) (min (ae_leader_commit m) covered)\<rparr>
                           else tgt1);
                   hint1 = (case conflict of Some h \<Rightarrow> h | None \<Rightarrow> hint);
                   hint2 = (if \<not> success \<and> snapshot_index tgt2 < prev \<and> \<not> prev_ok \<and>
                               prev \<le> last_index tgt2 then prev - 1 else hint1);
                   tgt3 = (if success then tgt2
                           else tgt2\<lparr>d_log := d_log (durable s), commit := commit (durable s)\<rparr>)
               in write_or_reply s1 eff tgt3
                    (append_reply c m (d_term tgt3) success hint2 (if success then covered else 0))
                    StateUpdate)))"

definition acknowledge_read :: "string \<Rightarrow> u64 \<Rightarrow> bool \<Rightarrow> Node \<Rightarrow> Node" where
  "acknowledge_read p rid matched s =
     (let v = volatile_state s
      in s\<lparr>volatile_state := v\<lparr>read_barrier :=
           map_option (\<lambda>r. if map_of (probes r) p = Some rid \<and> matched
                           then r\<lparr>acknowledgements := insert p (acknowledgements r)\<rparr> else r)
             (read_barrier v)\<rparr>\<rparr>)"

definition settle_probe :: "AppendReply \<Rightarrow> Probe \<Rightarrow> PeerProgress \<Rightarrow> PeerProgress" where
  "settle_probe m probe g =
     (if ar_success m then
        (let match = max (match_index g) (pb_prev probe + pb_count probe)
         in g\<lparr>in_flight := None, match_index := match,
              next_index := max (next_index g) (match + 1)\<rparr>)
      else
        (let previous = next_index g;
             hint_next = (if ar_hint m = max_u64 then previous else ar_hint m + 1)
         in if 1 < previous
            then g\<lparr>in_flight := None,
                   next_index := max (match_index g + 1) (min (previous - 1) hint_next)\<rparr>
            else g\<lparr>in_flight := None\<rparr>))"

definition on_append_reply :: "Config \<Rightarrow> Node \<Rightarrow> AppendReply \<Rightarrow> Node \<times> Effects" where
  "on_append_reply c s m =
     (let p = ar_follower m
      in case progress_of s p of
           None \<Rightarrow> (s, no_effects)
         | Some progress \<Rightarrow>
             if d_term (durable s) < ar_term m then
               (let (s1, eff) = raise_term s (ar_term m) in complete_read c s1 eff)
             else if role (volatile_state s) = Leader \<and> ar_term m = d_term (durable s) then
               (case in_flight progress of
                  None \<Rightarrow> (s, no_effects)
                | Some probe \<Rightarrow>
                    if pb_request_id probe \<noteq> ar_request_id m \<or> pb_term probe \<noteq> ar_term m then
                      (s, no_effects)
                    else
                      (let s1 = (if ar_success m then
                                   acknowledge_read p (ar_request_id m)
                                     (ar_matched m = pb_prev probe + pb_count probe) s
                                 else s)
                       in complete_read c (set_progress p (settle_probe m probe) s1) no_effects))
             else complete_read c s no_effects)"

definition on_advance_commit :: "Config \<Rightarrow> Node \<Rightarrow> Node \<times> Effects" where
  "on_advance_commit c s =
     (if role (volatile_state s) = Leader then
        (let n = highest_committable c s
         in if commit (durable s) < n then
              begin_write s no_effects ((durable s)\<lparr>commit := n\<rparr>) [] [] False [] StateUpdate
            else (s, no_effects))
      else (s, no_effects))"

definition on_apply_committed :: "Node \<Rightarrow> Node \<times> Effects" where
  "on_apply_committed s =
     (let d = durable s
      in if applied d < commit d \<and> applied d < last_index d then
           (let tgt = d\<lparr>applied := applied d + 1\<rparr>
            in begin_write s no_effects tgt [] [entry_at tgt (applied tgt)] False [] StateUpdate)
         else (s, no_effects))"

section \<open>The step function\<close>

definition dispatch :: "Config \<Rightarrow> Node \<Rightarrow> Input \<Rightarrow> Node \<times> Effects" where
  "dispatch c s i =
     (case i of
        CompactCommitted \<Rightarrow> on_compact_committed s
      | RecvSnapshot m \<Rightarrow> on_recv_snapshot c s m
      | RecvSnapshotReply m \<Rightarrow> on_recv_snapshot_reply s m
      | ElectionTimeout \<Rightarrow> on_election_timeout c s
      | RecvRequestVote m \<Rightarrow> on_request_vote c s m
      | RecvVoteReply m \<Rightarrow> on_vote_reply c s m
      | ClientPropose cmd \<Rightarrow> on_client_propose c s cmd
      | HeartbeatTimeout \<Rightarrow> on_heartbeat_timeout c s
      | RecvAppend m \<Rightarrow> on_recv_append c s m
      | RecvAppendReply m \<Rightarrow> on_append_reply c s m
      | AdvanceCommit \<Rightarrow> on_advance_commit c s
      | ApplyCommitted \<Rightarrow> on_apply_committed s
      | _ \<Rightarrow> (s, no_effects))"

definition step :: "Config \<Rightarrow> Node \<Rightarrow> Input \<Rightarrow> Node \<times> Effects" where
  "step c s i =
     (if \<not> valid_durable (durable s) \<or>
         (case pending s of None \<Rightarrow> False | Some w \<Rightarrow> \<not> valid_durable (target w))
      then fail_stop s
      else case i of
             PersistCompleted token \<Rightarrow> on_persist_completed c s token
           | PersistFailed token \<Rightarrow> on_persist_failed s token
           | Restart \<Rightarrow> on_restart c s
           | CancelRead ctx \<Rightarrow> on_cancel_read s ctx
           | BeginRead ctx \<Rightarrow> on_begin_read c s ctx
           | _ \<Rightarrow> if halted s \<or> pending s \<noteq> None then (s, no_effects) else dispatch c s i)"

end
