(* ===== verification/Raft_Durable.thy ===== *)
theory Raft_Durable
  imports Raft_Core
begin

text \<open>
  The durable part of a Raft node: arithmetic of log indexes under \<open>valid_durable\<close>, validity of
  every state a handler can stage, and the order \<open>durable_le\<close> in which durable states only grow:
  terms, votes within a term, commit, applied and snapshot indexes, and the committed entries.
\<close>

named_theorems durable_intros

section \<open>Index arithmetic\<close>

lemma valid_durable_iff:
  "valid_durable d \<longleftrightarrow>
     (snapshot_index d = 0 \<longleftrightarrow> snapshot_term d = 0) \<and> snapshot_term d \<le> d_term d \<and>
     unat (snapshot_index d) + length (d_log d) < 2 ^ 64 - 1 \<and>
     snapshot_index d \<le> applied d \<and> applied d \<le> commit d \<and>
     unat (commit d) \<le> unat (snapshot_index d) + length (d_log d) \<and>
     length (d_log d) \<le> kMaximumEntries \<and>
     valid_terms (snapshot_term d) (d_term d) (d_log d)"
proof (cases "length (d_log d) \<le> unat (max_u64 - snapshot_index d)")
  case True
  have "unat (max_u64 - snapshot_index d) = 2 ^ 64 - 1 - unat (snapshot_index d)"
    by (simp add: unat_sub_exact)
  with True unat_lt_u64 [of "snapshot_index d"]
  have bound: "unat (snapshot_index d) + length (d_log d) \<le> 2 ^ 64 - 1" by linarith
  then have last: "unat (last_index d) = unat (snapshot_index d) + length (d_log d)"
    unfolding last_index_def by (subst unat_add_exact) (simp_all add: unat_of_nat_exact)
  have "last_index d = max_u64 \<longleftrightarrow> unat (last_index d) = 2 ^ 64 - 1"
    by (metis unat_max_u64 word_unat_eq_iff)
  moreover have "last_index d < commit d \<longleftrightarrow> unat (last_index d) < unat (commit d)"
    by (simp add: word_less_nat_alt)
  ultimately show ?thesis
    using True bound unfolding valid_durable_def last by (auto simp: not_less)
next
  case False
  have "unat (max_u64 - snapshot_index d) = 2 ^ 64 - 1 - unat (snapshot_index d)"
    by (simp add: unat_sub_exact)
  with False show ?thesis by (auto simp: valid_durable_def)
qed

lemma unat_last_index:
  "valid_durable d \<Longrightarrow> unat (last_index d) = unat (snapshot_index d) + length (d_log d)"
  unfolding last_index_def by (subst unat_add_exact) (simp_all add: unat_of_nat_exact valid_durable_iff)

lemma valid_durable_bounds:
  assumes "valid_durable d"
  shows "snapshot_index d \<le> applied d" "applied d \<le> commit d" "commit d \<le> last_index d"
    "snapshot_index d \<le> commit d" "last_index d \<noteq> max_u64" "unat (last_index d) < 2 ^ 64 - 1"
    "snapshot_index d \<le> last_index d"
proof -
  show last: "unat (last_index d) < 2 ^ 64 - 1"
    using assms by (simp add: unat_last_index valid_durable_iff)
  then show "last_index d \<noteq> max_u64" by (metis nat_less_le unat_max_u64)
  show le: "snapshot_index d \<le> applied d" "applied d \<le> commit d" "commit d \<le> last_index d"
    using assms by (auto simp: valid_durable_iff word_le_nat_alt unat_last_index)
  then show "snapshot_index d \<le> commit d" "snapshot_index d \<le> last_index d" by auto
qed

lemma unat_offset:
  fixes i :: u64
  assumes "s < i"
  shows "unat (i - s - 1) = unat i - unat s - 1"
proof -
  have pos: "unat s < unat i" using assms by (simp add: word_less_nat_alt)
  have diff: "unat (i - s) = unat i - unat s" using assms by (simp add: unat_sub_exact)
  with pos have "1 \<le> i - s"
    by (simp add: word_le_nat_alt)
  then show ?thesis using diff by (simp add: unat_sub_exact)
qed

lemma entry_at_nth:
  "snapshot_index d < i \<Longrightarrow> entry_at d i = d_log d ! (unat i - unat (snapshot_index d) - 1)"
  by (simp add: entry_at_def unat_offset)

lemma offset_in_log:
  assumes "valid_durable d" "snapshot_index d < i" "i \<le> last_index d"
  shows "unat i - unat (snapshot_index d) - 1 < length (d_log d)"
  using assms by (simp add: word_le_nat_alt word_less_nat_alt unat_last_index)

lemma term_at_None_iff:
  "valid_durable d \<Longrightarrow> term_at d i = None \<longleftrightarrow> i < snapshot_index d \<or> last_index d < i"
  using valid_durable_bounds(7) [of d] by (auto simp: term_at_def)

lemma term_at_Some_range:
  "valid_durable d \<Longrightarrow> term_at d i = Some t \<Longrightarrow> snapshot_index d \<le> i \<and> i \<le> last_index d"
  using term_at_None_iff [of d i] by auto

lemma term_at_entry:
  "snapshot_index d < i \<Longrightarrow> i \<le> last_index d \<Longrightarrow> term_at d i = Some (e_term (entry_at d i))"
  by (auto simp: term_at_def)

lemma term_at_le_term:
  assumes "valid_durable d" "term_at d i = Some t"
  shows "snapshot_term d \<le> t \<and> t \<le> d_term d"
proof (cases "i = snapshot_index d")
  case True
  then show ?thesis using assms by (simp add: term_at_def valid_durable_iff)
next
  case False
  then have i: "snapshot_index d < i" "i \<le> last_index d"
    using term_at_Some_range [OF assms] by auto
  then have "entry_at d i \<in> set (d_log d)"
    using offset_in_log [OF assms(1)] by (simp add: entry_at_nth)
  moreover have "t = e_term (entry_at d i)" using assms(2) i by (simp add: term_at_entry)
  moreover have "validate_from (snapshot_term d) (d_log d)" "\<forall>e\<in>set (d_log d). e_term e \<le> d_term d"
    using assms(1) by (auto simp: valid_durable_iff valid_terms_iff)
  ultimately show ?thesis using validate_from_bounds by blast
qed

lemma term_at_nonzero:
  assumes "valid_durable d" "term_at d i = Some t" "snapshot_index d < i"
  shows "t \<noteq> 0"
proof -
  have i: "i \<le> last_index d" using term_at_Some_range [OF assms(1,2)] by simp
  then have "entry_at d i \<in> set (d_log d)"
    using offset_in_log [OF assms(1,3)] by (simp add: entry_at_nth assms(3))
  moreover have "validate_from (snapshot_term d) (d_log d)"
    using assms(1) by (simp add: valid_durable_iff valid_terms_iff)
  ultimately have "e_term (entry_at d i) \<noteq> 0" using validate_from_bounds by blast
  then show ?thesis using assms(2,3) i by (simp add: term_at_entry)
qed

section \<open>Validity of staged states\<close>

lemma valid_raise_term [durable_intros]:
  "valid_durable d \<Longrightarrow> d_term d \<le> t \<Longrightarrow> valid_durable (d\<lparr>d_term := t, voted_for := v\<rparr>)"
  by (auto simp: valid_durable_iff intro: valid_terms_mono)

lemma valid_set_vote [durable_intros]:
  "valid_durable d \<Longrightarrow> valid_durable (d\<lparr>voted_for := v\<rparr>)"
  by (simp add: valid_durable_iff)

lemma valid_adopt_term [durable_intros]: "valid_durable d \<Longrightarrow> valid_durable (adopt_term d t)"
  by (simp add: adopt_term_def valid_raise_term)

lemma valid_set_commit [durable_intros]:
  "valid_durable d \<Longrightarrow> commit d \<le> n \<Longrightarrow> n \<le> last_index d \<Longrightarrow> valid_durable (d\<lparr>commit := n\<rparr>)"
  by (auto simp: valid_durable_iff unat_last_index word_le_nat_alt)

lemma valid_push [durable_intros]:
  assumes "valid_durable d" "length (d_log d) < kMaximumEntries" "last_index d < max_u64 - 1"
    and "last_term d \<le> e_term e" "e_term e \<le> d_term d" "e_term e \<noteq> 0"
  shows "valid_durable (d\<lparr>d_log := d_log d @ [e]\<rparr>)"
proof -
  have "unat (max_u64 - 1) = 2 ^ 64 - 2" by (simp add: unat_sub_exact word_le_nat_alt)
  then have "unat (snapshot_index d) + length (d_log d) < 2 ^ 64 - 2"
    using assms(1,3) by (simp add: word_less_nat_alt flip: unat_last_index)
  moreover have "valid_terms (snapshot_term d) (d_term d) (d_log d @ [e])"
    using assms(1,4-6) by (auto simp: valid_durable_iff valid_terms_iff validate_from_append last_term_def)
  ultimately show ?thesis using assms(1,2) by (auto simp: valid_durable_iff)
qed

lemma valid_apply_next [durable_intros]:
  assumes "valid_durable d" "applied d < commit d"
  shows "valid_durable (d\<lparr>applied := applied d + 1\<rparr>)"
proof -
  have "applied d \<noteq> max_u64" using assms(2) by (metis max_word_max leD)
  then have "unat (applied d + 1) = unat (applied d) + 1" by (rule unat_Suc_exact)
  with assms show ?thesis by (auto simp: valid_durable_iff word_le_nat_alt word_less_nat_alt)
qed

lemma nat_diff_index:
  fixes i :: u64
  assumes "valid_durable d" "snapshot_index d \<le> i" "i \<le> last_index d"
  shows "unat (i - snapshot_index d) \<le> length (d_log d)"
    "unat (i - snapshot_index d) = unat i - unat (snapshot_index d)"
  using assms by (auto simp: unat_sub_exact word_le_nat_alt unat_last_index)

lemma valid_terms_suffix:
  assumes "valid_durable d" "term_at d i = Some t"
  shows "valid_terms t (d_term d) (drop (unat (i - snapshot_index d)) (d_log d))"
proof -
  let ?n = "unat (i - snapshot_index d)"
  have range: "snapshot_index d \<le> i" "i \<le> last_index d"
    using term_at_Some_range [OF assms] by auto
  have "t = (if ?n = 0 then snapshot_term d else e_term (d_log d ! (?n - 1)))"
  proof (cases "i = snapshot_index d")
    case False
    then have "snapshot_index d < i" using range by auto
    then have "t = e_term (entry_at d i)" "unat (snapshot_index d) < unat i"
      using assms range by (simp_all add: term_at_entry word_less_nat_alt)
    with \<open>snapshot_index d < i\<close> show ?thesis
      by (simp add: nat_diff_index(2) [OF assms(1) range] entry_at_nth)
  qed (use assms in \<open>simp add: term_at_def\<close>)
  then show ?thesis
    using valid_terms_drop [of "snapshot_term d" "d_term d" "d_log d" ?n]
      nat_diff_index [OF assms(1) range] assms(1)
    by (simp add: valid_durable_iff)
qed

lemma valid_cut [durable_intros]:
  assumes "valid_durable d" "term_at d i = Some t" "i \<noteq> 0" "t \<noteq> 0"
    and "i \<le> a" "a \<le> m" "m \<le> last_index d"
  shows "valid_durable (d\<lparr>snapshot_index := i, snapshot_term := t,
    d_log := drop (unat (i - snapshot_index d)) (d_log d), commit := m, applied := a\<rparr>)"
    (is "valid_durable ?d")
proof -
  have range: "snapshot_index d \<le> i" "i \<le> last_index d"
    using term_at_Some_range [OF assms(1,2)] by auto
  have total: "unat i + (length (d_log d) - unat (i - snapshot_index d)) = unat (last_index d)"
    using range nat_diff_index [OF assms(1) range]
    by (simp add: unat_last_index [OF assms(1)] word_le_nat_alt)
  have "unat m \<le> unat (last_index d)" using assms(7) by (simp add: word_le_nat_alt)
  moreover have "length (d_log d) \<le> kMaximumEntries" using assms(1) by (simp add: valid_durable_iff)
  moreover note valid_durable_bounds(6) [OF assms(1)] term_at_le_term [OF assms(1,2)]
    valid_terms_suffix [OF assms(1,2)]
  ultimately show ?thesis
    unfolding valid_durable_iff using assms(3-6) total by simp
qed

lemma last_index_cut:
  assumes "valid_durable d" "term_at d i = Some t"
  shows "last_index (d\<lparr>snapshot_index := i, snapshot_term := x,
    d_log := drop (unat (i - snapshot_index d)) (d_log d), commit := m, applied := a\<rparr>) = last_index d"
proof -
  have range: "snapshot_index d \<le> i" "i \<le> last_index d"
    using term_at_Some_range [OF assms] by auto
  note len = nat_diff_index [OF assms(1) range]
  have "of_nat (length (d_log d) - unat (i - snapshot_index d)) =
      (of_nat (length (d_log d)) :: u64) - (i - snapshot_index d)"
    using len(1) by simp
  then show ?thesis by (simp add: last_index_def)
qed

lemma valid_snapshot_reset [durable_intros]:
  assumes "valid_durable d" "i \<noteq> 0" "i \<noteq> max_u64" "t \<noteq> 0" "t \<le> d_term d"
  shows "valid_durable (d\<lparr>snapshot_index := i, snapshot_term := t, d_log := [], commit := i,
    applied := i\<rparr>)"
proof -
  have "unat i < 2 ^ 64 - 1"
    using assms(3) word_less_nat_alt [of i max_u64] by simp
  then show ?thesis using assms by (simp add: valid_durable_iff valid_terms_iff)
qed

lemma valid_install_snapshot [durable_intros]:
  assumes "valid_durable d" "i \<noteq> 0" "i \<noteq> max_u64" "t \<noteq> 0" "t \<le> d_term d"
  shows "valid_durable (install_snapshot d i t)"
proof (cases "term_at d i = Some t")
  case True
  then show ?thesis
    using valid_cut [OF assms(1) True assms(2,4), of i i] term_at_Some_range [OF assms(1) True]
    by (simp add: install_snapshot_def)
next
  case False
  then show ?thesis using valid_snapshot_reset [OF assms] by (simp add: install_snapshot_def)
qed

section \<open>Merging the entries of an append request\<close>

text \<open>
  The outcome of the entry loop, as one function of the log: \<open>n\<close> entries precede the first new one,
  \<open>k\<close> entries are committed. A conflict below \<open>k\<close> fails; a conflict above it drops the old suffix;
  without a conflict an old suffix past the new entries stays.
\<close>

definition merge_log :: "nat \<Rightarrow> nat \<Rightarrow> 'a list \<Rightarrow> 'a list \<Rightarrow> 'a list option" where
  "merge_log n k log es =
     (let same = common_prefix_length (drop n log) es
      in if same < length es \<and> n + same < length log
         then if n + same < k then None else Some (take n log @ es)
         else Some (take n log @ es @ drop (n + length es) log))"

lemma merge_log_Nil: "merge_log n k log [] = Some log"
  by (simp add: merge_log_def)

lemma merge_log_same:
  assumes "n < length log" "log ! n = e"
  shows "merge_log n k log (e # es) = merge_log (Suc n) k log es"
proof -
  have "drop n log = e # drop (Suc n) log" using assms by (simp flip: Cons_nth_drop_Suc)
  then show ?thesis
    using assms take_Suc_conv_app_nth [OF assms(1)] by (simp add: merge_log_def Let_def)
qed

lemma merge_log_end:
  "n = length log \<Longrightarrow> merge_log n k log (e # es) = merge_log (Suc n) k (log @ [e]) es"
  by (simp add: merge_log_def Let_def)

lemma merge_log_conflict:
  assumes "n < length log" "log ! n \<noteq> e"
  shows "merge_log n k log (e # es) =
    (if n < k then None else merge_log (Suc n) k (take n log @ [e]) es)"
proof -
  have "drop n log = log ! n # drop (Suc n) log" using assms by (simp flip: Cons_nth_drop_Suc)
  then show ?thesis using assms by (simp add: merge_log_def Let_def)
qed

lemma append_entries_merge:
  assumes "snapshot_index t < i" "unat i - unat (snapshot_index t) - 1 = n" "n \<le> length (d_log t)"
    and "unat i + length es < 2 ^ 64" "unat (snapshot_index t) + length (d_log t) < 2 ^ 64 - 1"
  shows "append_entries t i es =
    (case merge_log n (unat (commit t) - unat (snapshot_index t)) (d_log t) es of
       None \<Rightarrow> (t, Some (commit t))
     | Some l \<Rightarrow> (t\<lparr>d_log := l\<rparr>, None))"
  using assms
proof (induction es arbitrary: t i n)
  case Nil
  then show ?case by (simp add: merge_log_Nil)
next
  case (Cons e es)
  let ?k = "unat (commit t) - unat (snapshot_index t)"
  have i: "unat i = unat (snapshot_index t) + Suc n"
    using Cons.prems(1,2) by (simp add: word_less_nat_alt)
  have "i \<noteq> max_u64" using Cons.prems(4) by auto
  then have Suc_i: "unat (i + 1) = Suc (unat i)" by (simp add: unat_Suc_exact)
  have below: "snapshot_index t < i + 1"
    using i Suc_i by (simp add: word_less_nat_alt)
  have last: "unat (last_index d) = unat (snapshot_index d) + length (d_log d)"
    if "unat (snapshot_index d) + length (d_log d) < 2 ^ 64" for d
    using that unfolding last_index_def
    by (subst unat_add_exact) (simp_all add: unat_of_nat_exact)
  have in_log: "i \<le> last_index t \<longleftrightarrow> n < length (d_log t)"
    using Cons.prems(5) by (simp add: word_le_nat_alt last i Suc_le_eq)
  have committed: "i \<le> commit t \<longleftrightarrow> n < ?k"
    using i by (auto simp: word_le_nat_alt)
  have at_end: "i = last_index d + 1 \<longleftrightarrow> n = length (d_log d)"
    if "snapshot_index d = snapshot_index t" "unat (snapshot_index d) + length (d_log d) < 2 ^ 64 - 1"
    for d
  proof -
    have "last_index d \<noteq> max_u64" using that(2) last [of d] by auto
    then have "unat (last_index d + 1) = Suc (unat (last_index d))" by (simp add: unat_Suc_exact)
    then show ?thesis using last [of d] that i by (auto simp: word_unat_eq_iff)
  qed
  note step = append_entries.simps(2) [of t i e es, unfolded unat_offset [OF Cons.prems(1)]
      Cons.prems(2) Let_def in_log committed]
  consider (conflict) "n < length (d_log t)" "d_log t ! n \<noteq> e"
    | (same) "n < length (d_log t)" "d_log t ! n = e" | (new) "n = length (d_log t)"
    using Cons.prems(3) by linarith
  then show ?case
  proof cases
    case conflict
    let ?t = "t\<lparr>d_log := take n (d_log t) @ [e]\<rparr>"
    show ?thesis
    proof (cases "n < ?k")
      case False
      have end': "(i = last_index (t\<lparr>d_log := take n (d_log t)\<rparr>) + 1) = True"
        using conflict Cons.prems(5) by (subst at_end) auto
      have "append_entries ?t (i + 1) es =
          (case merge_log (Suc n) ?k (d_log ?t) es of
             None \<Rightarrow> (?t, Some (commit ?t)) | Some l \<Rightarrow> (?t\<lparr>d_log := l\<rparr>, None))"
        using Cons.IH [of ?t "i + 1" "Suc n"] below Suc_i i conflict Cons.prems(4,5) by simp
      moreover have "merge_log (Suc n) ?k (take n (d_log t) @ [e]) es \<noteq> None"
        using conflict by (simp add: merge_log_def Let_def)
      ultimately show ?thesis
        using conflict False
        by (auto simp: step merge_log_conflict end' simp del: append_entries.simps)
    qed (use conflict in \<open>simp add: step merge_log_conflict del: append_entries.simps\<close>)
  next
    case same
    then have "i \<noteq> last_index t + 1" using at_end [of t] Cons.prems(5) by simp
    then show ?thesis
      using same Cons.IH [of t "i + 1" "Suc n"] below Suc_i i Cons.prems(4,5)
      by (simp add: step merge_log_same del: append_entries.simps)
  next
    case new
    let ?t = "t\<lparr>d_log := d_log t @ [e]\<rparr>"
    have end': "(i = last_index t + 1) = True" using at_end [of t] Cons.prems(5) new by simp
    have "append_entries ?t (i + 1) es =
        (case merge_log (Suc n) ?k (d_log ?t) es of
           None \<Rightarrow> (?t, Some (commit ?t)) | Some l \<Rightarrow> (?t\<lparr>d_log := l\<rparr>, None))"
      using Cons.IH [of ?t "i + 1" "Suc n"] below Suc_i i new Cons.prems(4,5) by simp
    moreover have "merge_log (Suc n) ?k (d_log t @ [e]) es \<noteq> None"
      using new by (simp add: merge_log_def Let_def)
    ultimately show ?thesis
      using new by (auto simp: step merge_log_end end' simp del: append_entries.simps)
  qed
qed

lemma merge_log_cases:
  assumes "n \<le> length log" "merge_log n k log es = Some l" "k \<le> length log"
  obtains (kept) "l = log" "take (length es) (drop n log) = es" "n + length es \<le> length log"
  | (replaced) "l = take n log @ es" "take k l = take k log" "k \<le> length l"
proof -
  let ?same = "common_prefix_length (drop n log) es"
  have agree: "take ?same (drop n log) = take ?same es" by (rule take_common_prefix_length)
  have len: "?same \<le> length log - n" "?same \<le> length es"
    using common_prefix_length_bounds [of "drop n log" es] by simp_all
  consider (conflict) "?same < length es" "n + ?same < length log"
    | (full) "?same = length es" | (short) "?same < length es" "n + ?same = length log"
    using len assms(1) by linarith
  then show thesis
  proof cases
    case conflict
    then have k: "k \<le> n + ?same" and l: "l = take n log @ es"
      using assms(2) by (auto simp: merge_log_def Let_def split: if_splits)
    have "take (n + ?same) l = take (n + ?same) log"
      using agree assms(1) by (simp add: l take_add)
    then have "take k l = take k log" using k by (metis min.absorb2 take_take min.commute)
    then show thesis using replaced l k conflict by simp
  next
    case full
    then have es: "take (length es) (drop n log) = es" using agree by simp
    have "take n log @ take (length es) (drop n log) @ drop (n + length es) log = log"
      by (metis add.commute append_take_drop_id drop_drop)
    then have "l = log" using full assms es by (simp add: merge_log_def Let_def)
    then show thesis using kept es full len assms(1) by simp
  next
    case short
    then have l: "l = take n log @ es" using assms(2) by (simp add: merge_log_def Let_def)
    have "take ?same es = drop n log" using agree short assms(1) by simp
    then have "log = take n log @ take ?same es" by simp
    then have "take (length log) l = log"
      using l short assms(1) by (metis (no_types, lifting) append_take_drop_id append.assoc
          append_eq_conv_conj)
    then have "take k l = take k log" using assms(3) by (metis min.absorb1 take_take)
    then show thesis using replaced l short assms(3) by simp
  qed
qed

section \<open>The order on durable states\<close>

definition committed_kept :: "Durable \<Rightarrow> Durable \<Rightarrow> bool" where
  "committed_kept d d' \<longleftrightarrow>
     (\<forall>i. snapshot_index d \<le> i \<and> snapshot_index d' \<le> i \<and> i \<le> commit d \<longrightarrow>
        term_at d' i = term_at d i) \<and>
     (\<forall>i. snapshot_index d < i \<and> snapshot_index d' < i \<and> i \<le> commit d \<longrightarrow>
        entry_at d' i = entry_at d i)"

definition durable_le :: "Durable \<Rightarrow> Durable \<Rightarrow> bool" where
  "durable_le d d' \<longleftrightarrow>
     d_term d \<le> d_term d' \<and>
     (d_term d = d_term d' \<and> voted_for d \<noteq> None \<longrightarrow> voted_for d' = voted_for d) \<and>
     commit d \<le> commit d' \<and> applied d \<le> applied d' \<and> snapshot_index d \<le> snapshot_index d' \<and>
     committed_kept d d'"

lemma durable_le_refl [simp, durable_intros]: "durable_le d d"
  by (simp add: durable_le_def committed_kept_def)

lemma durable_le_trans [trans]:
  assumes ab: "durable_le a b" and bc: "durable_le b c"
  shows "durable_le a c"
proof -
  have snap: "snapshot_index a \<le> snapshot_index b" "snapshot_index b \<le> snapshot_index c"
    and commit: "commit a \<le> commit b"
    using ab bc by (simp_all add: durable_le_def)
  have "term_at c i = term_at a i" if "snapshot_index a \<le> i" "snapshot_index c \<le> i" "i \<le> commit a" for i
    using that ab bc order.trans [OF snap(2) that(2)] order.trans [OF that(3) commit]
    by (simp add: durable_le_def committed_kept_def)
  moreover have "entry_at c i = entry_at a i"
    if "snapshot_index a < i" "snapshot_index c < i" "i \<le> commit a" for i
    using that ab bc order.strict_trans1 [OF snap(2) that(2)] order.trans [OF that(3) commit]
    by (simp add: durable_le_def committed_kept_def)
  ultimately have "committed_kept a c" by (simp add: committed_kept_def)
  moreover have "d_term a \<le> d_term b" "d_term b \<le> d_term c" using ab bc by (simp_all add: durable_le_def)
  moreover have "voted_for c = voted_for a" if "d_term a = d_term c" "voted_for a \<noteq> None"
  proof -
    have "d_term a = d_term b" "d_term b = d_term c" using that(1) calculation(2,3) by simp_all
    then show ?thesis using ab bc that(2) by (simp add: durable_le_def)
  qed
  ultimately show ?thesis
    using ab bc by (auto simp: durable_le_def intro: order.trans)
qed

lemma durable_le_raise_term [durable_intros]:
  "d_term d < t \<Longrightarrow> durable_le d (d\<lparr>d_term := t, voted_for := v\<rparr>)"
  by (auto simp: durable_le_def committed_kept_def term_at_def entry_at_def last_index_def)

lemma durable_le_adopt_term [durable_intros]: "durable_le d (adopt_term d t)"
  by (simp add: adopt_term_def durable_le_raise_term)

lemma durable_le_set_vote [durable_intros]:
  "voted_for d = None \<or> voted_for d = v \<Longrightarrow> durable_le d (d\<lparr>voted_for := v\<rparr>)"
  by (auto simp: durable_le_def committed_kept_def term_at_def entry_at_def last_index_def)

lemma durable_le_set_commit [durable_intros]:
  "commit d \<le> n \<Longrightarrow> durable_le d (d\<lparr>commit := n\<rparr>)"
  by (auto simp: durable_le_def committed_kept_def term_at_def entry_at_def last_index_def)

lemma durable_le_apply_next [durable_intros]:
  assumes "applied d < commit d"
  shows "durable_le d (d\<lparr>applied := applied d + 1\<rparr>)"
proof -
  have "applied d \<noteq> max_u64" using assms by (metis max_word_max leD)
  then have "applied d \<le> applied d + 1" by (simp add: word_le_nat_alt unat_Suc_exact)
  then show ?thesis
    by (simp add: durable_le_def committed_kept_def term_at_def entry_at_def last_index_def)
qed

lemma durable_le_set_log [durable_intros]:
  assumes "valid_durable d" "valid_durable (d\<lparr>d_log := l\<rparr>)"
    and "take k l = take k (d_log d)" "k = unat (commit d) - unat (snapshot_index d)"
  shows "durable_le d (d\<lparr>d_log := l\<rparr>)"
proof -
  let ?d = "d\<lparr>d_log := l\<rparr>"
  have same: "entry_at ?d i = entry_at d i" if "snapshot_index d < i" "i \<le> commit d" for i
  proof -
    have "unat i - unat (snapshot_index d) - 1 < k"
      using that assms(4) by (simp add: word_less_nat_alt word_le_nat_alt)
    then have "l ! (unat i - unat (snapshot_index d) - 1) =
        d_log d ! (unat i - unat (snapshot_index d) - 1)"
      using assms(3) by (metis nth_take)
    then show ?thesis using that by (simp add: entry_at_nth)
  qed
  have "term_at ?d i = term_at d i" if "snapshot_index d \<le> i" "i \<le> commit d" for i
  proof (cases "i = snapshot_index d")
    case False
    then have "snapshot_index d < i" using that(1) by simp
    moreover have "i \<le> last_index d" "i \<le> last_index ?d"
      using that(2) valid_durable_bounds(3) [OF assms(1)] valid_durable_bounds(3) [OF assms(2)]
      by (auto intro: order.trans)
    ultimately show ?thesis using same [OF _ that(2)] by (simp add: term_at_entry)
  qed (simp add: term_at_def)
  with same show ?thesis by (simp add: durable_le_def committed_kept_def)
qed

lemma durable_le_push [durable_intros]:
  assumes "valid_durable d" "valid_durable (d\<lparr>d_log := d_log d @ es\<rparr>)"
  shows "durable_le d (d\<lparr>d_log := d_log d @ es\<rparr>)"
  using durable_le_set_log [OF assms _ refl] assms(1) by (simp add: valid_durable_iff)

lemma cut_term_at:
  fixes d :: Durable and x m a
  defines "d' i \<equiv> d\<lparr>snapshot_index := i, snapshot_term := x i,
    d_log := drop (unat (i - snapshot_index d)) (d_log d), commit := m, applied := a\<rparr>"
  assumes "valid_durable d" "term_at d i = Some (x i)" "i \<le> j"
  shows "term_at (d' i) j = term_at d j" "i < j \<Longrightarrow> j \<le> last_index d \<Longrightarrow> entry_at (d' i) j = entry_at d j"
proof -
  have range: "snapshot_index d \<le> i" "i \<le> last_index d"
    using term_at_Some_range [OF assms(2,3)] by auto
  have last: "last_index (d' i) = last_index d"
    unfolding d'_def by (rule last_index_cut [OF assms(2,3)])
  show entry: "entry_at (d' i) j = entry_at d j" if "i < j" "j \<le> last_index d"
  proof -
    have "snapshot_index d < j" using range that by auto
    moreover have "snapshot_index (d' i) < j" by (simp add: d'_def that(1))
    moreover have "(unat i - unat (snapshot_index d)) + (unat j - unat i - 1) =
        unat j - unat (snapshot_index d) - 1"
      using range that by (auto simp: word_le_nat_alt word_less_nat_alt)
    moreover have "unat i - unat (snapshot_index d) \<le> length (d_log d)"
      using nat_diff_index [OF assms(2) range] by simp
    ultimately show ?thesis
      using nat_diff_index(2) [OF assms(2) range] by (simp add: entry_at_nth) (simp add: d'_def)
  qed
  show "term_at (d' i) j = term_at d j"
  proof (cases "i = j")
    case True
    then show ?thesis using assms(3) by (simp add: term_at_def d'_def)
  next
    case False
    then have "i < j" "snapshot_index d < j" "snapshot_index (d' i) < j"
      using assms(4) range by (auto simp: d'_def)
    then show ?thesis
      using entry last by (cases "j \<le> last_index d") (auto simp: term_at_entry, auto simp: term_at_def)
  qed
qed

lemma durable_le_cut [durable_intros]:
  assumes "valid_durable d" "term_at d i = Some t" "commit d \<le> m" "applied d \<le> a"
  shows "durable_le d (d\<lparr>snapshot_index := i, snapshot_term := t,
    d_log := drop (unat (i - snapshot_index d)) (d_log d), commit := m, applied := a\<rparr>)"
  using assms term_at_Some_range [OF assms(1,2)] valid_durable_bounds(3) [OF assms(1)]
  by (auto simp: durable_le_def committed_kept_def
      cut_term_at [where x = "\<lambda>_. t", OF assms(1,2)] intro: order.trans)

lemma durable_le_install_snapshot [durable_intros]:
  assumes "valid_durable d" "commit d < i"
  shows "durable_le d (install_snapshot d i t)"
proof -
  have "snapshot_index d \<le> i" "applied d \<le> i"
    using assms(2) valid_durable_bounds [OF assms(1)] by auto
  then show ?thesis
    using assms(2) by (auto simp: durable_le_def committed_kept_def install_snapshot_def)
qed

section \<open>An accepted append request\<close>

lemma entry_terms_ok_iff: "entry_terms_ok p t es \<longleftrightarrow> valid_terms p t es"
proof -
  have "entry_terms_ok p t es \<longleftrightarrow> validate_from p es \<and> (\<forall>e\<in>set es. e_term e \<le> t)"
    by (induction es arbitrary: p) (auto simp: not_less)
  then show ?thesis by (simp add: valid_terms_iff)
qed

lemma valid_merge:
  assumes valid: "valid_durable d" and n: "n \<le> length (d_log d)"
    and merge: "merge_log n k (d_log d) es = Some l"
    and k: "k = unat (commit d) - unat (snapshot_index d)"
    and terms: "valid_terms (if n = 0 then snapshot_term d else e_term (d_log d ! (n - 1))) (d_term d) es"
    and bounds: "n + length es \<le> kMaximumEntries" "unat (snapshot_index d) + n + length es < 2 ^ 64 - 1"
  shows "valid_durable (d\<lparr>d_log := l\<rparr>)" "durable_le d (d\<lparr>d_log := l\<rparr>)"
    "take (length es) (drop n l) = es" "n + length es \<le> length l"
proof -
  have klen: "k \<le> length (d_log d)" using valid k by (auto simp: valid_durable_iff)
  have "valid_durable (d\<lparr>d_log := l\<rparr>) \<and> take k l = take k (d_log d) \<and>
      take (length es) (drop n l) = es \<and> n + length es \<le> length l"
    using n merge klen
  proof (cases rule: merge_log_cases)
    case kept
    then show ?thesis using valid by simp
  next
    case replaced
    have "valid_terms (snapshot_term d) (d_term d) (take n (d_log d))"
      using valid by (auto simp: valid_durable_iff intro: valid_terms_take)
    moreover have "(if take n (d_log d) = [] then snapshot_term d else e_term (last (take n (d_log d)))) =
        (if n = 0 then snapshot_term d else e_term (d_log d ! (n - 1)))"
      using n by (cases "n = 0") (auto simp: last_conv_nth min_def)
    ultimately have "valid_terms (snapshot_term d) (d_term d) l"
      using terms replaced(1) by (simp add: valid_terms_append)
    moreover have "unat (commit d) \<le> unat (snapshot_index d) + length l"
      using replaced(3) k valid by (simp add: valid_durable_iff)
    moreover have "length l = n + length es" using n by (simp add: replaced(1))
    ultimately have "valid_durable (d\<lparr>d_log := l\<rparr>)"
      using valid bounds by (simp add: valid_durable_iff)
    then show ?thesis using replaced n by simp
  qed
  then show "valid_durable (d\<lparr>d_log := l\<rparr>)" "durable_le d (d\<lparr>d_log := l\<rparr>)"
    "take (length es) (drop n l) = es" "n + length es \<le> length l"
    using durable_le_set_log [OF valid _ _ k] by auto
qed

definition append_fits :: "Durable \<Rightarrow> AppendEntries \<Rightarrow> bool" where
  "append_fits d m \<longleftrightarrow>
     append_shape_ok m \<and> ae_term m \<le> d_term d \<and>
     term_at d (ae_prev_index m) = Some (ae_prev_term m) \<and>
     \<not> of_nat kMaximumEntries < ae_prev_index m + of_nat (length (ae_entries m)) - snapshot_index d"

lemma append_fits_bounds:
  assumes "valid_durable d" "append_fits d m"
  shows "unat (ae_prev_index m) + length (ae_entries m) < 2 ^ 64 - 1"
    "unat (ae_prev_index m + of_nat (length (ae_entries m))) =
       unat (ae_prev_index m) + length (ae_entries m)"
    "unat (ae_prev_index m) - unat (snapshot_index d) \<le> length (d_log d)"
    "unat (snapshot_index d) \<le> unat (ae_prev_index m)"
    "unat (ae_prev_index m) - unat (snapshot_index d) + length (ae_entries m) \<le> kMaximumEntries"
proof -
  let ?p = "ae_prev_index m" and ?n = "length (ae_entries m)"
  have range: "snapshot_index d \<le> ?p" "?p \<le> last_index d"
    using assms term_at_Some_range [of d ?p] by (auto simp: append_fits_def)
  then show le: "unat (snapshot_index d) \<le> unat ?p"
    and "unat ?p - unat (snapshot_index d) \<le> length (d_log d)"
    by (auto simp: word_le_nat_alt unat_last_index [OF assms(1)])
  have "?p \<noteq> max_u64" and len: "?n \<le> unat (max_u64 - 1 - ?p)"
    using assms(2) by (auto simp: append_fits_def append_shape_ok_def not_less)
  then have p: "unat ?p < 2 ^ 64 - 1" using word_less_nat_alt [of ?p max_u64] by simp
  have max1: "unat (max_u64 - 1) = 2 ^ 64 - 2" by (simp add: unat_sub_exact word_le_nat_alt)
  then have "?p \<le> max_u64 - 1" using p by (simp add: word_le_nat_alt)
  then have "unat (max_u64 - 1 - ?p) = 2 ^ 64 - 2 - unat ?p" using max1 by (simp add: unat_sub_exact)
  with len p show sum: "unat ?p + ?n < 2 ^ 64 - 1" by simp
  then show cov: "unat (?p + of_nat ?n) = unat ?p + ?n"
    by (subst unat_add_exact) (simp_all add: unat_of_nat_exact)
  have "unat (?p + of_nat ?n - snapshot_index d) = unat ?p + ?n - unat (snapshot_index d)"
    using cov le by (simp add: unat_sub_exact word_le_nat_alt)
  moreover have "unat (of_nat kMaximumEntries :: u64) = kMaximumEntries" by (simp add: unat_of_nat_exact)
  ultimately show "unat ?p - unat (snapshot_index d) + ?n \<le> kMaximumEntries"
    using assms(2) le by (simp add: append_fits_def not_less word_le_nat_alt)
qed

lemma append_fits_merge:
  assumes "valid_durable d" "append_fits d m"
  shows "append_entries d (ae_prev_index m + 1) (ae_entries m) =
    (case merge_log (unat (ae_prev_index m) - unat (snapshot_index d))
            (unat (commit d) - unat (snapshot_index d)) (d_log d) (ae_entries m) of
       None \<Rightarrow> (d, Some (commit d))
     | Some l \<Rightarrow> (d\<lparr>d_log := l\<rparr>, None))"
proof -
  let ?p = "ae_prev_index m"
  note bounds = append_fits_bounds [OF assms]
  have "?p \<noteq> max_u64" using assms(2) by (simp add: append_fits_def append_shape_ok_def)
  then have "unat (?p + 1) = unat ?p + 1" by (rule unat_Suc_exact)
  moreover have "unat (snapshot_index d) + length (d_log d) < 2 ^ 64 - 1"
    using assms(1) by (simp add: valid_durable_iff)
  ultimately show ?thesis
    using bounds by (intro append_entries_merge) (simp_all add: word_less_nat_alt)
qed

lemma append_entries_fits:
  assumes valid: "valid_durable d" and fits: "append_fits d m"
    and out: "append_entries d (ae_prev_index m + 1) (ae_entries m) = (t, r)"
  shows "r \<noteq> None \<Longrightarrow> t = d \<and> r = Some (commit d)"
    and "r = None \<Longrightarrow> valid_durable t \<and> durable_le d t \<and> t = d\<lparr>d_log := d_log t\<rparr> \<and>
      merge_log (unat (ae_prev_index m) - unat (snapshot_index d))
        (unat (commit d) - unat (snapshot_index d)) (d_log d) (ae_entries m) = Some (d_log t) \<and>
      ae_prev_index m + of_nat (length (ae_entries m)) \<le> last_index t"
proof -
  let ?p = "ae_prev_index m" and ?n = "unat (ae_prev_index m) - unat (snapshot_index d)"
  let ?k = "unat (commit d) - unat (snapshot_index d)"
  note bounds = append_fits_bounds [OF valid fits]
  note merge = append_fits_merge [OF valid fits]
  show "r \<noteq> None \<Longrightarrow> t = d \<and> r = Some (commit d)"
    using out merge by (auto split: option.splits)
  assume "r = None"
  then obtain l where l: "merge_log ?n ?k (d_log d) (ae_entries m) = Some l" "t = d\<lparr>d_log := l\<rparr>"
    using out merge by (auto split: option.splits)
  have prev: "(if ?n = 0 then snapshot_term d else e_term (d_log d ! (?n - 1))) = ae_prev_term m"
  proof (cases "?p = snapshot_index d")
    case False
    then have "snapshot_index d < ?p" "?p \<le> last_index d"
      using fits term_at_Some_range [OF valid, of ?p] by (auto simp: append_fits_def)
    then show ?thesis
      using fits by (simp add: append_fits_def term_at_entry entry_at_nth word_less_nat_alt)
  qed (use fits in \<open>simp add: append_fits_def term_at_def\<close>)
  have terms: "valid_terms (ae_prev_term m) (d_term d) (ae_entries m)"
    using fits by (auto simp: append_fits_def append_shape_ok_def entry_terms_ok_iff intro: valid_terms_mono)
  have total: "unat (snapshot_index d) + ?n + length (ae_entries m) < 2 ^ 64 - 1"
    using bounds(1,4) by simp
  note out = valid_merge [OF valid bounds(3) l(1) refl terms [folded prev] bounds(5) total]
  have "?p + of_nat (length (ae_entries m)) \<le> last_index t"
    using unat_last_index [OF out(1)] out(4) bounds(2,4) by (simp add: word_le_nat_alt l(2))
  then show "valid_durable t \<and> durable_le d t \<and> t = d\<lparr>d_log := d_log t\<rparr> \<and>
      merge_log ?n ?k (d_log d) (ae_entries m) = Some (d_log t) \<and>
      ?p + of_nat (length (ae_entries m)) \<le> last_index t"
    using out(1,2) l by simp
qed

end
