(* ===== verification/Raft_Safety.thy ===== *)
theory Raft_Safety
  imports Raft_Durable
begin

text \<open>
  Safety of one Raft node. \<open>node_inv\<close> says that the durable state and any staged write are valid,
  that a staged write only extends the durable state, and that every message waiting for it is
  backed by it. Each handler keeps the invariant (\<open>handled\<close>), so every step does, for every input.
\<close>

section \<open>What a message claims\<close>

definition config_ok :: "Config \<Rightarrow> bool" where
  "config_ok c \<longleftrightarrow> distinct (peers c) \<and> self c \<notin> set (peers c)"

abbreviation members :: "Config \<Rightarrow> string set" where
  "members c \<equiv> insert (self c) (set (peers c))"

definition append_backed :: "Config \<Rightarrow> Durable \<Rightarrow> AppendEntries \<Rightarrow> bool" where
  "append_backed c d m \<longleftrightarrow>
     ae_term m = d_term d \<and> ae_leader m = self c \<and> ae_leader_commit m \<le> commit d \<and>
     length (ae_entries m) \<le> 1 \<and>
     (\<forall>e\<in>set (ae_entries m). ae_prev_index m < last_index d \<and>
        (snapshot_index d \<le> ae_prev_index m \<longrightarrow> e = entry_at d (ae_prev_index m + 1)))"

definition backed :: "Config \<Rightarrow> Durable \<Rightarrow> Outbound \<Rightarrow> bool" where
  "backed c d ob \<longleftrightarrow>
     (case ob_message ob of
        MRequestVote r \<Rightarrow>
          rv_term r = d_term d \<and> rv_candidate r = self c \<and> voted_for d = Some (self c) \<and>
          rv_last_index r = last_index d \<and> rv_last_term r = last_term d
      | MVoteReply r \<Rightarrow>
          vr_term r = d_term d \<and> vr_voter r = self c \<and>
          (vr_granted r \<longrightarrow> voted_for d = Some (ob_to ob))
      | MAppendEntries m \<Rightarrow> append_backed c d m
      | MAppendReply r \<Rightarrow>
          ar_term r = d_term d \<and> ar_follower r = self c \<and>
          (ar_success r \<longrightarrow> ar_matched r \<le> last_index d)
      | MSnapshotReply r \<Rightarrow>
          sp_term r = d_term d \<and> sp_follower r = self c \<and>
          (sp_success r \<longrightarrow> sp_index r \<le> last_index d))"

abbreviation emits_ok :: "Config \<Rightarrow> Durable \<Rightarrow> Outbound list \<Rightarrow> bool" where
  "emits_ok c d outs \<equiv> list_all (backed c d) outs"

section \<open>The node invariant\<close>

definition idle_progress :: "PeerProgress \<Rightarrow> bool" where
  "idle_progress g \<longleftrightarrow> in_flight g = None \<and> snapshot_in_flight g = None"

definition progress_ok :: "Config \<Rightarrow> Durable \<Rightarrow> PeerProgress \<Rightarrow> bool" where
  "progress_ok c d g \<longleftrightarrow>
     (\<forall>pb. in_flight g = Some pb \<longrightarrow>
        (\<exists>m. pb_request pb = Some m \<and> append_backed c d m \<and> pb_term pb = d_term d \<and>
           pb_prev pb = ae_prev_index m \<and> pb_count pb = of_nat (length (ae_entries m)) \<and>
           pb_request_id pb = ae_request_id m))"

definition read_ok :: "Config \<Rightarrow> Durable \<Rightarrow> ReadBarrier \<Rightarrow> bool" where
  "read_ok c d r \<longleftrightarrow>
     rb_term r = d_term d \<and> rb_index r \<le> commit d \<and> acknowledgements r \<subseteq> members c"

definition vol_ok :: "Config \<Rightarrow> Durable \<Rightarrow> Volatile \<Rightarrow> bool" where
  "vol_ok c d v \<longleftrightarrow>
     sm_ok (peer_map v) \<and> fst ` set (peer_map v) = set (peers c) \<and> votes v \<subseteq> members c \<and>
     (role v \<noteq> Leader \<longrightarrow> read_barrier v = None \<and> (\<forall>e\<in>set (peer_map v). idle_progress (snd e))) \<and>
     (role v = Follower \<longrightarrow> votes v = {}) \<and>
     (role v \<noteq> Follower \<longrightarrow> voted_for d = Some (self c) \<and> d_term d \<noteq> 0) \<and>
     (role v = Leader \<longrightarrow> quorum c \<le> card (votes v) \<and>
        (\<forall>e\<in>set (peer_map v). progress_ok c d (snd e)) \<and>
        (\<forall>r. read_barrier v = Some r \<longrightarrow> read_ok c d r))"

definition applies_next :: "Durable \<Rightarrow> PendingWrite \<Rightarrow> bool" where
  "applies_next d w \<longleftrightarrow>
     (if apply_after w = []
      then applied (target w) = applied d \<or>
           commit d < snapshot_index (target w) \<and> applied (target w) = snapshot_index (target w)
      else applied (target w) = applied d + 1 \<and> applied d < commit d \<and>
           target w = d\<lparr>applied := applied d + 1\<rparr> \<and>
           apply_after w = [entry_at d (applied d + 1)])"

definition stage_ok :: "Config \<Rightarrow> Durable \<Rightarrow> Volatile \<Rightarrow> PendingWrite \<Rightarrow> bool" where
  "stage_ok c d v w \<longleftrightarrow>
     valid_durable (target w) \<and> durable_le d (target w) \<and> emits_ok c (target w) (after w) \<and>
     applies_next d w \<and>
     (self_vote w \<longrightarrow> role v = Candidate \<and> votes v = {} \<and> d_term d < d_term (target w)) \<and>
     (\<not> self_vote w \<and> role v \<noteq> Follower \<longrightarrow>
        d_term (target w) = d_term d \<and> voted_for (target w) = voted_for d)"

definition current :: "Node \<Rightarrow> Durable" where
  "current s = (case pending s of None \<Rightarrow> durable s | Some w \<Rightarrow> target w)"

definition node_inv :: "Config \<Rightarrow> Node \<Rightarrow> bool" where
  "node_inv c s \<longleftrightarrow>
     valid_durable (durable s) \<and> vol_ok c (current s) (volatile_state s) \<and>
     (\<forall>w. pending s = Some w \<longrightarrow> stage_ok c (durable s) (volatile_state s) w)"

text \<open>What a handler may do to a node without a staged write.\<close>

definition handled :: "Config \<Rightarrow> Node \<Rightarrow> Node \<times> Effects \<Rightarrow> bool" where
  "handled c s r \<longleftrightarrow>
     node_inv c (fst r) \<and> durable (fst r) = durable s \<and> halted (fst r) = halted s \<and>
     emits_ok c (durable s) (send_now (snd r)) \<and> ef_apply (snd r) = [] \<and> \<not> halt (snd r) \<and>
     (case pending (fst r) of
        None \<Rightarrow> persist (snd r) = None
      | Some w \<Rightarrow> (\<exists>k. persist (snd r) =
                    Some \<lparr>pr_token = pw_token w, pr_target = target w, pr_kind = k\<rparr>))"

definition ready :: "Config \<Rightarrow> Node \<Rightarrow> bool" where
  "ready c s \<longleftrightarrow>
     config_ok c \<and> valid_durable (durable s) \<and> pending s = None \<and>
     vol_ok c (durable s) (volatile_state s)"

lemma node_inv_quiet:
  "pending s = None \<Longrightarrow> node_inv c s \<longleftrightarrow> valid_durable (durable s) \<and> vol_ok c (durable s) (volatile_state s)"
  by (simp add: node_inv_def current_def)

lemma handled_quiet:
  assumes "ready c s" "durable s' = durable s" "halted s' = halted s" "pending s' = None"
    and "vol_ok c (durable s) (volatile_state s')" "emits_ok c (durable s) (send_now eff)"
    and "ef_apply eff = []" "\<not> halt eff" "persist eff = None"
  shows "handled c s (s', eff)"
  using assms by (simp add: handled_def node_inv_quiet ready_def)

lemma handled_same: "ready c s \<Longrightarrow> handled c s (s, no_effects)"
  by (rule handled_quiet) (simp_all add: ready_def)

lemma handled_if:
  "(P \<Longrightarrow> handled c s x) \<Longrightarrow> (\<not> P \<Longrightarrow> handled c s y) \<Longrightarrow> handled c s (if P then x else y)"
  by simp

lemma handled_send_now:
  "ready c s \<Longrightarrow> backed c (durable s) ob \<Longrightarrow> handled c s (s, no_effects\<lparr>send_now := [ob]\<rparr>)"
  by (rule handled_quiet) (simp_all add: ready_def)

lemma handled_write:
  assumes "ready c s" "durable s' = durable s" "halted s' = halted s"
    and "stage_ok c (durable s) (volatile_state s')
      \<lparr>pw_token = next_token s', target = tgt, after = outs, apply_after = applies,
       self_vote = vote, snapshot_after = snaps\<rparr>"
    and "vol_ok c tgt (volatile_state s')" "emits_ok c (durable s) (send_now eff)"
    and "ef_apply eff = []" "\<not> halt eff"
  shows "handled c s (begin_write s' eff tgt outs applies vote snaps kind)"
  using assms by (auto simp: handled_def begin_write_def Let_def node_inv_def current_def ready_def)

section \<open>Stepping down\<close>

lemma step_down_frame [simp]:
  "durable (fst (step_down s eff)) = durable s"
  "halted (fst (step_down s eff)) = halted s"
  "pending (fst (step_down s eff)) = pending s"
  "next_token (fst (step_down s eff)) = next_token s"
  "next_request_id (fst (step_down s eff)) = next_request_id s"
  "send_now (snd (step_down s eff)) = send_now eff"
  "ef_apply (snd (step_down s eff)) = ef_apply eff"
  "halt (snd (step_down s eff)) = halt eff"
  "persist (snd (step_down s eff)) = persist eff"
  "snapshot_needed (snd (step_down s eff)) = snapshot_needed eff"
  "capacity_exhausted (snd (step_down s eff)) = capacity_exhausted eff"
  "role (volatile_state (fst (step_down s eff))) = Follower"
  "votes (volatile_state (fst (step_down s eff))) = {}"
  by (simp_all add: step_down_def Let_def split: option.splits)

lemma step_down_vol:
  "vol_ok c d (volatile_state s) \<Longrightarrow> vol_ok c d' (volatile_state (fst (step_down s eff)))"
  by (auto simp: vol_ok_def step_down_def Let_def sm_ok_def idle_progress_def image_image o_def
      case_prod_beta)

text \<open>After stepping down any valid extension of the durable state may be staged.\<close>

lemma follower_write:
  assumes "ready c s" "valid_durable tgt" "durable_le (durable s) tgt" "emits_ok c tgt outs"
    and "applied tgt = applied (durable s) \<or>
      commit (durable s) < snapshot_index tgt \<and> applied tgt = snapshot_index tgt"
    and "send_now eff = []" "ef_apply eff = []" "\<not> halt eff"
  shows "handled c s (begin_write (fst (step_down s eff0)) eff tgt outs [] False snaps kind)"
  using assms
  by (intro handled_write) (auto simp: stage_ok_def applies_next_def ready_def intro: step_down_vol)

lemma follower_quiet:
  assumes "ready c s" "emits_ok c (durable s) (send_now eff)" "ef_apply eff = []" "\<not> halt eff"
    and "persist eff = None"
  shows "handled c s (fst (step_down s eff0), eff)"
  using assms by (intro handled_quiet) (auto simp: ready_def intro: step_down_vol)

lemma follower_write_or_reply:
  assumes "ready c s" "valid_durable tgt" "durable_le (durable s) tgt" "backed c tgt reply"
    and "applied tgt = applied (durable s) \<or>
      commit (durable s) < snapshot_index tgt \<and> applied tgt = snapshot_index tgt"
    and "send_now eff = []" "ef_apply eff = []" "\<not> halt eff" "persist eff = None"
  shows "handled c s (write_or_reply (fst (step_down s eff0)) eff tgt reply kind)"
  using assms follower_write [OF assms(1-3), of "[reply]" eff eff0 "[]" kind]
    follower_quiet [OF assms(1), of "eff\<lparr>send_now := [reply]\<rparr>" eff0]
  by (auto simp: write_or_reply_def)

lemma raise_term_handled:
  assumes "ready c s" "d_term (durable s) < t"
  shows "handled c s (raise_term s t)"
  using assms unfolding raise_term_def Let_def split_beta
  by (intro follower_write)
    (auto simp: ready_def intro: durable_le_raise_term valid_raise_term)

section \<open>Handlers that only write or reply\<close>

lemma adopt_term_frame [simp]:
  "d_log (adopt_term d t) = d_log d" "commit (adopt_term d t) = commit d"
  "applied (adopt_term d t) = applied d" "snapshot_index (adopt_term d t) = snapshot_index d"
  "snapshot_term (adopt_term d t) = snapshot_term d" "last_index (adopt_term d t) = last_index d"
  "term_at (adopt_term d t) i = term_at d i" "entry_at (adopt_term d t) i = entry_at d i"
  "last_term (adopt_term d t) = last_term d" "d_term (adopt_term d t) = max (d_term d) t"
  by (auto simp: adopt_term_def last_index_def term_at_def entry_at_def last_term_def max_def)

lemma adopt_term_restore [simp]:
  "(adopt_term d t)\<lparr>d_log := d_log d, commit := commit d\<rparr> = adopt_term d t"
  by simp

text \<open>A leader's own writes keep term and vote and only extend or compact its log.\<close>

definition leader_ext :: "Durable \<Rightarrow> Durable \<Rightarrow> bool" where
  "leader_ext d d' \<longleftrightarrow>
     d_term d' = d_term d \<and> voted_for d' = voted_for d \<and> commit d \<le> commit d' \<and>
     last_index d \<le> last_index d' \<and> snapshot_index d \<le> snapshot_index d' \<and>
     (\<forall>i. snapshot_index d' < i \<and> i \<le> last_index d \<longrightarrow> entry_at d' i = entry_at d i)"

lemma less_Suc_le_u64:
  fixes a b :: u64
  assumes "a < b"
  shows "a < a + 1" "a + 1 \<le> b"
proof -
  have "a \<noteq> max_u64" using assms by (metis max_word_max leD)
  then have "unat (a + 1) = unat a + 1" by (rule unat_Suc_exact)
  then show "a < a + 1" "a + 1 \<le> b" using assms by (auto simp: word_less_nat_alt word_le_nat_alt)
qed

lemma append_backed_mono:
  assumes "append_backed c d m" "leader_ext d d'"
  shows "append_backed c d' m"
proof -
  have "ae_prev_index m < last_index d' \<and>
      (snapshot_index d' \<le> ae_prev_index m \<longrightarrow> e = entry_at d' (ae_prev_index m + 1))"
    if "e \<in> set (ae_entries m)" for e
  proof -
    have *: "ae_prev_index m < last_index d"
      "snapshot_index d \<le> ae_prev_index m \<longrightarrow> e = entry_at d (ae_prev_index m + 1)"
      using assms(1) that by (auto simp: append_backed_def)
    have "entry_at d' (ae_prev_index m + 1) = entry_at d (ae_prev_index m + 1)"
      if "snapshot_index d' \<le> ae_prev_index m"
      using assms(2) less_Suc_le_u64 [OF *(1)] order.strict_trans1 [OF that]
      by (simp add: leader_ext_def)
    then show ?thesis
      using * assms(2) by (auto simp: leader_ext_def)
  qed
  then show ?thesis using assms by (auto simp: append_backed_def leader_ext_def)
qed

lemma vol_ok_mono:
  assumes "vol_ok c d v" "leader_ext d d'"
  shows "vol_ok c d' v"
proof -
  have "d_term d' = d_term d" using assms(2) by (simp add: leader_ext_def)
  then have "progress_ok c d' g" if "progress_ok c d g" for g
    using that append_backed_mono [OF _ assms(2)] by (cases "in_flight g") (auto simp: progress_ok_def)
  moreover have "read_ok c d' r" if "read_ok c d r" for r
    using that assms(2) by (auto simp: read_ok_def leader_ext_def)
  ultimately show ?thesis using assms by (auto simp: vol_ok_def leader_ext_def)
qed

lemma leader_write:
  assumes "ready c s" "valid_durable tgt" "durable_le (durable s) tgt" "leader_ext (durable s) tgt"
    and "applies_next (durable s) \<lparr>pw_token = next_token s', target = tgt, after = outs,
      apply_after = applies, self_vote = False, snapshot_after = snaps\<rparr>"
    and "durable s' = durable s" "halted s' = halted s" "vol_ok c tgt (volatile_state s')"
    and "emits_ok c tgt outs"
  shows "handled c s (begin_write s' no_effects tgt outs applies False snaps kind)"
  using assms
  by (intro handled_write) (auto simp: stage_ok_def leader_ext_def)

lemma compact_handled:
  assumes "ready c s"
  shows "handled c s (on_compact_committed s)"
proof -
  let ?d = "durable s"
  have valid: "valid_durable ?d" using assms by (simp add: ready_def)
  show ?thesis
  proof (cases "applied ?d \<noteq> commit ?d \<or> commit ?d = snapshot_index ?d \<or> term_at ?d (commit ?d) = None")
    case True
    then show ?thesis using handled_same [OF assms]
      by (auto simp: on_compact_committed_def Let_def)
  next
    case False
    then obtain t where t: "term_at ?d (commit ?d) = Some t" and eq: "applied ?d = commit ?d"
      and ne: "commit ?d \<noteq> snapshot_index ?d" by auto
    let ?t = "?d\<lparr>snapshot_index := commit ?d, snapshot_term := t,
      d_log := drop (unat (commit ?d - snapshot_index ?d)) (d_log ?d)\<rparr>"
    have t_eq: "?t = ?d\<lparr>snapshot_index := commit ?d, snapshot_term := t,
        d_log := drop (unat (commit ?d - snapshot_index ?d)) (d_log ?d),
        commit := commit ?d, applied := applied ?d\<rparr>"
      by simp
    have "snapshot_index ?d < commit ?d"
      using ne valid_durable_bounds(4) [OF valid] by simp
    then have "commit ?d \<noteq> 0" by auto
    have "t \<noteq> 0" by (rule term_at_nonzero [OF valid t \<open>snapshot_index ?d < commit ?d\<close>])
    have v: "valid_durable ?t"
      by (subst t_eq, intro valid_cut)
        (use valid t eq \<open>commit ?d \<noteq> 0\<close> \<open>t \<noteq> 0\<close> valid_durable_bounds(3) [OF valid] in simp_all)
    have le: "durable_le ?d ?t"
      by (subst t_eq, intro durable_le_cut) (use valid t eq in simp_all)
    have "last_index ?t = last_index ?d" by (subst t_eq) (rule last_index_cut [OF valid t])
    then have ext: "leader_ext ?d ?t"
      using cut_term_at(2) [where x = "\<lambda>_. t" and m = "commit ?d" and a = "applied ?d", OF valid t]
        valid_durable_bounds(4) [OF valid]
      by (auto simp: leader_ext_def)
    have "vol_ok c ?t (volatile_state s)"
      using assms ext by (auto simp: ready_def intro: vol_ok_mono)
    then show ?thesis
      using leader_write [OF assms v le ext, of s "[]" "[]" "[]" LocalCompaction] t eq ne
      by (simp add: on_compact_committed_def Let_def applies_next_def)
  qed
qed

lemma recv_snapshot_handled:
  assumes "ready c s"
  shows "handled c s (on_recv_snapshot c s m)"
proof -
  let ?d = "durable s" and ?t = "adopt_term (durable s) (sr_term m)"
  let ?i = "install_snapshot ?t (sr_index m) (sr_snapshot_term m)"
  have valid: "valid_durable ?d" using assms by (simp add: ready_def)
  have adopt: "valid_durable ?t" "durable_le ?d ?t"
    using valid by (auto intro: durable_intros)
  have install: "valid_durable ?i" "durable_le ?d ?i"
    if "sr_index m \<noteq> 0" "sr_index m \<noteq> max_u64" "sr_snapshot_term m \<noteq> 0"
      "sr_snapshot_term m \<le> sr_term m" "commit ?d < sr_index m"
    using that adopt durable_le_trans [OF adopt(2) durable_le_install_snapshot [OF adopt(1)]]
    by (auto intro!: valid_install_snapshot simp: le_max_iff_disj)
  have frame: "last_index ?i = sr_index m + of_nat (length (d_log ?i))" "applied ?i = sr_index m"
    "snapshot_index ?i = sr_index m" "d_term ?i = d_term ?t"
    by (simp_all add: install_snapshot_def last_index_def)
  have reached: "sr_index m \<le> last_index ?t" if "term_at ?t (sr_index m) = Some x" for x
    using term_at_Some_range [OF adopt(1) that] by simp
  have below: "sr_index m \<le> last_index ?i" if "valid_durable ?i"
    using valid_durable_bounds(7) [OF that] frame(3) by simp
  note rules = handled_if handled_same handled_send_now follower_write follower_quiet
    follower_write_or_reply assms
  show ?thesis
  proof (cases "commit ?d < sr_index m")
    case True
    show ?thesis
      unfolding on_recv_snapshot_def Let_def split_beta
      by (intro rules) (use adopt install frame below True in
          \<open>auto simp: backed_def not_less intro: adopt\<close>)
  next
    case False
    show ?thesis
      unfolding on_recv_snapshot_def Let_def split_beta
      by (intro rules) (use adopt reached False in \<open>auto simp: backed_def not_less\<close>)
  qed
qed

lemma vol_ok_follower: "vol_ok c d v \<Longrightarrow> role v = Follower \<Longrightarrow> vol_ok c d' v"
  by (simp add: vol_ok_def)

lemma unchanged_role_write_or_reply:
  assumes "ready c s" "tgt = durable s \<or> role (volatile_state s) = Follower"
    and "valid_durable tgt" "durable_le (durable s) tgt" "backed c tgt reply"
    and "applied tgt = applied (durable s)"
  shows "handled c s (write_or_reply s no_effects tgt reply kind)"
proof (cases "tgt = durable s")
  case True
  then show ?thesis
    using assms handled_send_now [of c s reply] by (simp add: write_or_reply_def)
next
  case False
  then show ?thesis
    using assms vol_ok_follower [of c "durable s" "volatile_state s" tgt]
    by (auto simp: write_or_reply_def stage_ok_def applies_next_def ready_def intro!: handled_write)
qed

lemma known_peer_iff:
  "vol_ok c d (volatile_state s) \<Longrightarrow> known_peer s p \<longleftrightarrow> p \<in> set (peers c)"
  by (simp add: known_peer_def map_of_eq_None_iff vol_ok_def)

lemma request_vote_handled:
  assumes "ready c s"
  shows "handled c s (on_request_vote c s m)"
proof -
  let ?d = "durable s" and ?t = "adopt_term (durable s) (rv_term m)"
  have valid: "valid_durable ?d" and vol: "vol_ok c ?d (volatile_state s)" and cfg: "config_ok c"
    using assms by (simp_all add: ready_def)
  have peer: "rv_candidate m \<noteq> self c" if "known_peer s (rv_candidate m)"
    using that cfg by (auto simp: known_peer_iff [OF vol] config_ok_def)
  have vote: "valid_durable (?t\<lparr>voted_for := v\<rparr>)" "voted_for ?t = None \<or> voted_for ?t = v \<Longrightarrow>
      durable_le ?d (?t\<lparr>voted_for := v\<rparr>)" for v
    using valid durable_le_trans [OF durable_le_adopt_term durable_le_set_vote]
    by (auto intro: durable_intros)
  have own: "role (volatile_state s) = Follower" if "rv_term m = d_term ?d"
      "known_peer s (rv_candidate m)" "voted_for ?d = None \<or> voted_for ?d = Some (rv_candidate m)"
    using that(3) vol peer [OF that(2)] by (auto simp: vol_ok_def)
  note adopt = valid_adopt_term [OF valid] durable_le_adopt_term [of ?d]
  note rules = handled_if handled_same handled_send_now assms
  show ?thesis
  proof (cases "d_term ?d < rv_term m")
    case True
    show ?thesis
      unfolding on_request_vote_def Let_def split_beta
      by (intro rules) (use True adopt vote in
          \<open>auto simp: backed_def intro!: follower_write_or_reply assms\<close>)
  next
    case False
    then have t: "?t = ?d" by (simp add: adopt_term_def)
    show ?thesis
      unfolding on_request_vote_def Let_def split_beta
      by (intro rules) (use False valid vote own in
          \<open>auto simp: backed_def t not_less intro!: unchanged_role_write_or_reply assms\<close>)
  qed
qed

lemma election_timeout_handled:
  assumes "ready c s"
  shows "handled c s (on_election_timeout c s)"
proof -
  let ?d = "durable s"
  let ?t = "?d\<lparr>d_term := d_term ?d + 1, voted_for := Some (self c)\<rparr>"
  let ?s = "fst (step_down s no_effects)"
  let ?v = "(volatile_state ?s)\<lparr>role := Candidate\<rparr>"
  have valid: "valid_durable ?d" and vol: "vol_ok c ?d (volatile_state s)"
    using assms by (simp_all add: ready_def)
  have requests: "emits_ok c ?t (vote_requests c ?t rid ps)" for rid ps
    by (induction ps arbitrary: rid) (auto simp: backed_def)
  have grow: "d_term ?d < d_term ?d + 1" if "d_term ?d \<noteq> max_u64"
    using that by (simp add: word_less_nat_alt unat_Suc_exact)
  then have "vol_ok c ?t ?v" if "d_term ?d \<noteq> max_u64"
    using that step_down_vol [OF vol, of ?t no_effects] by (auto simp: vol_ok_def)
  with grow show ?thesis
    unfolding on_election_timeout_def Let_def split_beta
    by (intro handled_if handled_same assms handled_write)
      (use valid requests in \<open>auto simp: stage_ok_def applies_next_def
        intro: valid_raise_term durable_le_raise_term order.strict_implies_order\<close>)
qed

lemma apply_committed_handled:
  assumes "ready c s"
  shows "handled c s (on_apply_committed s)"
proof -
  let ?d = "durable s"
  let ?t = "?d\<lparr>applied := applied ?d + 1\<rparr>"
  have valid: "valid_durable ?d" and vol: "vol_ok c ?d (volatile_state s)"
    using assms by (simp_all add: ready_def)
  have ext: "leader_ext ?d ?t" by (simp add: leader_ext_def last_index_def entry_at_def)
  have "vol_ok c ?t (volatile_state s)" by (rule vol_ok_mono [OF vol ext])
  moreover have "entry_at ?t i = entry_at ?d i" for i by (simp add: entry_at_def)
  ultimately show ?thesis
    unfolding on_apply_committed_def Let_def
    by (intro handled_if handled_same assms leader_write)
      (use valid ext in \<open>auto simp: applies_next_def intro: valid_apply_next durable_le_apply_next\<close>)
qed

section \<open>Append requests\<close>

text \<open>The durable state an append request stages, by outcome.\<close>

lemma append_target:
  fixes d :: Durable and m :: AppendEntries
  defines "t \<equiv> adopt_term d (ae_term m)"
  defines "covered \<equiv> ae_prev_index m + of_nat (length (ae_entries m))"
  assumes valid: "valid_durable d" and fits: "append_fits t m"
    and out: "append_entries t (ae_prev_index m + 1) (ae_entries m) = (t1, None)"
  defines "t2 \<equiv> t1\<lparr>commit := max (commit t1) (min (ae_leader_commit m) covered)\<rparr>"
  shows "valid_durable t2" "durable_le d t2" "covered \<le> last_index t2" "applied t2 = applied d"
    "d_term t2 = d_term t" "snapshot_index t2 = snapshot_index d"
proof -
  have vt: "valid_durable t" unfolding t_def using valid by (rule valid_adopt_term)
  note merged = append_entries_fits(2) [OF vt fits out refl]
  have t1: "valid_durable t1" "durable_le t t1" "covered \<le> last_index t1"
    using merged by (simp_all add: covered_def)
  have same: "t1 = t\<lparr>d_log := d_log t1\<rparr>" using merged by blast
  have "max (commit t1) (min (ae_leader_commit m) covered) \<le> last_index t1"
    using t1(3) valid_durable_bounds(3) [OF t1(1)] by (auto intro: min.coboundedI2)
  then show "valid_durable t2" unfolding t2_def using t1(1) by (intro valid_set_commit) simp_all
  show "durable_le d t2"
    unfolding t2_def
    by (rule durable_le_trans [OF durable_le_adopt_term [of d "ae_term m", folded t_def]])
      (rule durable_le_trans [OF t1(2)], rule durable_le_set_commit, simp)
  show "covered \<le> last_index t2" using t1(3) by (simp add: t2_def last_index_def)
  have "applied t1 = applied t" "d_term t1 = d_term t" "snapshot_index t1 = snapshot_index t"
    by (subst same, simp)+
  then show "applied t2 = applied d" "d_term t2 = d_term t" "snapshot_index t2 = snapshot_index d"
    by (simp_all add: t2_def t_def)
qed

lemma append_backed_reply:
  "d_term t = x \<Longrightarrow> matched \<le> last_index t \<Longrightarrow> backed c t (append_reply c m x True h matched)"
  "d_term t = x \<Longrightarrow> backed c t (append_reply c m x False h y)"
  by (simp_all add: backed_def append_reply_def)

lemma recv_append_handled:
  assumes "ready c s"
  shows "handled c s (on_recv_append c s m)"
proof -
  let ?d = "durable s" and ?t = "adopt_term (durable s) (ae_term m)" and ?p = "ae_prev_index m"
  let ?c = "?p + of_nat (length (ae_entries m))"
  have valid: "valid_durable ?d" using assms by (simp add: ready_def)
  note adopt = valid_adopt_term [OF valid, of "ae_term m"] durable_le_adopt_term [of ?d "ae_term m"]
  show ?thesis
  proof (cases "known_peer s (ae_leader m) \<and> append_shape_ok m \<and> \<not> ae_term m < d_term ?d")
    case False
    then show ?thesis
      unfolding on_recv_append_def
      by (intro handled_if handled_same handled_send_now assms)
        (auto simp: append_backed_reply)
  next
    case accepted: True
    let ?ok = "term_at ?t ?p = Some (ae_prev_term m)"
    let ?full = "of_nat kMaximumEntries < ?c - snapshot_index ?t"
    consider (reject) "\<not> ?ok" | (full) "?ok" "?full" | (merge) "append_fits ?t m"
      using accepted by (auto simp: append_fits_def)
    then show ?thesis
    proof cases
      case reject
      then show ?thesis
        using accepted adopt assms
        unfolding on_recv_append_def Let_def split_beta
        by (auto intro!: follower_write_or_reply append_backed_reply)
    next
      case full
      let ?n = "max (commit ?t) (min (ae_leader_commit m) ?p)"
      have "?n \<le> last_index ?t"
        using term_at_Some_range [OF adopt(1) full(1)] valid_durable_bounds(3) [OF adopt(1)]
        by (auto intro: min.coboundedI2)
      then have "valid_durable (?t\<lparr>commit := ?n\<rparr>)" "durable_le ?d (?t\<lparr>commit := ?n\<rparr>)"
        using adopt(1) durable_le_trans [OF adopt(2) durable_le_set_commit, of ?n]
        by (auto intro!: valid_set_commit)
      then show ?thesis
        using accepted full assms
        unfolding on_recv_append_def Let_def split_beta
        by (auto intro!: follower_write_or_reply append_backed_reply)
    next
      case merge
      then have ok: "?ok" "\<not> ?full" by (simp_all add: append_fits_def)
      obtain t1 r where out: "append_entries ?t (?p + 1) (ae_entries m) = (t1, r)" by fastforce
      show ?thesis
      proof (cases r)
        case None
        note tgt = append_target [OF valid merge out [unfolded None]]
        show ?thesis
          using accepted ok assms tgt(1-4)
          unfolding on_recv_append_def Let_def split_beta
          by (simp add: out None) (auto intro!: follower_write_or_reply append_backed_reply)
      next
        case (Some h)
        then have t1: "t1 = ?t" using append_entries_fits(1) [OF adopt(1) merge out] by simp
        then show ?thesis
          using accepted ok adopt assms
          unfolding on_recv_append_def Let_def split_beta
          by (simp add: out t1 Some) (auto intro!: follower_write_or_reply append_backed_reply)
      qed
    qed
  qed
qed

section \<open>Leader traffic\<close>

lemma set_sm_modify:
  "e \<in> set (sm_modify k f m) \<Longrightarrow> e \<in> set m \<or> (\<exists>g. (k, g) \<in> set m \<and> e = (k, f g))"
  by (auto simp: sm_modify_def split: if_splits)

lemma set_progress_frame [simp]:
  "durable (set_progress p f s) = durable s" "halted (set_progress p f s) = halted s"
  "pending (set_progress p f s) = pending s" "next_token (set_progress p f s) = next_token s"
  "next_request_id (set_progress p f s) = next_request_id s"
  "role (volatile_state (set_progress p f s)) = role (volatile_state s)"
  "votes (volatile_state (set_progress p f s)) = votes (volatile_state s)"
  "read_barrier (volatile_state (set_progress p f s)) = read_barrier (volatile_state s)"
  "leadership_epoch (volatile_state (set_progress p f s)) = leadership_epoch (volatile_state s)"
  "peer_map (volatile_state (set_progress p f s)) = sm_modify p f (peer_map (volatile_state s))"
  by (simp_all add: set_progress_def)

lemma set_progress_vol:
  assumes "vol_ok c d (volatile_state s)" "role (volatile_state s) = Leader"
    and "\<And>g. progress_of s p = Some g \<Longrightarrow> progress_ok c d g \<Longrightarrow> progress_ok c d (f g)"
  shows "vol_ok c d (volatile_state (set_progress p f s))"
proof -
  have sorted: "sm_ok (peer_map (volatile_state s))" using assms(1) by (simp add: vol_ok_def)
  have keys: "fst ` set (sm_modify p f (peer_map (volatile_state s))) = fst ` set (peer_map (volatile_state s))"
    by (metis keys_sm_modify list.set_map)
  have "progress_ok c d (snd e)" if "e \<in> set (sm_modify p f (peer_map (volatile_state s)))" for e
    using set_sm_modify [OF that] assms map_of_is_SomeI [OF sm_ok_distinct [OF sorted]]
    by (fastforce simp: vol_ok_def)
  then show ?thesis using assms(1,2) by (simp add: vol_ok_def keys)
qed

definition sends_ok :: "Config \<Rightarrow> Durable \<Rightarrow> Node \<Rightarrow> Node \<times> Outbound list \<times> SnapshotNeeded list \<Rightarrow> bool" where
  "sends_ok c d s r \<longleftrightarrow>
     (case r of (s', out, snapshots) \<Rightarrow>
        vol_ok c d (volatile_state s') \<and> emits_ok c d out \<and>
        durable s' = durable s \<and> halted s' = halted s \<and> pending s' = pending s \<and>
        next_token s' = next_token s \<and> role (volatile_state s') = Leader \<and>
        votes (volatile_state s') = votes (volatile_state s))"

lemma send_append_ok:
  assumes "valid_durable d" "sends_ok c d s0 (s, out, snapshots)"
  shows "sends_ok c d s0 (send_append c s d p out snapshots)"
proof -
  have vol: "vol_ok c d (volatile_state s)" and lead: "role (volatile_state s) = Leader"
    using assms(2) by (simp_all add: sends_ok_def)
  have snap: "vol_ok c d (volatile_state (set_progress p (\<lambda>g. g\<lparr>snapshot_in_flight := Some r\<rparr>)
      (s\<lparr>next_request_id := n\<rparr>)))" for r n
    using vol lead by (intro set_progress_vol) (auto simp: progress_ok_def)
  have backed: "append_backed c d (append_request c d (max 1 n) t rid)" for n t rid
  proof -
    have "max 1 n - 1 < last_index d" if "max 1 n \<le> last_index d"
    proof -
      have "1 \<le> max 1 n" by simp
      then have "unat (max 1 n - 1) = unat (max 1 n) - 1" "1 \<le> unat (max 1 n)"
        by (simp_all only: unat_sub_exact word_le_nat_alt unat_1)
      then show ?thesis using that by (simp add: word_less_nat_alt word_le_nat_alt)
    qed
    then show ?thesis by (simp add: append_backed_def append_request_def)
  qed
  have probe: "vol_ok c d (volatile_state (set_progress p (\<lambda>g. g\<lparr>in_flight := Some
      (probe_of (append_request c d (max 1 n) t rid))\<rparr>) (s\<lparr>next_request_id := k\<rparr>)))" for n t rid k
    using vol lead
    by (intro set_progress_vol)
      (simp_all add: progress_ok_def probe_of_def backed, simp add: append_request_def)
  have barrier: "vol_ok c d (v\<lparr>read_barrier := map_option (\<lambda>r. r\<lparr>probes := f r\<rparr>) (read_barrier v)\<rparr>)"
    if "vol_ok c d v" for v f
    using that by (auto simp: vol_ok_def read_ok_def)
  show ?thesis
  proof (cases "progress_of s p")
    case None
    then show ?thesis using assms(2) by (simp add: send_append_def)
  next
    case (Some g)
    show ?thesis
      using assms(2) snap barrier [OF probe] backed Some
      unfolding send_append_def sends_ok_def Let_def
      by (auto split: option.splits simp: backed_def)
  qed
qed

lemma send_appends_ok:
  assumes "valid_durable d"
  shows "sends_ok c d s0 r \<Longrightarrow> sends_ok c d s0 (send_appends c d ps r)"
proof (induction ps arbitrary: r)
  case (Cons p ps)
  then show ?case by (cases r) (simp add: send_append_ok [OF assms])
qed simp

lemma leader_sends_ok:
  assumes "valid_durable (durable s0)"
  shows "sends_ok c (durable s0) s0 r \<Longrightarrow> sends_ok c (durable s0) s0 (leader_sends c ps r)"
proof (induction ps arbitrary: r)
  case (Cons p ps)
  obtain s out snapshots where r: "r = (s, out, snapshots)" by (cases r)
  let ?s = "set_progress p (\<lambda>_. fresh_progress (last_index (durable s) + 1)) s"
  have "sends_ok c (durable s0) s0 (?s, out, snapshots)"
    using Cons.prems set_progress_vol [of c "durable s0" s p]
    by (auto simp: r sends_ok_def progress_ok_def fresh_progress_def)
  moreover have "durable s = durable s0" using Cons.prems by (simp add: r sends_ok_def)
  ultimately show ?case using Cons.IH send_append_ok [OF assms] by (simp add: r)
qed simp

lemma heartbeats_ok:
  assumes "valid_durable (durable s0)"
  shows "sends_ok c (durable s0) s0 r \<Longrightarrow> sends_ok c (durable s0) s0 (heartbeats c ps r)"
proof (induction ps arbitrary: r)
  case (Cons p ps)
  obtain s out snapshots where r: "r = (s, out, snapshots)" by (cases r)
  have dur: "durable s = durable s0" using Cons.prems by (simp add: r sends_ok_def)
  show ?case
  proof (cases "Option.bind (progress_of s p) in_flight")
    case None
    then show ?thesis using Cons send_append_ok [OF assms] by (simp add: r dur)
  next
    case (Some pb)
    then obtain g where "(p, g) \<in> set (peer_map (volatile_state s))" "in_flight g = Some pb"
      by (auto simp: bind_eq_Some_conv dest: map_of_SomeD)
    then have "progress_ok c (durable s0) g"
      using Cons.prems by (auto simp: r sends_ok_def vol_ok_def)
    then obtain m where "pb_request pb = Some m" "append_backed c (durable s0) m"
      using \<open>in_flight g = Some pb\<close> by (auto simp: progress_ok_def)
    then show ?thesis
      using Cons Some by (simp add: r) (simp add: sends_ok_def backed_def)
  qed
qed simp

lemma sends_handled:
  assumes "ready c s" "sends_ok c (durable s) s (s', out, snapshots)"
    and "send_now eff = out" "ef_apply eff = []" "\<not> halt eff" "persist eff = None"
  shows "handled c s (s', eff)"
  using assms by (intro handled_quiet) (auto simp: sends_ok_def ready_def)

lemma heartbeat_handled:
  assumes "ready c s"
  shows "handled c s (on_heartbeat_timeout c s)"
proof (cases "role (volatile_state s) = Leader")
  case True
  then have "sends_ok c (durable s) s (s, [], [])"
    using assms by (simp add: sends_ok_def ready_def)
  moreover have "valid_durable (durable s)" using assms by (simp add: ready_def)
  ultimately show ?thesis
    using heartbeats_ok [of s c "(s, [], [])" "map fst (peer_map (volatile_state s))"] True assms
    by (auto simp: on_heartbeat_timeout_def split: prod.splits intro!: sends_handled)
qed (use handled_same [OF assms] in \<open>simp add: on_heartbeat_timeout_def\<close>)

lemma propose_handled:
  assumes "ready c s"
  shows "handled c s (on_client_propose c s cmd)"
proof -
  let ?d = "durable s" and ?v = "volatile_state s"
  let ?t = "?d\<lparr>d_log := d_log ?d @ [\<lparr>e_term = d_term ?d, command = cmd\<rparr>]\<rparr>"
  have valid: "valid_durable ?d" and vol: "vol_ok c ?d ?v" using assms by (simp_all add: ready_def)
  have full: "handled c s (s, no_effects\<lparr>capacity_exhausted := True\<rparr>)"
    using assms by (intro handled_quiet) (simp_all add: ready_def)
  show ?thesis
  proof (cases "role ?v = Leader \<and> length (d_log ?d) < kMaximumEntries \<and> cmd \<noteq> [] \<and>
      last_index ?d < max_u64 - 1")
    case True
    have "last_term ?d \<le> d_term ?d"
      using valid by (auto simp: last_term_def valid_durable_iff valid_terms_def)
    then have v: "valid_durable ?t"
      using True vol valid by (intro valid_push) (auto simp: vol_ok_def)
    have le: "durable_le ?d ?t" by (rule durable_le_push [OF valid v])
    have last: "unat (last_index ?t) = Suc (unat (last_index ?d))"
      using unat_last_index [OF v] unat_last_index [OF valid] by simp
    have "entry_at ?t i = entry_at ?d i" if "snapshot_index ?d < i" "i \<le> last_index ?d" for i
      using offset_in_log [OF valid that] that(1) by (simp add: entry_at_nth nth_append)
    then have ext: "leader_ext ?d ?t"
      using last by (simp add: leader_ext_def word_le_nat_alt)
    have "sends_ok c ?t s (s, [], [])"
      using True vol_ok_mono [OF vol ext] by (simp add: sends_ok_def)
    then have "sends_ok c ?t s (send_appends c ?t (peers c) (s, [], []))"
      by (rule send_appends_ok [OF v])
    then show ?thesis
      using True leader_write [OF assms v le ext]
      by (auto simp: on_client_propose_def Let_def sends_ok_def applies_next_def split: prod.splits)
  qed (use handled_same [OF assms] full in \<open>auto simp: on_client_propose_def Let_def\<close>)
qed

lemma become_leader_ok:
  assumes "valid_durable (durable s)" "vol_ok c (durable s) (volatile_state s)"
    and "role (volatile_state s) = Candidate" "quorum c \<le> card (votes (volatile_state s))"
    and "emits_ok c (durable s) (send_now eff)"
  shows "sends_ok c (durable s) s
      (fst (become_leader c s eff), send_now (snd (become_leader c s eff)), snaps)"
proof -
  let ?v = "volatile_state s"
  let ?s = "s\<lparr>volatile_state := ?v\<lparr>role := Leader, leadership_epoch := leadership_epoch ?v + 1\<rparr>\<rparr>"
  have "progress_ok c d g" if "idle_progress g" for g d
    using that by (simp add: idle_progress_def progress_ok_def)
  then have "vol_ok c (durable s) (volatile_state ?s)"
    using assms(2-4) by (simp add: vol_ok_def)
  then have "sends_ok c (durable ?s) ?s (?s, send_now eff, snapshot_needed eff)"
    using assms(5) by (simp add: sends_ok_def)
  then have "sends_ok c (durable ?s) ?s
      (leader_sends c (map fst (peer_map ?v)) (?s, send_now eff, snapshot_needed eff))"
    by (rule leader_sends_ok [rotated]) (simp add: assms(1))
  then show "sends_ok c (durable s) s
      (fst (become_leader c s eff), send_now (snd (become_leader c s eff)), snaps)"
    by (simp add: become_leader_def Let_def split_beta sends_ok_def)
qed

lemma become_leader_frame [simp]:
  "persist (snd (become_leader c s eff)) = persist eff"
  "ef_apply (snd (become_leader c s eff)) = ef_apply eff"
  "halt (snd (become_leader c s eff)) = halt eff"
  "read_result (snd (become_leader c s eff)) = read_result eff"
  by (simp_all add: become_leader_def Let_def split_beta)

lemma complete_read_frame [simp]:
  "durable (fst (complete_read c s eff)) = durable s"
  "halted (fst (complete_read c s eff)) = halted s"
  "pending (fst (complete_read c s eff)) = pending s"
  "next_token (fst (complete_read c s eff)) = next_token s"
  "role (volatile_state (fst (complete_read c s eff))) = role (volatile_state s)"
  "votes (volatile_state (fst (complete_read c s eff))) = votes (volatile_state s)"
  "send_now (snd (complete_read c s eff)) = send_now eff"
  "ef_apply (snd (complete_read c s eff)) = ef_apply eff"
  "halt (snd (complete_read c s eff)) = halt eff"
  "persist (snd (complete_read c s eff)) = persist eff"
  by (simp_all add: complete_read_def Let_def split: option.splits)

lemma complete_read_vol:
  "vol_ok c d (volatile_state s) \<Longrightarrow> vol_ok c d (volatile_state (fst (complete_read c' s eff)))"
  by (cases "read_barrier (volatile_state s)") (auto simp: complete_read_def Let_def vol_ok_def)

lemma complete_read_handled:
  assumes "handled c s r"
  shows "handled c s (complete_read c (fst r) (snd r))"
  using assms complete_read_vol [of c "current (fst r)" "fst r"]
  by (auto simp: handled_def node_inv_def current_def stage_ok_def split: option.splits)

lemma add_vote_frame [simp]:
  "durable (add_vote p s) = durable s" "halted (add_vote p s) = halted s"
  "pending (add_vote p s) = pending s" "next_token (add_vote p s) = next_token s"
  "role (volatile_state (add_vote p s)) = role (volatile_state s)"
  "votes (volatile_state (add_vote p s)) = insert p (votes (volatile_state s))"
  "peer_map (volatile_state (add_vote p s)) = peer_map (volatile_state s)"
  by (simp_all add: add_vote_def)

lemma add_vote_vol:
  assumes "vol_ok c d (volatile_state s)" "role (volatile_state s) = Candidate" "p \<in> members c"
  shows "vol_ok c d (volatile_state (add_vote p s))"
  using assms by (simp add: vol_ok_def add_vote_def)

lemma vote_reply_handled:
  assumes "ready c s"
  shows "handled c s (on_vote_reply c s m)"
proof -
  let ?s = "add_vote (vr_voter m) s"
  have valid: "valid_durable (durable s)" and vol: "vol_ok c (durable s) (volatile_state s)"
    and "pending s = None"
    using assms by (simp_all add: ready_def)
  have vol': "vol_ok c (durable s) (volatile_state ?s)"
    if "known_peer s (vr_voter m)" "role (volatile_state s) = Candidate"
    using that vol by (intro add_vote_vol) (auto simp: known_peer_iff)
  have quiet: "handled c s (?s, no_effects)"
    if "known_peer s (vr_voter m)" "role (volatile_state s) = Candidate"
    using assms vol' [OF that] by (intro handled_quiet) (simp_all add: ready_def)
  have lead: "handled c s (become_leader c ?s no_effects)"
    if "known_peer s (vr_voter m)" "role (volatile_state s) = Candidate"
      "quorum c \<le> card (votes (volatile_state ?s))"
    using become_leader_ok [of ?s c no_effects] vol' [OF that(1,2)] valid that assms
    by (subst surjective_pairing, intro handled_quiet) (auto simp: sends_ok_def ready_def)
  show ?thesis
    unfolding on_vote_reply_def Let_def
    by (intro handled_if handled_same raise_term_handled assms lead quiet) auto
qed

lemma snapshot_reply_handled:
  assumes "ready c s"
  shows "handled c s (on_recv_snapshot_reply s m)"
proof (cases "progress_of s (sp_follower m)")
  case None
  then show ?thesis using handled_same [OF assms] by (simp add: on_recv_snapshot_reply_def)
next
  case (Some g)
  have "handled c s (set_progress (sp_follower m) f s, no_effects)"
    if "role (volatile_state s) = Leader" "\<And>g. progress_ok c (durable s) g \<Longrightarrow> progress_ok c (durable s) (f g)"
    for f
    using assms that by (intro handled_quiet) (auto simp: ready_def intro: set_progress_vol)
  then show ?thesis
    unfolding on_recv_snapshot_reply_def Some option.case
    by (intro handled_if raise_term_handled handled_same assms)
      (auto simp: progress_ok_def Let_def split: option.split intro!: handled_if handled_same assms)
qed

end
