(* ===== verification/Raft_Step.thy ===== *)
theory Raft_Step
  imports Raft_Safety
begin

text \<open>
  The remaining handlers and the step lemma that collects them. The theorems about one node that rest on
  it are in \<open>Raft_Node\<close>.
\<close>

section \<open>The commit rule\<close>

definition replicated_on :: "Node \<Rightarrow> u64 \<Rightarrow> nat" where
  "replicated_on s n =
     1 + length (filter (\<lambda>e. n \<le> match_index (snd e)) (peer_map (volatile_state s)))"

definition committable :: "Config \<Rightarrow> Node \<Rightarrow> u64 \<Rightarrow> bool" where
  "committable c s n \<longleftrightarrow>
     commit (durable s) < n \<and> n \<le> last_index (durable s) \<and>
     e_term (entry_at (durable s) n) = d_term (durable s) \<and> quorum c \<le> replicated_on s n"

lemma unat_pred:
  assumes "(a :: u64) < n"
  shows "unat (n - 1) = unat n - 1" "0 < unat n"
proof -
  have "1 \<le> n" using assms by (simp add: word_le_nat_alt word_less_nat_alt)
  then show "unat (n - 1) = unat n - 1" by (simp add: unat_sub_exact)
  show "0 < unat n" using assms by (simp add: word_less_nat_alt)
qed

lemma highest_from_spec:
  assumes "n \<le> last_index (durable s)"
  shows "(highest_from c s n = commit (durable s) \<or> committable c s (highest_from c s n)) \<and>
    (\<forall>k. highest_from c s n < k \<and> k \<le> n \<longrightarrow> \<not> committable c s k)"
  using assms
proof (induction c s n rule: highest_from.induct)
  case (1 c s n)
  let ?d = "durable s"
  show ?case
  proof (cases "commit ?d < n")
    case False
    then have "highest_from c s n = commit ?d" by (subst highest_from.simps) (simp add: Let_def)
    with False show ?thesis by (auto simp: committable_def)
  next
    case less: True
    show ?thesis
    proof (cases "committable c s n")
      case True
      then have "highest_from c s n = n"
        using less by (subst highest_from.simps) (simp add: committable_def replicated_on_def)
      with True show ?thesis by auto
    next
      case False
      have "n - 1 \<le> last_index ?d"
        using 1(3) by (simp add: word_le_nat_alt unat_pred [OF less])
      moreover have "\<not> quorum c \<le> 1 + length (filter (\<lambda>e. n \<le> match_index (snd e))
          (peer_map (volatile_state s)))" if "e_term (entry_at ?d n) = d_term ?d"
        using False less that 1(3) by (simp add: committable_def replicated_on_def)
      ultimately have "highest_from c s n = highest_from c s (n - 1)"
        and IH: "(highest_from c s (n - 1) = commit ?d \<or> committable c s (highest_from c s (n - 1))) \<and>
          (\<forall>k. highest_from c s (n - 1) < k \<and> k \<le> n - 1 \<longrightarrow> \<not> committable c s k)"
        using 1(1,2) less by (auto simp: highest_from.simps [of c s n] Let_def)
      moreover have "k \<le> n - 1" if "k \<le> n" "k \<noteq> n" for k
        using that unat_pred [OF less] by (simp add: word_le_nat_alt word_unat_eq_iff)
      ultimately show ?thesis using False by metis
    qed
  qed
qed

lemma advance_commit_handled:
  assumes "ready c s"
  shows "handled c s (on_advance_commit c s)"
proof -
  let ?d = "durable s" and ?n = "highest_committable c s"
  have valid: "valid_durable ?d" and vol: "vol_ok c ?d (volatile_state s)"
    using assms by (simp_all add: ready_def)
  have "?n \<le> last_index ?d"
    using highest_from_spec [of "last_index ?d" s c] valid_durable_bounds(3) [OF valid]
    by (auto simp: highest_committable_def committable_def)
  moreover have "leader_ext ?d (?d\<lparr>commit := ?n\<rparr>)" if "commit ?d < ?n"
    using that by (simp add: leader_ext_def last_index_def entry_at_def)
  ultimately show ?thesis
    unfolding on_advance_commit_def Let_def
    by (intro handled_if handled_same assms leader_write)
      (use valid vol in \<open>auto simp: applies_next_def intro: valid_set_commit durable_le_set_commit
        vol_ok_mono\<close>)
qed

section \<open>Append replies and reads\<close>

lemma vol_ok_set_read:
  assumes "vol_ok c d v" "\<forall>r. rb = Some r \<longrightarrow> role v = Leader \<and> read_ok c d r"
  shows "vol_ok c d (v\<lparr>read_barrier := rb\<rparr>)"
proof -
  have "rb = None" if "role v \<noteq> Leader" using that assms(2) by (cases rb) simp_all
  then show ?thesis using assms unfolding vol_ok_def by simp
qed

lemma node_inv_drop_read:
  "node_inv c s \<Longrightarrow> node_inv c (s\<lparr>volatile_state := (volatile_state s)\<lparr>read_barrier := None\<rparr>\<rparr>)"
  by (cases "pending s") (simp_all add: node_inv_def current_def stage_ok_def vol_ok_set_read)

lemma append_reply_handled:
  assumes "ready c s"
  shows "handled c s (on_append_reply c s m)"
proof (cases "progress_of s (ar_follower m)")
  case None
  then show ?thesis using handled_same [OF assms] by (simp add: on_append_reply_def Let_def)
next
  case (Some g)
  let ?p = "ar_follower m" and ?d = "durable s"
  have vol: "vol_ok c ?d (volatile_state s)" using assms by (simp add: ready_def)
  have "known_peer s ?p" using Some by (simp add: known_peer_def)
  then have peer: "?p \<in> members c" by (simp add: known_peer_iff [OF vol])
  have ack: "vol_ok c ?d (volatile_state (acknowledge_read ?p rid b s))" for rid b
  proof -
    have "role (volatile_state s) = Leader \<and> read_ok c ?d r" if "read_barrier (volatile_state s) = Some r" for r
      using vol that by (cases "role (volatile_state s) = Leader") (simp_all add: vol_ok_def)
    then show ?thesis
      using vol peer by (auto simp: acknowledge_read_def Let_def read_ok_def intro!: vol_ok_set_read)
  qed
  have settle: "progress_ok c ?d (settle_probe m pb x)" for pb x
    by (simp add: progress_ok_def settle_probe_def Let_def)
  have quiet: "handled c s (set_progress ?p (settle_probe m pb)
      (if ar_success m then acknowledge_read ?p rid b s else s), no_effects)"
    if "role (volatile_state s) = Leader" for pb rid b
    using assms that ack vol
    by (intro handled_quiet)
      (auto simp: ready_def acknowledge_read_def Let_def intro!: set_progress_vol settle)
  note finished = complete_read_handled [OF quiet, simplified]
    complete_read_handled [OF handled_same [OF assms], simplified]
    complete_read_handled [OF raise_term_handled [OF assms]]
  show ?thesis
    using finished handled_same [OF assms]
    unfolding on_append_reply_def Some Let_def option.case split_beta
    by (auto split: option.split intro!: handled_if)
qed

lemma begin_read_handled:
  assumes "ready c s"
  shows "handled c s (on_begin_read c s ctx)"
proof -
  let ?d = "durable s" and ?v = "volatile_state s"
  let ?r = "\<lparr>rb_context = ctx, rb_term = d_term ?d, rb_index = commit ?d,
      acknowledgements = {self c}, probes = []\<rparr>"
  let ?s = "s\<lparr>volatile_state := ?v\<lparr>read_barrier := Some ?r\<rparr>\<rparr>"
  let ?sent = "send_appends c ?d (peers c) (?s, [], [])"
  have valid: "valid_durable ?d" and vol: "vol_ok c ?d ?v" using assms by (simp_all add: ready_def)
  have refuse: "handled c s (s, no_effects\<lparr>read_result := r\<rparr>)" for r
    using assms by (intro handled_quiet) (simp_all add: ready_def)
  have "handled c s (fst ?sent, no_effects\<lparr>send_now := fst (snd ?sent), snapshot_needed := snd (snd ?sent)\<rparr>)"
    if "role ?v = Leader"
  proof (rule sends_handled [OF assms])
    have "sends_ok c ?d s (?s, [], [])"
      using that vol by (auto simp: sends_ok_def vol_ok_def read_ok_def)
    then show "sends_ok c ?d s (fst ?sent, fst (snd ?sent), snd (snd ?sent))"
      using send_appends_ok [OF valid] by simp
  qed simp_all
  then show ?thesis
    unfolding on_begin_read_def Let_def split_beta
    by (intro handled_if refuse complete_read_handled [where r = "(x, y)" for x y, simplified])
      (use refuse in auto)
qed

section \<open>The step lemma\<close>

lemma dispatch_handled:
  assumes "ready c s"
  shows "handled c s (dispatch c s i)"
  by (cases i)
    (simp_all add: dispatch_def handled_same compact_handled recv_snapshot_handled
      snapshot_reply_handled election_timeout_handled request_vote_handled vote_reply_handled
      propose_handled heartbeat_handled recv_append_handled append_reply_handled
      advance_commit_handled apply_committed_handled assms)

definition step_ok :: "Config \<Rightarrow> Node \<Rightarrow> Node \<times> Effects \<Rightarrow> bool" where
  "step_ok c s r \<longleftrightarrow>
     (let s' = fst r; eff = snd r; d = durable s; d' = durable s'
      in node_inv c s' \<and> durable_le d d' \<and> emits_ok c d' (send_now eff) \<and>
         (if ef_apply eff = []
          then applied d' = applied d \<or>
               commit d < snapshot_index d' \<and> applied d' = snapshot_index d'
          else applied d' = applied d + 1 \<and> applied d < commit d \<and>
               snapshot_index d' = snapshot_index d \<and>
               ef_apply eff = [entry_at d' (applied d')]) \<and>
         (\<forall>p. persist eff = Some p \<longrightarrow>
            (\<exists>w. pending s' = Some w \<and> pr_token p = pw_token w \<and> pr_target p = target w)))"

lemma handled_step_ok: "handled c s r \<Longrightarrow> step_ok c s r"
  by (auto simp: step_ok_def handled_def Let_def split: option.splits)

lemma same_step_ok: "node_inv c s \<Longrightarrow> step_ok c s (s, no_effects\<lparr>read_result := r\<rparr>)"
  by (simp add: step_ok_def Let_def)

lemma quiet_step_ok:
  assumes "node_inv c s'" "durable s' = durable s" "send_now eff = []" "ef_apply eff = []"
    and "persist eff = None"
  shows "step_ok c s (s', eff)"
  using assms by (simp add: step_ok_def Let_def)

lemma initial_peer_map:
  assumes "sm_ok m" "\<forall>e\<in>set m. snd e = g"
  shows "sm_ok (fold (\<lambda>p m. sm_insert p g m) ps m) \<and>
    fst ` set (fold (\<lambda>p m. sm_insert p g m) ps m) = set ps \<union> fst ` set m \<and>
    (\<forall>e\<in>set (fold (\<lambda>p m. sm_insert p g m) ps m). snd e = g)"
  using assms
proof (induction ps arbitrary: m)
  case (Cons p ps)
  have "fst ` set (sm_insert p g m) = insert p (fst ` set m)"
    using map_of_eq_None_iff [of m p]
    by (cases "map_of m p") (simp_all add: sm_insert_def fst_set_sm_assign insert_absorb)
  moreover have "\<forall>e\<in>set (sm_insert p g m). snd e = g"
    using Cons.prems(2) set_sm_assign_sub [of p g m] by (auto simp: sm_insert_def split: option.splits)
  ultimately show ?case using Cons.IH [of "sm_insert p g m"] Cons.prems(1) by simp
qed simp

lemma initial_vol: "vol_ok c d (initial_volatile c)"
  using initial_peer_map [of "[]" "fresh_progress 1" "peers c"]
  by (auto simp: vol_ok_def initial_volatile_def idle_progress_def fresh_progress_def)

lemma fail_stop_ok:
  assumes "node_inv c s"
  shows "step_ok c s (fail_stop s)"
  using assms step_down_vol [of c "current s" "s\<lparr>pending := None\<rparr>" "durable s" no_effects]
  by (auto simp: fail_stop_def Let_def split_beta node_inv_def current_def intro!: quiet_step_ok)

lemma persist_completed_ok:
  assumes "node_inv c s"
  shows "step_ok c s (on_persist_completed c s token)"
proof (cases "\<exists>w. pending s = Some w \<and> pw_token w = token \<and> \<not> halted s")
  case False
  then show ?thesis
    using assms by (auto simp: on_persist_completed_def intro!: quiet_step_ok split: option.splits)
next
  case True
  then obtain w where w: "pending s = Some w" "pw_token w = token" "\<not> halted s" by blast
  let ?s = "s\<lparr>pending := None, durable := target w\<rparr>"
  let ?eff = "no_effects\<lparr>send_now := after w, ef_apply := apply_after w, snapshot_needed := snapshot_after w\<rparr>"
  let ?r = "complete_read c ?s ?eff"
  have stage: "stage_ok c (durable s) (volatile_state s) w" using assms w by (simp add: node_inv_def)
  have vol: "vol_ok c (target w) (volatile_state (fst ?r))"
    using assms w by (intro complete_read_vol) (simp add: node_inv_def current_def)
  have valid: "valid_durable (target w)" using stage by (simp add: stage_ok_def)
  have ok: "step_ok c s (s', eff)"
    if "durable s' = target w" "pending s' = None" "vol_ok c (target w) (volatile_state s')"
      "ef_apply eff = apply_after w" "persist eff = None" "emits_ok c (target w) (send_now eff)"
    for s' eff
    using that stage valid
    by (auto simp: step_ok_def Let_def node_inv_quiet stage_ok_def applies_next_def entry_at_def
        split: if_splits)
  show ?thesis
  proof (cases "self_vote w")
    case False
    have "step_ok c s (fst ?r, snd ?r)"
      using vol stage by (intro ok) (simp_all add: stage_ok_def)
    then show ?thesis
      using w False by (simp add: on_persist_completed_def Let_def split_beta)
  next
    case True
    let ?s2 = "add_vote (self c) (fst ?r)"
    have cand: "role (volatile_state (fst ?r)) = Candidate"
      using True stage by (simp add: stage_ok_def)
    have vol2: "vol_ok c (target w) (volatile_state ?s2)"
      using vol cand by (intro add_vote_vol) simp_all
    have emits: "emits_ok c (target w) (after w)" using stage by (simp add: stage_ok_def)
    show ?thesis
    proof (cases "quorum c \<le> card (votes (volatile_state ?s2))")
      case True
      then have "step_ok c s (become_leader c ?s2 (snd ?r))"
        using become_leader_ok [of ?s2 c "snd ?r"] valid vol2 cand emits
        by (subst surjective_pairing) (intro ok; simp add: sends_ok_def)
      then show ?thesis
        using w \<open>self_vote w\<close> True by (simp add: on_persist_completed_def Let_def split_beta)
    next
      case False
      then show ?thesis
        using w \<open>self_vote w\<close> vol2 emits
        by (auto simp: on_persist_completed_def Let_def split_beta intro!: ok)
    qed
  qed
qed

lemma step_preserves:
  assumes "config_ok c" "node_inv c s"
  shows "step_ok c s (step c s i)"
proof -
  have valid: "valid_durable (durable s)" "pending s = Some w \<Longrightarrow> valid_durable (target w)" for w
    using assms(2) by (auto simp: node_inv_def stage_ok_def)
  then have checks: "\<not> (\<not> valid_durable (durable s) \<or>
      (case pending s of None \<Rightarrow> False | Some w \<Rightarrow> \<not> valid_durable (target w)))"
    by (auto split: option.splits)
  have ready: "ready c s" if "pending s = None"
    using that assms by (simp add: ready_def node_inv_quiet)
  have same: "step_ok c s (s, no_effects)" using assms(2) by (intro quiet_step_ok) simp_all
  have dispatched: "pending s = None \<Longrightarrow> step_ok c s (dispatch c s j)" for j
    using handled_step_ok [OF dispatch_handled [OF ready]] by simp
  have failed: "step_ok c s (on_persist_failed s t)" for t
    using fail_stop_ok [OF assms(2)] assms(2)
    by (auto simp: on_persist_failed_def split: option.split intro!: quiet_step_ok)
  have restart: "step_ok c s (on_restart c s)"
    using valid(1) initial_vol by (auto simp: on_restart_def node_inv_quiet intro!: quiet_step_ok)
  have cancel: "step_ok c s (on_cancel_read s x)" for x
    using assms(2) node_inv_drop_read [OF assms(2)]
    by (auto simp: on_cancel_read_def intro!: quiet_step_ok split: option.split)
  have begin_read: "step_ok c s (on_begin_read c s x)" for x
  proof (cases "pending s")
    case None
    then show ?thesis using handled_step_ok [OF begin_read_handled [OF ready]] by simp
  next
    case (Some w)
    then show ?thesis using assms(2) by (auto simp: on_begin_read_def Let_def intro!: quiet_step_ok)
  qed
  show ?thesis
    using checks same dispatched failed restart cancel begin_read persist_completed_ok [OF assms(2)]
    by (cases i) (simp_all add: step_def)
qed

lemma initial_inv: "node_inv c (initial c)"
  using initial_vol
  by (simp add: node_inv_quiet initial_def valid_durable_iff empty_durable_def valid_terms_iff)

end
