(* ===== verification/Raft_Node.thy ===== *)
theory Raft_Node
  imports Raft_Step
begin

text \<open>
  The theorems about one Raft node of \<open>src/raft/transition.cpp\<close>, over arbitrary sequences of
  inputs from the initial state: no staged or durable state is ever invalid, durable state only
  grows, every message is backed by what is already durable, a node votes once per term, entries
  are applied in order, and the commit, append and read rules.
\<close>

interpretation raft_node: climbing_machine "step c" "\<lambda>s. config_ok c \<and> node_inv c s"
    "\<lambda>s s'. durable_le (durable s) (durable s')" for c
  by unfold_locales
    (auto dest: step_preserves durable_le_trans simp: step_ok_def Let_def)

definition reach :: "Config \<Rightarrow> Input list \<Rightarrow> Node" where
  "reach c is = fst (run (step c) (initial c) is)"

lemma reach_inv: "config_ok c \<Longrightarrow> node_inv c (reach c is)"
  using raft_node.run_inv [of c "initial c" "is"] initial_inv by (simp add: reach_def)

lemma reach_step_ok: "config_ok c \<Longrightarrow> step_ok c (reach c is) (step c (reach c is) i)"
  by (simp add: step_preserves reach_inv)

lemma reach_le: "config_ok c \<Longrightarrow> durable_le (durable (reach c is)) (durable (reach c (is @ js)))"
  using raft_node.run_prefix_le [of c "initial c" "is" js] initial_inv by (simp add: reach_def)

lemma reach_snoc: "reach c (is @ [i]) = fst (step c (reach c is) i)"
  by (simp add: reach_def run_append_state Let_def split_beta)

section \<open>Sample runs\<close>

definition sample_config :: Config where
  "sample_config = \<lparr>self = ''n1'', peers = [''n2'', ''n3'']\<rparr>"

definition sample_vote_request :: RequestVote where
  "sample_vote_request =
     \<lparr>rv_term = 1, rv_candidate = ''n2'', rv_last_index = 0, rv_last_term = 0, rv_request_id = 9\<rparr>"

definition sample_append :: AppendEntries where
  "sample_append =
     \<lparr>ae_term = 1, ae_leader = ''n2'', ae_prev_index = 0, ae_prev_term = 0,
      ae_entries = [\<lparr>e_term = 1, command = ''move''\<rparr>], ae_leader_commit = 1, ae_request_id = 3\<rparr>"

definition voting_run :: "Input list" where
  "voting_run = [RecvRequestVote sample_vote_request, PersistCompleted 1]"

definition append_run :: "Input list" where
  "append_run = [RecvAppend sample_append, PersistCompleted 1]"

lemma sample_config_ok [simp]: "config_ok sample_config"
  by (simp add: config_ok_def sample_config_def)

lemmas eval_raft = sample_config_def step_def dispatch_def initial_def initial_volatile_def
  empty_durable_def valid_durable_def valid_terms_def terms_valid_def last_index_def
  known_peer_def adopt_term_def step_down_def up_to_date_def last_term_def term_at_def
  write_or_reply_def begin_write_def on_persist_completed_def complete_read_def sm_insert_def
  fresh_progress_def on_request_vote_def on_recv_append_def append_shape_ok_def append_reply_def
  on_apply_committed_def entry_at_def sample_vote_request_def sample_append_def Let_def

section \<open>Theorems\<close>

text \<open>
  (C14) Whatever sequence of inputs a node receives, its durable state and any staged write satisfy
  the validity check of the step function, and the staged write extends the durable state; so the
  check at the head of \<open>step\<close> never halts a node that started from \<open>initial\<close>.
\<close>

theorem reachable_states_valid:
  assumes "config_ok c"
  shows "valid_durable (durable (reach c is)) \<and>
    (\<forall>w. pending (reach c is) = Some w \<longrightarrow>
       valid_durable (target w) \<and> durable_le (durable (reach c is)) (target w))"
  using reach_inv [OF assms, of "is"] by (auto simp: node_inv_def stage_ok_def)

theorem reachable_states_valid_witness:
  "valid_durable (durable (reach sample_config append_run)) \<and>
   d_log (durable (reach sample_config append_run)) = [\<lparr>e_term = 1, command = ''move''\<rparr>]"
  using reachable_states_valid [OF sample_config_ok, of append_run]
  by (simp add: reach_def append_run_def eval_raft)

text \<open>
  (C4) Durable state only grows along every run: the term never decreases, the vote of a term is
  never changed, commit, applied and snapshot indexes never decrease, and every committed entry
  that is still in the log keeps its place, term and command.
\<close>

theorem durable_state_only_grows:
  assumes "config_ok c"
  shows "durable_le (durable (reach c is)) (durable (reach c (is @ js)))"
  by (rule reach_le [OF assms])

theorem durable_state_only_grows_witness:
  "durable_le (durable (reach sample_config [])) (durable (reach sample_config append_run)) \<and>
   commit (durable (reach sample_config append_run)) = 1"
  using durable_state_only_grows [OF sample_config_ok, of "[]" append_run]
  by (simp add: reach_def append_run_def eval_raft)

text \<open>
  (C2) Write-ahead: every message a step releases is backed by the state that is durable after the
  step. A granted vote is the durable vote of that term, a vote request follows the durable
  self-vote and carries the true last index and term, an acknowledged append or snapshot index is
  inside the durable log, and an append request carries the leader's own durable entries.
\<close>

theorem messages_backed_by_durable_state:
  assumes "config_ok c" "ob \<in> set (send_now (snd (step c (reach c is) i)))"
  shows "backed c (durable (fst (step c (reach c is) i))) ob"
  using reach_step_ok [OF assms(1), of "is" i] assms(2)
  by (auto simp: step_ok_def Let_def list_all_iff)

theorem messages_backed_by_durable_state_witness:
  "\<exists>ob. send_now (snd (step sample_config (reach sample_config [RecvRequestVote sample_vote_request])
       (PersistCompleted 1))) = [ob] \<and>
     backed sample_config (durable (fst (step sample_config
       (reach sample_config [RecvRequestVote sample_vote_request]) (PersistCompleted 1)))) ob"
  using messages_backed_by_durable_state [OF sample_config_ok,
      of _ "[RecvRequestVote sample_vote_request]" "PersistCompleted 1"]
  by (simp add: reach_def eval_raft)

text \<open>
  (C3) A node grants its vote to at most one candidate per term, over a whole run with any
  interleaving of messages, storage completions, failures and restarts.
\<close>

theorem one_vote_per_term:
  assumes "config_ok c" "m < length is" "n < length is"
    and "a \<in> set (send_now (snd (run (step c) (initial c) is) ! m))"
    and "b \<in> set (send_now (snd (run (step c) (initial c) is) ! n))"
    and "ob_message a = MVoteReply r" "vr_granted r"
    and "ob_message b = MVoteReply q" "vr_granted q" "vr_term r = vr_term q"
  shows "ob_to a = ob_to b"
proof -
  have vote: "d_term (durable (reach c (take (Suc k) is))) = vr_term x \<and>
      voted_for (durable (reach c (take (Suc k) is))) = Some (ob_to ob)"
    if "k < length is" "ob \<in> set (send_now (snd (run (step c) (initial c) is) ! k))"
      "ob_message ob = MVoteReply x" "vr_granted x" for k ob x
  proof -
    have out: "snd (run (step c) (initial c) is) ! k = snd (step c (reach c (take k is)) (is ! k))"
      using that(1) by (simp add: run_outputs reach_def)
    have "reach c (take (Suc k) is) = fst (step c (reach c (take k is)) (is ! k))"
      using that(1) by (simp add: take_Suc_conv_app_nth reach_snoc)
    then show ?thesis
      using reach_step_ok [OF assms(1), of "take k is" "is ! k"] that out
      by (auto simp: step_ok_def Let_def list_all_iff backed_def)
  qed
  have le: "durable_le (durable (reach c (take j is))) (durable (reach c (take k is)))" if "j \<le> k" for j k
    using raft_node.run_take_le [of c "initial c" j k "is"] that assms(1) initial_inv
    by (simp add: reach_def)
  show ?thesis
    using vote [OF assms(2,4,6,7)] vote [OF assms(3,5,8,9)] assms(10)
      le [of "Suc m" "Suc n"] le [of "Suc n" "Suc m"]
    by (cases "m \<le> n") (auto simp: durable_le_def)
qed

theorem one_vote_per_term_witness:
  "\<exists>a b. send_now (snd (run (step sample_config) (initial sample_config)
      (voting_run @ [RecvRequestVote sample_vote_request])) ! 1) = [a] \<and>
    send_now (snd (run (step sample_config) (initial sample_config)
      (voting_run @ [RecvRequestVote sample_vote_request])) ! 2) = [b] \<and> ob_to a = ob_to b"
  using one_vote_per_term [OF sample_config_ok, of 1 "voting_run @ [RecvRequestVote sample_vote_request]" 2]
  by (simp add: voting_run_def eval_raft)

text \<open>
  (C17) Application is ordered and exactly once: a step either applies nothing and leaves the applied
  index where it is (or moves it to a freshly installed snapshot above the old commit index), or
  delivers exactly the next committed entry, after the new applied index is durable.
\<close>

theorem entries_applied_in_order:
  assumes "config_ok c" "step c (reach c is) i = (s', eff)"
  shows "if ef_apply eff = []
    then applied (durable s') = applied (durable (reach c is)) \<or>
      commit (durable (reach c is)) < snapshot_index (durable s') \<and>
      applied (durable s') = snapshot_index (durable s')
    else applied (durable s') = applied (durable (reach c is)) + 1 \<and>
      applied (durable (reach c is)) < commit (durable (reach c is)) \<and>
      ef_apply eff = [entry_at (durable s') (applied (durable s'))]"
  using reach_step_ok [OF assms(1), of "is" i] assms(2)
  by (auto simp: step_ok_def Let_def)

theorem entries_applied_in_order_witness:
  "ef_apply (snd (step sample_config (reach sample_config (append_run @ [ApplyCommitted]))
     (PersistCompleted 2))) = [\<lparr>e_term = 1, command = ''move''\<rparr>] \<and>
   applied (durable (fst (step sample_config (reach sample_config (append_run @ [ApplyCommitted]))
     (PersistCompleted 2)))) = 1"
  using entries_applied_in_order [OF sample_config_ok surjective_pairing,
      of "append_run @ [ApplyCommitted]" "PersistCompleted 2"]
  by (simp add: reach_def append_run_def eval_raft)

text \<open>
  (C16) The commit rule: \<open>highest_committable\<close> returns the largest index above the commit index that
  holds an entry of the leader's own term and is replicated on a quorum, and the commit index itself
  when there is none; an entry of an older term is never committed by counting replicas.
\<close>

theorem highest_committable_correct:
  "(highest_committable c s = commit (durable s) \<or> committable c s (highest_committable c s)) \<and>
   (\<forall>k. highest_committable c s < k \<longrightarrow> \<not> committable c s k)"
  using highest_from_spec [of "last_index (durable s)" s c]
  by (auto simp: highest_committable_def committable_def not_less)

definition sample_leader :: Node where
  "sample_leader =
     (initial sample_config)
       \<lparr>durable := empty_durable\<lparr>d_term := 2, d_log := [\<lparr>e_term = 1, command = ''a''\<rparr>,
          \<lparr>e_term = 2, command = ''b''\<rparr>]\<rparr>,
        volatile_state := (initial_volatile sample_config)
          \<lparr>role := Leader, peer_map := [(''n2'', (fresh_progress 3)\<lparr>match_index := 2\<rparr>),
             (''n3'', fresh_progress 1)]\<rparr>\<rparr>"

theorem highest_committable_correct_witness:
  "highest_committable sample_config sample_leader = 2 \<and> \<not> committable sample_config sample_leader 3"
proof -
  have two: "highest_committable sample_config sample_leader = 2"
    by (simp add: highest_committable_def highest_from.simps sample_leader_def eval_raft quorum_def)
  then show ?thesis using highest_committable_correct [of sample_config sample_leader] by simp
qed

text \<open>
  (C27) The entry loop of an accepted append request equals a one-shot merge: entries that agree are
  kept, a conflict above the commit index replaces the old suffix by the new entries, a conflict at
  or below it changes nothing and reports the commit index.
\<close>

theorem append_loop_is_merge:
  assumes "valid_durable d" "append_fits d m"
  shows "append_entries d (ae_prev_index m + 1) (ae_entries m) =
    (case merge_log (unat (ae_prev_index m) - unat (snapshot_index d))
            (unat (commit d) - unat (snapshot_index d)) (d_log d) (ae_entries m) of
       None \<Rightarrow> (d, Some (commit d))
     | Some l \<Rightarrow> (d\<lparr>d_log := l\<rparr>, None))"
  by (rule append_fits_merge [OF assms])

theorem append_loop_is_merge_witness:
  "fst (append_entries (durable sample_leader) 2 [\<lparr>e_term = 1, command = ''c''\<rparr>]) =
   (durable sample_leader)\<lparr>d_log := [\<lparr>e_term = 1, command = ''a''\<rparr>, \<lparr>e_term = 1, command = ''c''\<rparr>]\<rparr>"
  using append_loop_is_merge [of "durable sample_leader" "\<lparr>ae_term = 2, ae_leader = ''n2'',
      ae_prev_index = 1, ae_prev_term = 1, ae_entries = [\<lparr>e_term = 1, command = ''c''\<rparr>],
      ae_leader_commit = 0, ae_request_id = 1\<rparr>"]
  by (simp add: sample_leader_def eval_raft append_fits_def merge_log_def)

text \<open>
  (C15) What a follower does with an append request it accepts: it adopts the term and steps down;
  if no committed entry conflicts its log becomes the merged log and its commit index rises to the
  leader's, limited by what the request covers; otherwise log and commit index stay.
\<close>

theorem append_request_outcome:
  assumes "valid_durable (durable s)" "pending s = None" "known_peer s (ae_leader m)"
    and "d_term (durable s) \<le> ae_term m" "append_fits (adopt_term (durable s) (ae_term m)) m"
  shows "role (volatile_state (fst (on_recv_append c s m))) = Follower \<and>
    current (fst (on_recv_append c s m)) =
      (let d = adopt_term (durable s) (ae_term m)
       in case merge_log (unat (ae_prev_index m) - unat (snapshot_index d))
                 (unat (commit d) - unat (snapshot_index d)) (d_log d) (ae_entries m) of
            None \<Rightarrow> d
          | Some l \<Rightarrow> d\<lparr>d_log := l, commit := max (commit d)
              (min (ae_leader_commit m) (ae_prev_index m + of_nat (length (ae_entries m))))\<rparr>)"
proof -
  let ?t = "adopt_term (durable s) (ae_term m)"
  have valid: "valid_durable ?t" using assms(1) by (rule valid_adopt_term)
  have shape: "append_shape_ok m" "term_at ?t (ae_prev_index m) = Some (ae_prev_term m)"
    "\<not> of_nat kMaximumEntries < ae_prev_index m + of_nat (length (ae_entries m)) - snapshot_index ?t"
    using assms(5) by (simp_all add: append_fits_def)
  have cur: "current (fst (write_or_reply s' eff tgt ob k)) = tgt"
    "volatile_state (fst (write_or_reply s' eff tgt ob k)) = volatile_state s'"
    if "pending s' = None" for s' eff tgt ob k
    using that by (auto simp: write_or_reply_def begin_write_def Let_def current_def)
  note merge = append_fits_merge [OF valid assms(5)]
  have "\<not> ae_term m < d_term (durable s)" using assms(4) by simp
  then have handler: "on_recv_append c s m =
      (let (tgt1, conflict) = append_entries ?t (ae_prev_index m + 1) (ae_entries m);
           covered = ae_prev_index m + of_nat (length (ae_entries m));
           tgt2 = (if conflict = None
                   then tgt1\<lparr>commit := max (commit tgt1) (min (ae_leader_commit m) covered)\<rparr>
                   else tgt1\<lparr>d_log := d_log (durable s), commit := commit (durable s)\<rparr>)
       in write_or_reply (fst (step_down s no_effects)) (snd (step_down s no_effects)) tgt2
            (append_reply c m (d_term tgt2) (conflict = None)
               (case conflict of None \<Rightarrow> (if ae_prev_index m < snapshot_index ?t
                  then snapshot_index ?t else last_index ?t) | Some h \<Rightarrow> h)
               (if conflict = None then covered else 0)) StateUpdate)"
    using assms(3) shape by (simp add: on_recv_append_def Let_def split_beta)
  show ?thesis
    unfolding handler Let_def merge
    by (simp add: cur assms(2) split: option.split)
qed

theorem append_request_outcome_witness:
  "role (volatile_state (fst (on_recv_append sample_config (initial sample_config) sample_append))) =
     Follower \<and>
   current (fst (on_recv_append sample_config (initial sample_config) sample_append)) =
     empty_durable\<lparr>d_term := 1, d_log := [\<lparr>e_term = 1, command = ''move''\<rparr>], commit := 1\<rparr>"
  using append_request_outcome [of "initial sample_config" sample_append sample_config]
  by (simp add: eval_raft append_fits_def merge_log_def)

text \<open>
  (C28) Compaction drops only the applied, committed prefix: the staged state has its snapshot at
  the commit index with that entry's term, the same last index, and every later entry unchanged, so
  uncommitted entries are neither dropped nor renumbered.
\<close>

theorem compaction_keeps_suffix:
  assumes "valid_durable (durable s)" "pending s = None"
    and "applied (durable s) = commit (durable s)" "commit (durable s) \<noteq> snapshot_index (durable s)"
  shows "let d = durable s; d' = current (fst (on_compact_committed s))
    in snapshot_index d' = commit d \<and> Some (snapshot_term d') = term_at d (commit d) \<and>
       last_index d' = last_index d \<and>
       (\<forall>i. commit d \<le> i \<longrightarrow> term_at d' i = term_at d i) \<and>
       (\<forall>i. commit d < i \<and> i \<le> last_index d \<longrightarrow> entry_at d' i = entry_at d i)"
proof -
  let ?d = "durable s"
  have "term_at ?d (commit ?d) \<noteq> None"
    using valid_durable_bounds(3,4) [OF assms(1)]
    by (simp add: term_at_None_iff [OF assms(1)] not_less)
  then obtain t where t: "term_at ?d (commit ?d) = Some t" by auto
  let ?t = "?d\<lparr>snapshot_index := commit ?d, snapshot_term := t,
      d_log := drop (unat (commit ?d - snapshot_index ?d)) (d_log ?d)\<rparr>"
  have cur: "current (fst (on_compact_committed s)) = ?t"
    using assms(3,4) t
    by (simp add: on_compact_committed_def Let_def begin_write_def current_def)
  note cut = cut_term_at [where x = "\<lambda>_. t" and m = "commit ?d" and a = "applied ?d", OF assms(1) t]
  show ?thesis
    using cut last_index_cut [where x = t and m = "commit ?d" and a = "applied ?d", OF assms(1) t] t
    unfolding cur Let_def by auto
qed

definition sample_applied :: Node where
  "sample_applied =
     sample_leader\<lparr>durable := (durable sample_leader)\<lparr>commit := 1, applied := 1\<rparr>\<rparr>"

theorem compaction_keeps_suffix_witness:
  "snapshot_index (current (fst (on_compact_committed sample_applied))) = 1 \<and>
   last_index (current (fst (on_compact_committed sample_applied))) = 2"
proof -
  have sample: "valid_durable (durable sample_applied)" "pending sample_applied = None"
    "applied (durable sample_applied) = commit (durable sample_applied)"
    "commit (durable sample_applied) \<noteq> snapshot_index (durable sample_applied)"
    "commit (durable sample_applied) = 1" "last_index (durable sample_applied) = 2"
    by (simp_all add: sample_applied_def sample_leader_def eval_raft)
  show ?thesis using compaction_keeps_suffix [OF sample(1-4)] by (simp add: Let_def sample(5,6))
qed

text \<open>
  (C29) Installing a snapshot above the commit index yields a valid state at the snapshot boundary.
  When the local log holds the snapshot's last entry the later entries stay with their indexes;
  otherwise the log is dropped.
\<close>

theorem snapshot_install_outcome:
  assumes "valid_durable d" "commit d < i" "i \<noteq> max_u64" "t \<noteq> 0" "t \<le> d_term d"
  shows "valid_durable (install_snapshot d i t) \<and> durable_le d (install_snapshot d i t) \<and>
    commit (install_snapshot d i t) = i \<and> applied (install_snapshot d i t) = i \<and>
    (if term_at d i = Some t
     then last_index (install_snapshot d i t) = last_index d \<and>
          (\<forall>j. i < j \<and> j \<le> last_index d \<longrightarrow> entry_at (install_snapshot d i t) j = entry_at d j)
     else d_log (install_snapshot d i t) = [])"
proof -
  have "i \<noteq> 0" using assms(2) by auto
  then have ok: "valid_durable (install_snapshot d i t)" "durable_le d (install_snapshot d i t)"
    using assms by (auto intro: valid_install_snapshot durable_le_install_snapshot)
  show ?thesis
  proof (cases "term_at d i = Some t")
    case True
    note cut = cut_term_at(2) [where x = "\<lambda>_. t" and m = i and a = i, OF assms(1) True]
      last_index_cut [where x = t and m = i and a = i, OF assms(1) True]
    show ?thesis using ok cut True by (auto simp: install_snapshot_def)
  qed (use ok in \<open>simp add: install_snapshot_def\<close>)
qed

theorem snapshot_install_outcome_witness:
  "valid_durable (install_snapshot (durable sample_leader) 1 1) \<and>
   last_index (install_snapshot (durable sample_leader) 1 1) = 2"
proof -
  have sample: "valid_durable (durable sample_leader)" "commit (durable sample_leader) < 1"
    "(1 :: u64) \<noteq> max_u64" "(1 :: u64) \<noteq> 0" "1 \<le> d_term (durable sample_leader)"
    "term_at (durable sample_leader) 1 = Some 1" "last_index (durable sample_leader) = 2"
    by (simp_all add: sample_leader_def eval_raft)
  show ?thesis using snapshot_install_outcome [OF sample(1-5)] by (simp add: sample(6,7))
qed

end
