(* ===== verification/Raft_Cluster.thy ===== *)
theory Raft_Cluster
  imports Raft_Node
begin

text \<open>
  A cluster of nodes that each run the step function of \<open>src/raft/transition.cpp\<close>, over a network
  that loses, duplicates, delays and reorders messages, with storage that may fail and processes
  that may crash before or after a staged write reached the disk. Election safety: at most one node
  ever leads a term.
\<close>

section \<open>Quorums\<close>

locale quorum_system =
  fixes is_quorum :: "'a set \<Rightarrow> bool"
  assumes intersect: "is_quorum A \<Longrightarrow> is_quorum B \<Longrightarrow> \<exists>x. x \<in> A \<and> x \<in> B"
begin

text \<open>Two candidates with a quorum of single-valued ballots each are the same candidate.\<close>

lemma unique_winner:
  assumes "is_quorum A" "is_quorum B" "\<forall>v\<in>A. vote v p" "\<forall>v\<in>B. vote v q"
    and "\<And>v x y. vote v x \<Longrightarrow> vote v y \<Longrightarrow> x = y"
  shows "p = q"
  using intersect [OF assms(1,2)] assms(3-5) by blast

end

definition majority :: "string list \<Rightarrow> string set \<Rightarrow> bool" where
  "majority ms A \<longleftrightarrow> A \<subseteq> set ms \<and> length ms div 2 + 1 \<le> card A"

lemma majority_intersect:
  assumes "majority ms A" "majority ms B"
  shows "\<exists>x. x \<in> A \<and> x \<in> B"
proof (rule ccontr)
  assume "\<not> ?thesis"
  moreover have "finite A" "finite B" using assms by (auto simp: majority_def intro: finite_subset)
  ultimately have "card (A \<union> B) = card A + card B" by (intro card_Un_disjoint) auto
  moreover have "card (A \<union> B) \<le> card (set ms)"
    using assms by (intro card_mono) (auto simp: majority_def)
  moreover have "card (set ms) \<le> length ms" by (rule card_length)
  ultimately show False using assms by (simp add: majority_def) linarith
qed

interpretation majorities: quorum_system "majority ms" for ms
  by unfold_locales (rule majority_intersect)

section \<open>The cluster\<close>

definition config_for :: "string list \<Rightarrow> string \<Rightarrow> Config" where
  "config_for ms n = \<lparr>self = n, peers = filter (\<lambda>p. p \<noteq> n) ms\<rparr>"

lemma config_for_simps [simp]:
  "self (config_for ms n) = n" "set (peers (config_for ms n)) = set ms - {n}"
  by (auto simp: config_for_def)

lemma config_for_ok: "distinct ms \<Longrightarrow> config_ok (config_for ms n)"
  by (simp add: config_ok_def config_for_def)

lemma quorum_config_for:
  assumes "distinct ms" "n \<in> set ms"
  shows "quorum (config_for ms n) = length ms div 2 + 1"
proof -
  have "length (filter (\<lambda>p. p \<noteq> n) ms) = card (set ms - {n})"
    using assms by (simp add: distinct_card [symmetric] set_diff_eq)
  also have "\<dots> = length ms - 1" using assms by (simp add: distinct_card)
  finally show ?thesis using assms by (cases ms) (auto simp: quorum_def config_for_def)
qed

text \<open>
  \<open>ballots\<close> and \<open>leaders\<close> are history variables: every durable vote and every leadership that ever
  was. They take no part in the behaviour.
\<close>

record Cluster =
  nodes :: "string \<Rightarrow> Node"
  soup :: "Outbound set"
  ballots :: "(string \<times> u64 \<times> string) set"
  leaders :: "(u64 \<times> string) set"

definition own_ballot :: "string \<Rightarrow> Durable \<Rightarrow> (string \<times> u64 \<times> string) set" where
  "own_ballot n d = (case voted_for d of None \<Rightarrow> {} | Some p \<Rightarrow> {(n, d_term d, p)})"

definition own_lead :: "string \<Rightarrow> Node \<Rightarrow> (u64 \<times> string) set" where
  "own_lead n s = (if role (volatile_state s) = Leader then {(d_term (durable s), n)} else {})"

definition place :: "Cluster \<Rightarrow> string \<Rightarrow> Node \<Rightarrow> Outbound list \<Rightarrow> Cluster" where
  "place C n s outs =
     \<lparr>nodes = (nodes C)(n := s), soup = soup C \<union> set outs,
      ballots = ballots C \<union> own_ballot n (durable s), leaders = leaders C \<union> own_lead n s\<rparr>"

text \<open>The transport authenticates peers, so a vote reply is one its voter sent to this node. No
  other input is restricted.\<close>

definition authentic :: "Cluster \<Rightarrow> string \<Rightarrow> Input \<Rightarrow> bool" where
  "authentic C n i \<longleftrightarrow>
     (case i of
        RecvVoteReply r \<Rightarrow> \<lparr>ob_to = n, ob_message = MVoteReply r\<rparr> \<in> soup C
      | _ \<Rightarrow> True)"

inductive cluster_step :: "string list \<Rightarrow> Cluster \<Rightarrow> Cluster \<Rightarrow> bool" for ms where
  act: "n \<in> set ms \<Longrightarrow> authentic C n i \<Longrightarrow>
    step (config_for ms n) (nodes C n) i = (s', eff) \<Longrightarrow>
    cluster_step ms C (place C n s' (send_now eff))"
| crash: "n \<in> set ms \<Longrightarrow> d = durable (nodes C n) \<or> d = current (nodes C n) \<Longrightarrow>
    cluster_step ms C (place C n ((initial (config_for ms n))
      \<lparr>durable := d, next_token := token, next_request_id := rid\<rparr>) [])"

definition cluster_init :: "string list \<Rightarrow> Cluster" where
  "cluster_init ms = \<lparr>nodes = (\<lambda>n. initial (config_for ms n)), soup = {}, ballots = {}, leaders = {}\<rparr>"

inductive reachable :: "string list \<Rightarrow> Cluster \<Rightarrow> bool" for ms where
  start: "reachable ms (cluster_init ms)"
| more: "reachable ms C \<Longrightarrow> cluster_step ms C C' \<Longrightarrow> reachable ms C'"

section \<open>Votes a candidate holds\<close>

abbreviation votes_of :: "Node \<Rightarrow> string set" where
  "votes_of s \<equiv> votes (volatile_state s)"

lemma begin_write_votes [simp]:
  "votes_of (fst (begin_write s eff t o1 a v sn k)) = votes_of s"
  by (simp add: begin_write_def Let_def)

lemma write_or_reply_votes [simp]: "votes_of (fst (write_or_reply s eff t r k)) = votes_of s"
  by (simp add: write_or_reply_def)

lemma send_append_votes [simp]:
  "votes_of (fst (send_append c s d p out sn)) = votes_of s"
  "durable (fst (send_append c s d p out sn)) = durable s"
  by (simp_all add: send_append_def Let_def split: option.split)

lemma send_appends_votes [simp]: "votes_of (fst (send_appends c d ps r)) = votes_of (fst r)"
proof (induction ps arbitrary: r)
  case (Cons p ps)
  then show ?case by (cases r) simp
qed simp

lemma leader_sends_votes:
  "votes_of (fst (leader_sends c ps r)) = votes_of (fst r) \<and>
   durable (fst (leader_sends c ps r)) = durable (fst r)"
proof (induction ps arbitrary: r)
  case (Cons p ps)
  then show ?case by (cases r) simp
qed simp

lemma heartbeats_votes [simp]: "votes_of (fst (heartbeats c ps r)) = votes_of (fst r)"
proof (induction ps arbitrary: r)
  case (Cons p ps)
  then show ?case by (cases r) (simp split: option.split)
qed simp

lemma become_leader_votes [simp]:
  "votes_of (fst (become_leader c s eff)) = votes_of s"
  "durable (fst (become_leader c s eff)) = durable s"
  by (simp_all add: become_leader_def Let_def split_beta leader_sends_votes)

lemma raise_term_votes [simp]: "votes_of (fst (raise_term s t)) = {}"
  by (simp add: raise_term_def Let_def split_beta)

text \<open>A handler only clears the votes, or records the voter of a granted reply in its own term.\<close>

lemma handler_votes:
  "votes_of (fst (on_compact_committed s)) \<subseteq> votes_of s"
  "votes_of (fst (on_recv_snapshot c s sm)) \<subseteq> votes_of s"
  "votes_of (fst (on_recv_snapshot_reply s sr)) \<subseteq> votes_of s"
  "votes_of (fst (on_election_timeout c s)) \<subseteq> votes_of s"
  "votes_of (fst (on_request_vote c s rv)) \<subseteq> votes_of s"
  "votes_of (fst (on_client_propose c s cmd)) \<subseteq> votes_of s"
  "votes_of (fst (on_heartbeat_timeout c s)) \<subseteq> votes_of s"
  "votes_of (fst (on_recv_append c s am)) \<subseteq> votes_of s"
  "votes_of (fst (on_append_reply c s ar)) \<subseteq> votes_of s"
  "votes_of (fst (on_advance_commit c s)) \<subseteq> votes_of s"
  "votes_of (fst (on_apply_committed s)) \<subseteq> votes_of s"
  "votes_of (fst (on_begin_read c s ctx)) \<subseteq> votes_of s"
  "votes_of (fst (on_cancel_read s ctx)) \<subseteq> votes_of s"
  "votes_of (fst (on_restart c s)) \<subseteq> votes_of s"
  "votes_of (fst (on_persist_failed s token)) \<subseteq> votes_of s"
  by (simp_all add: on_compact_committed_def on_recv_snapshot_def on_recv_snapshot_reply_def
      on_election_timeout_def on_request_vote_def on_client_propose_def on_heartbeat_timeout_def
      on_recv_append_def on_append_reply_def on_advance_commit_def on_apply_committed_def
      on_begin_read_def on_cancel_read_def on_restart_def initial_volatile_def on_persist_failed_def
      fail_stop_def acknowledge_read_def Let_def split_beta split: option.split)

lemma vote_reply_votes:
  "votes_of (fst (on_vote_reply c s r)) \<subseteq> votes_of s \<union>
     (if vr_granted r \<and> vr_term r = d_term (durable s) then {vr_voter r} else {})"
  by (auto simp: on_vote_reply_def Let_def)

definition vote_source :: "Config \<Rightarrow> Node \<Rightarrow> Input \<Rightarrow> Node \<Rightarrow> string \<Rightarrow> bool" where
  "vote_source c s i s' v \<longleftrightarrow>
     v \<in> votes_of s \<and> d_term (durable s') = d_term (durable s) \<or>
     v = self c \<and> voted_for (durable s') = Some (self c) \<or>
     (\<exists>r. i = RecvVoteReply r \<and> v = vr_voter r \<and> vr_granted r \<and> vr_term r = d_term (durable s'))"

lemma dispatch_vote_source:
  assumes "ready c s" "v \<in> votes_of (fst (dispatch c s i))"
  shows "vote_source c s i (fst (dispatch c s i)) v"
proof -
  have "durable (fst (dispatch c s i)) = durable s"
    using dispatch_handled [OF assms(1)] by (simp add: handled_def)
  moreover have "v \<in> votes_of s \<or>
      (\<exists>r. i = RecvVoteReply r \<and> v = vr_voter r \<and> vr_granted r \<and> vr_term r = d_term (durable s))"
    using assms(2)
    by (cases i) (auto simp: dispatch_def split: if_splits
        dest: handler_votes [THEN subsetD] vote_reply_votes [THEN subsetD])
  ultimately show ?thesis by (auto simp: vote_source_def)
qed

lemma completed_vote_source:
  assumes "node_inv c s" "v \<in> votes_of (fst (on_persist_completed c s token))"
    and "role (volatile_state s) \<noteq> Follower"
  shows "vote_source c s i (fst (on_persist_completed c s token)) v"
proof (cases "\<exists>w. pending s = Some w \<and> pw_token w = token \<and> \<not> halted s")
  case False
  then show ?thesis
    using assms by (auto simp: on_persist_completed_def vote_source_def split: option.splits if_splits)
next
  case True
  then obtain w where w: "pending s = Some w" "pw_token w = token" "\<not> halted s" by blast
  have stage: "stage_ok c (durable s) (volatile_state s) w" and vol: "vol_ok c (target w) (volatile_state s)"
    using assms(1) w by (auto simp: node_inv_def current_def)
  have self: "voted_for (target w) = Some (self c)"
    using vol assms(3) by (simp add: vol_ok_def)
  have dur: "durable (fst (on_persist_completed c s token)) = target w"
    using w by (simp add: on_persist_completed_def Let_def split_beta)
  show ?thesis
    using assms(2,3) w stage self dur
    by (cases "self_vote w")
      (auto simp: on_persist_completed_def Let_def split_beta stage_ok_def vote_source_def split: if_splits)
qed

lemma step_vote_source:
  assumes "config_ok c" "node_inv c s" "v \<in> votes_of (fst (step c s i))"
  shows "vote_source c s i (fst (step c s i)) v"
proof -
  have valid: "valid_durable (durable s)" "pending s = Some w \<Longrightarrow> valid_durable (target w)" for w
    using assms(2) by (auto simp: node_inv_def stage_ok_def)
  have same: "vote_source c s i s' v" if "durable s' = durable s" "v \<in> votes_of s" for s'
    using that by (simp add: vote_source_def)
  have follower: "votes_of (fst (on_persist_completed c s t)) = {}" if "role (volatile_state s) = Follower" for t
    using that assms(2)
    by (auto simp: on_persist_completed_def Let_def split_beta node_inv_def vol_ok_def stage_ok_def
        split: option.splits)
  have completed: "vote_source c s i (fst (on_persist_completed c s t)) v"
    if "v \<in> votes_of (fst (on_persist_completed c s t))" for t
    using completed_vote_source [OF assms(2) that] follower that
    by (cases "role (volatile_state s) = Follower") auto
  have durable_same: "durable (fst (on_begin_read c s x)) = durable s"
    "durable (fst (on_cancel_read s x)) = durable s" "durable (fst (on_restart c s)) = durable s"
    "durable (fst (on_persist_failed s x)) = durable s" for x
  proof -
    have "durable (fst (send_appends c d ps r)) = durable (fst r)" for d ps r
    proof (induction ps arbitrary: r)
      case (Cons p ps)
      then show ?case by (cases r) simp
    qed simp
    then show "durable (fst (on_begin_read c s x)) = durable s"
      by (simp add: on_begin_read_def Let_def split_beta)
    show "durable (fst (on_cancel_read s x)) = durable s" "durable (fst (on_restart c s)) = durable s"
      "durable (fst (on_persist_failed s x)) = durable s"
      by (auto simp: on_cancel_read_def on_restart_def on_persist_failed_def fail_stop_def Let_def
          split_beta split: option.splits)
  qed
  have dispatched: "vote_source c s i (fst (dispatch c s i)) v"
    if "pending s = None" "v \<in> votes_of (fst (dispatch c s i))"
    using that assms(1,2) by (intro dispatch_vote_source) (simp_all add: ready_def node_inv_quiet)
  have checks: "\<not> (\<not> valid_durable (durable s) \<or>
      (case pending s of None \<Rightarrow> False | Some w \<Rightarrow> \<not> valid_durable (target w)))"
    using valid by (auto split: option.splits)
  show ?thesis
    using assms(3) checks same dispatched durable_same completed
    by (cases i)
      (auto simp: step_def split: if_splits dest: handler_votes [THEN subsetD])
qed

section \<open>Election safety\<close>

definition ballot_current :: "Cluster \<Rightarrow> string \<times> u64 \<times> string \<Rightarrow> bool" where
  "ballot_current C b \<longleftrightarrow>
     (case b of (v, t, p) \<Rightarrow>
        t < d_term (durable (nodes C v)) \<or>
        t = d_term (durable (nodes C v)) \<and> voted_for (durable (nodes C v)) = Some p)"

definition cluster_inv :: "string list \<Rightarrow> Cluster \<Rightarrow> bool" where
  "cluster_inv ms C \<longleftrightarrow>
     (\<forall>n\<in>set ms. node_inv (config_for ms n) (nodes C n)) \<and>
     (\<forall>b\<in>ballots C. ballot_current C b) \<and>
     (\<forall>v t p q. (v, t, p) \<in> ballots C \<and> (v, t, q) \<in> ballots C \<longrightarrow> p = q) \<and>
     (\<forall>ob\<in>soup C. \<forall>r. ob_message ob = MVoteReply r \<and> vr_granted r \<longrightarrow>
        (vr_voter r, vr_term r, ob_to ob) \<in> ballots C) \<and>
     (\<forall>n\<in>set ms. \<forall>v\<in>votes_of (nodes C n). (v, d_term (durable (nodes C n)), n) \<in> ballots C) \<and>
     (\<forall>(t, n)\<in>leaders C. \<exists>A. majority ms A \<and> (\<forall>v\<in>A. (v, t, n) \<in> ballots C))"

text \<open>Replacing one node's state keeps the invariant, given the facts of its step.\<close>

lemma place_inv:
  assumes inv: "cluster_inv ms C" and n: "n \<in> set ms" and ms: "distinct ms"
    and node: "node_inv (config_for ms n) s'"
    and le: "durable_le (durable (nodes C n)) (durable s')"
    and votes: "\<forall>v\<in>votes_of s'. (v, d_term (durable s'), n) \<in> ballots C \<union> own_ballot n (durable s')"
    and outs: "emits_ok (config_for ms n) (durable s') outs"
  shows "cluster_inv ms (place C n s' outs)"
proof -
  let ?C = "place C n s' outs"
  have keep: "\<forall>b\<in>ballots C. ballot_current C b" using inv by (simp add: cluster_inv_def)
  have grow: "d_term (durable (nodes C n)) \<le> d_term (durable s')"
    "d_term (durable (nodes C n)) = d_term (durable s') \<Longrightarrow> voted_for (durable (nodes C n)) = Some p \<Longrightarrow>
      voted_for (durable s') = Some p" for p
    using le by (auto simp: durable_le_def)
  have current: "ballot_current ?C b" if "b \<in> ballots ?C" for b
  proof (cases "b \<in> ballots C")
    case True
    obtain v t p where b: "b = (v, t, p)" by (cases b)
    have old: "ballot_current C (v, t, p)" using keep True b by blast
    show ?thesis
    proof (cases "v = n")
      case True
      then show ?thesis
        using old grow b
        by (cases "d_term (durable (nodes C n)) = d_term (durable s')")
          (auto simp: ballot_current_def place_def)
    qed (use old b in \<open>simp add: ballot_current_def place_def\<close>)
  next
    case False
    then show ?thesis
      using that by (auto simp: ballot_current_def place_def own_ballot_def split: option.splits)
  qed
  have functional: "p = q" if "(v, t, p) \<in> ballots ?C" "(v, t, q) \<in> ballots ?C" for v t p q
  proof (cases "(v, t, p) \<in> ballots C \<and> (v, t, q) \<in> ballots C")
    case True
    then show ?thesis using inv unfolding cluster_inv_def by blast
  next
    case False
    then have "v = n" "t = d_term (durable s')"
      using that by (auto simp: place_def own_ballot_def split: option.splits)
    then show ?thesis
      using current [OF that(1)] current [OF that(2)] by (simp add: ballot_current_def place_def)
  qed
  have soup: "(vr_voter r, vr_term r, ob_to ob) \<in> ballots ?C"
    if "ob \<in> soup ?C" "ob_message ob = MVoteReply r" "vr_granted r" for ob r
  proof (cases "ob \<in> soup C")
    case True
    then show ?thesis using inv that by (auto simp: cluster_inv_def place_def)
  next
    case False
    then have "backed (config_for ms n) (durable s') ob"
      using that(1) outs by (auto simp: place_def list_all_iff)
    then show ?thesis using that(2,3) by (simp add: backed_def place_def own_ballot_def)
  qed
  have elected: "\<exists>A. majority ms A \<and> (\<forall>v\<in>A. (v, d_term (durable s'), n) \<in> ballots ?C)"
    if "role (volatile_state s') = Leader"
  proof -
    have "votes_of s' \<subseteq> set ms" "quorum (config_for ms n) \<le> card (votes_of s')"
      using node that n by (auto simp: node_inv_def vol_ok_def)
    then have "majority ms (votes_of s')" by (simp add: majority_def quorum_config_for [OF ms n])
    then show ?thesis using votes by (auto simp: place_def)
  qed
  have lead: "\<exists>A. majority ms A \<and> (\<forall>v\<in>A. (v, t, m) \<in> ballots ?C)" if "(t, m) \<in> leaders ?C" for t m
  proof (cases "(t, m) \<in> leaders C")
    case True
    then obtain A where "majority ms A" "\<forall>v\<in>A. (v, t, m) \<in> ballots C"
      using inv unfolding cluster_inv_def by blast
    then show ?thesis by (auto simp: place_def)
  next
    case False
    then show ?thesis using that elected by (auto simp: place_def own_lead_def split: if_splits)
  qed
  have held: "\<forall>m\<in>set ms. \<forall>v\<in>votes_of (nodes ?C m). (v, d_term (durable (nodes ?C m)), m) \<in> ballots ?C"
    using inv votes by (auto simp: cluster_inv_def place_def)
  have "\<forall>m\<in>set ms. node_inv (config_for ms m) (nodes ?C m)"
    using inv node by (simp add: cluster_inv_def place_def)
  with current functional soup lead held show ?thesis
    unfolding cluster_inv_def by blast
qed

lemma cluster_step_inv:
  assumes "cluster_inv ms C" "distinct ms" "cluster_step ms C C'"
  shows "cluster_inv ms C'"
  using assms(3,1,2)
proof cases
  case (act n i s' eff)
  have node: "node_inv (config_for ms n) (nodes C n)"
    using assms(1) act(2) by (simp add: cluster_inv_def)
  have ok: "step_ok (config_for ms n) (nodes C n) (s', eff)"
    using step_preserves [OF config_for_ok [OF assms(2)] node, of i] act(4) by simp
  have "(v, d_term (durable s'), n) \<in> ballots C \<union> own_ballot n (durable s')" if "v \<in> votes_of s'" for v
  proof -
    have "vote_source (config_for ms n) (nodes C n) i s' v"
      using step_vote_source [OF config_for_ok [OF assms(2)] node, of v i] act(4) that by simp
    moreover have "(vr_voter r, vr_term r, n) \<in> ballots C"
      if "i = RecvVoteReply r" "vr_granted r" for r
      using act(3) that assms(1) by (force simp: authentic_def cluster_inv_def)
    ultimately show ?thesis
      using assms(1) act(2) by (auto simp: vote_source_def cluster_inv_def own_ballot_def)
  qed
  then show ?thesis
    using place_inv [OF assms(1) act(2) assms(2), of s' "send_now eff"] ok act(1)
    by (simp add: step_ok_def Let_def)
next
  case (crash n d token rid)
  have node: "node_inv (config_for ms n) (nodes C n)"
    using assms(1) crash(2) by (simp add: cluster_inv_def)
  have "valid_durable d" "durable_le (durable (nodes C n)) d"
    using node crash(3) by (auto simp: node_inv_def current_def stage_ok_def split: option.splits)
  then show ?thesis
    unfolding crash(1) using initial_vol crash(2) assms
    by (intro place_inv) (auto simp: node_inv_quiet initial_def initial_volatile_def)
qed

lemma cluster_init_inv: "cluster_inv ms (cluster_init ms)"
  by (simp add: cluster_inv_def cluster_init_def initial_inv initial_def initial_volatile_def)
    (use initial_inv in \<open>simp add: initial_def initial_volatile_def\<close>)

lemma reachable_inv: "reachable ms C \<Longrightarrow> distinct ms \<Longrightarrow> cluster_inv ms C"
  by (induction rule: reachable.induct) (auto simp: cluster_init_inv intro: cluster_step_inv)

lemma leader_majority:
  assumes "cluster_inv ms C" "(t, n) \<in> leaders C"
  obtains A where "majority ms A" "\<forall>v\<in>A. (v, t, n) \<in> ballots C"
proof -
  have "\<forall>x\<in>leaders C. case x of (t, n) \<Rightarrow> \<exists>A. majority ms A \<and> (\<forall>v\<in>A. (v, t, n) \<in> ballots C)"
    using assms(1) by (simp add: cluster_inv_def)
  then show thesis using assms(2) that by fastforce
qed

text \<open>
  (C1) Election safety: in a cluster of distinct members running the step function, under message
  loss, duplication, delay and reordering, storage failures and crashes with or without the staged
  write on disk, no term ever has two leaders.
\<close>

theorem election_safety:
  assumes "distinct ms" "reachable ms C" "(t, p) \<in> leaders C" "(t, q) \<in> leaders C"
  shows "p = q"
proof -
  have inv: "cluster_inv ms C" by (rule reachable_inv [OF assms(2,1)])
  obtain A where A: "majority ms A" "\<forall>v\<in>A. (v, t, p) \<in> ballots C"
    by (rule leader_majority [OF inv assms(3)])
  obtain B where B: "majority ms B" "\<forall>v\<in>B. (v, t, q) \<in> ballots C"
    by (rule leader_majority [OF inv assms(4)])
  have "\<forall>v t p q. (v, t, p) \<in> ballots C \<and> (v, t, q) \<in> ballots C \<longrightarrow> p = q"
    using inv by (simp add: cluster_inv_def)
  then have unique: "(v, t, x) \<in> ballots C \<Longrightarrow> (v, t, y) \<in> ballots C \<Longrightarrow> x = y" for v x y
    by blast
  show ?thesis
    by (rule majorities.unique_winner [where vote = "\<lambda>v x. (v, t, x) \<in> ballots C", OF A(1) B(1) A(2) B(2)])
      (rule unique)
qed

definition act_on :: "string list \<Rightarrow> Cluster \<Rightarrow> string \<Rightarrow> Input \<Rightarrow> Cluster" where
  "act_on ms C n i =
     (let r = step (config_for ms n) (nodes C n) i in place C n (fst r) (send_now (snd r)))"

lemma reachable_act:
  "reachable ms C \<Longrightarrow> n \<in> set ms \<Longrightarrow> authentic C n i \<Longrightarrow> reachable ms (act_on ms C n i)"
  unfolding act_on_def Let_def
  by (rule reachable.more, assumption) (rule cluster_step.act [OF _ _ surjective_pairing])

lemma act_on_simps:
  "nodes (act_on ms C n i) m =
     (if m = n then fst (step (config_for ms n) (nodes C n) i) else nodes C m)"
  "soup (act_on ms C n i) =
     soup C \<union> set (send_now (snd (step (config_for ms n) (nodes C n) i)))"
  "leaders (act_on ms C n i) =
     leaders C \<union> own_lead n (fst (step (config_for ms n) (nodes C n) i))"
  by (simp_all add: act_on_def place_def Let_def)

abbreviation trio :: "string list" where
  "trio \<equiv> [''n1'', ''n2'', ''n3'']"

definition trio_request :: RequestVote where
  "trio_request =
     \<lparr>rv_term = 1, rv_candidate = ''n1'', rv_last_index = 0, rv_last_term = 0, rv_request_id = 1\<rparr>"

definition trio_reply :: VoteReply where
  "trio_reply = \<lparr>vr_term = 1, vr_voter = ''n2'', vr_granted = True, vr_request_id = 1\<rparr>"

definition candidate_pending :: Node where
  "candidate_pending = fst (step (config_for trio ''n1'') (initial (config_for trio ''n1'')) ElectionTimeout)"

definition candidate :: Node where
  "candidate = fst (step (config_for trio ''n1'') candidate_pending (PersistCompleted 1))"

definition voter_pending :: Node where
  "voter_pending = fst (step (config_for trio ''n2'') (initial (config_for trio ''n2''))
     (RecvRequestVote trio_request))"

lemmas eval_election = trio_request_def trio_reply_def own_lead_def config_for_def
  on_election_timeout_def on_vote_reply_def add_vote_def become_leader_def send_append_def
  set_progress_def append_request_def probe_of_def sm_modify_def quorum_def eval_raft

lemma candidate_pending_eq:
  "candidate_pending =
     (initial (config_for trio ''n1''))
       \<lparr>volatile_state := (initial_volatile (config_for trio ''n1''))\<lparr>role := Candidate\<rparr>,
        pending := Some
          \<lparr>pw_token = 1, target = empty_durable\<lparr>d_term := 1, voted_for := Some ''n1''\<rparr>,
           after = vote_requests (config_for trio ''n1'')
             (empty_durable\<lparr>d_term := 1, voted_for := Some ''n1''\<rparr>) 1 [''n2'', ''n3''],
           apply_after = [], self_vote = True, snapshot_after = []\<rparr>,
        next_token := 2, next_request_id := 3\<rparr>"
  by (simp add: candidate_pending_def eval_election)

lemma candidate_eq:
  "candidate =
     (initial (config_for trio ''n1''))
       \<lparr>durable := empty_durable\<lparr>d_term := 1, voted_for := Some ''n1''\<rparr>,
        volatile_state := (initial_volatile (config_for trio ''n1''))\<lparr>role := Candidate, votes := {''n1''}\<rparr>,
        next_token := 2, next_request_id := 3\<rparr>"
  by (simp add: candidate_def candidate_pending_eq eval_election)

lemma voter_reply:
  "send_now (snd (step (config_for trio ''n2'') voter_pending (PersistCompleted 1))) =
     [\<lparr>ob_to = ''n1'', ob_message = MVoteReply trio_reply\<rparr>]"
  by (simp add: voter_pending_def eval_election)

lemma trio_roles:
  "own_lead ''n1'' candidate_pending = {}" "own_lead ''n1'' candidate = {}"
  "own_lead ''n2'' voter_pending = {}"
  "own_lead ''n2'' (fst (step (config_for trio ''n2'') voter_pending (PersistCompleted 1))) = {}"
  "own_lead ''n1'' (fst (step (config_for trio ''n1'') candidate (RecvVoteReply trio_reply))) = {(1, ''n1'')}"
  by (simp_all add: candidate_pending_eq candidate_eq voter_pending_def eval_election)

definition trio_voted :: Cluster where
  "trio_voted =
     act_on trio (act_on trio (act_on trio (act_on trio (cluster_init trio)
       ''n1'' ElectionTimeout) ''n1'' (PersistCompleted 1))
       ''n2'' (RecvRequestVote trio_request)) ''n2'' (PersistCompleted 1)"

lemma trio_voted_simps:
  "\<lparr>ob_to = ''n1'', ob_message = MVoteReply trio_reply\<rparr> \<in> soup trio_voted"
  "leaders (act_on trio trio_voted ''n1'' (RecvVoteReply trio_reply)) = {(1, ''n1'')}"
  by (simp_all add: trio_voted_def act_on_simps cluster_init_def trio_roles voter_reply
      flip: candidate_pending_def voter_pending_def candidate_def)

theorem election_safety_witness:
  "\<exists>C. reachable trio C \<and> {q. (1, q) \<in> leaders C} = {''n1''}"
proof -
  let ?C = "act_on trio trio_voted ''n1'' (RecvVoteReply trio_reply)"
  have "reachable trio trio_voted"
    unfolding trio_voted_def by (intro reachable_act reachable.start) (simp_all add: authentic_def)
  then have reach: "reachable trio ?C"
    by (rule reachable_act) (simp_all add: authentic_def trio_voted_simps)
  have lead: "(1, ''n1'') \<in> leaders ?C" by (simp add: trio_voted_simps)
  have "q = ''n1''" if "(1, q) \<in> leaders ?C" for q
    using election_safety [OF _ reach that lead] by simp
  with reach lead show ?thesis by blast
qed

end
