(* ===== verification/Std_Text.thy ===== *)
theory Std_Text
  imports Choreo_Prelude
begin

text \<open>
  The parts of the C++ standard library that the text formats use: decimal output of integers,
  \<open>std::stoll\<close>, \<open>std::stoull\<close> and \<open>std::from_chars\<close> with their treatment of white space, signs,
  trailing characters and range, and \<open>std::getline\<close> with a delimiter.
\<close>

section \<open>Round trips\<close>

text \<open>An encoder with a decoder that reads its output back.\<close>

locale round_trip =
  fixes valid :: "'a \<Rightarrow> bool"
    and enc :: "'a \<Rightarrow> 'b"
    and dec :: "'b \<Rightarrow> 'e + 'a"
  assumes dec_enc: "valid x \<Longrightarrow> dec (enc x) = Inr x"
begin

lemma enc_inject: "valid x \<Longrightarrow> valid y \<Longrightarrow> enc x = enc y \<longleftrightarrow> x = y"
  by (metis dec_enc sum.inject(2))

lemma enc_inj_on: "inj_on enc {x. valid x}"
  by (auto simp: inj_on_def enc_inject)

end

section \<open>Digits\<close>

abbreviation code_of :: "char \<Rightarrow> nat" where
  "code_of c \<equiv> of_char c"

definition is_digit :: "char \<Rightarrow> bool" where
  "is_digit c \<longleftrightarrow> 48 \<le> code_of c \<and> code_of c \<le> 57"

definition is_space :: "char \<Rightarrow> bool" where
  "is_space c \<longleftrightarrow> code_of c = 32 \<or> 9 \<le> code_of c \<and> code_of c \<le> 13"

definition digit_char :: "nat \<Rightarrow> char" where
  "digit_char n = char_of (48 + n)"

definition digit_value :: "char \<Rightarrow> nat" where
  "digit_value c = code_of c - 48"

fun show_nat :: "nat \<Rightarrow> string" where
  "show_nat n =
     (if n < 10 then [digit_char n] else show_nat (n div 10) @ [digit_char (n mod 10)])"

declare show_nat.simps [simp del]

definition show_int :: "int \<Rightarrow> string" where
  "show_int i = (if i < 0 then CHR ''-'' # show_nat (nat (- i)) else show_nat (nat i))"

definition read_nat :: "string \<Rightarrow> nat" where
  "read_nat s = foldl (\<lambda>a c. a * 10 + digit_value c) 0 s"

lemma digit_char_simps [simp]:
  "n < 10 \<Longrightarrow> is_digit (digit_char n)" "n < 10 \<Longrightarrow> digit_value (digit_char n) = n"
  by (auto simp: is_digit_def digit_char_def digit_value_def)

lemma show_nat_digits [simp]: "c \<in> set (show_nat n) \<Longrightarrow> is_digit c"
proof (induction n rule: show_nat.induct)
  case (1 n)
  then show ?case by (subst (asm) show_nat.simps) (auto split: if_splits)
qed

lemma show_nat_nonempty [simp]: "show_nat n \<noteq> []"
  by (subst show_nat.simps) simp

lemma read_show_nat [simp]: "read_nat (show_nat n) = n"
proof (induction n rule: show_nat.induct)
  case (1 n)
  then show ?case by (subst show_nat.simps) (auto simp: read_nat_def)
qed

lemma show_nat_inject [simp]: "show_nat m = show_nat n \<longleftrightarrow> m = n"
  by (metis read_show_nat)

lemma takeWhile_show_nat [simp]:
  "rest = [] \<or> \<not> is_digit (hd rest) \<Longrightarrow> takeWhile is_digit (show_nat n @ rest) = show_nat n"
  by (cases rest) auto

lemma takeWhile_show_nat' [simp]: "takeWhile is_digit (show_nat n) = show_nat n"
  using takeWhile_show_nat [of "[]"] by simp

lemma digit_not_special:
  "is_digit c \<Longrightarrow> \<not> is_space c" "is_digit c \<Longrightarrow> c \<noteq> CHR ''-''" "is_digit c \<Longrightarrow> c \<noteq> CHR ''+''"
  "is_digit c \<Longrightarrow> c \<noteq> CHR '';''" "is_digit c \<Longrightarrow> c \<noteq> CHR '' ''" "is_digit c \<Longrightarrow> c \<noteq> CHR 0x0A"
  "is_digit c \<Longrightarrow> c \<noteq> CHR '',''" "is_digit c \<Longrightarrow> c \<noteq> CHR ''=''"
  by (auto simp: is_digit_def is_space_def)

lemma hd_show_nat: "is_digit (hd (show_nat n))"
  using show_nat_digits [of "hd (show_nat n)" n] by simp

section \<open>Integer parsing\<close>

abbreviation in_i64 :: "int \<Rightarrow> bool" where
  "in_i64 i \<equiv> - (2 ^ 63) \<le> i \<and> i < 2 ^ 63"

abbreviation in_i32 :: "int \<Rightarrow> bool" where
  "in_i32 i \<equiv> - (2 ^ 31) \<le> i \<and> i < 2 ^ 31"

text \<open>Narrowing casts and wrapping of signed integers (two's complement).\<close>

definition wrap_i32 :: "int \<Rightarrow> int" where
  "wrap_i32 i = (i + 2 ^ 31) mod 2 ^ 32 - 2 ^ 31"

definition wrap_i64 :: "int \<Rightarrow> int" where
  "wrap_i64 i = (i + 2 ^ 63) mod 2 ^ 64 - 2 ^ 63"

lemma wrap_i32_id [simp]: "in_i32 i \<Longrightarrow> wrap_i32 i = i"
  by (simp add: wrap_i32_def)

lemma wrap_i64_id [simp]: "in_i64 i \<Longrightarrow> wrap_i64 i = i"
  by (simp add: wrap_i64_def)

text \<open>The common prefix of \<open>strtoll\<close> and \<open>strtoull\<close>: white space, an optional sign, digits; what
  follows the digits is ignored. The result is the sign and the magnitude.\<close>

definition scan_integer :: "string \<Rightarrow> (bool \<times> nat) option" where
  "scan_integer s =
     (let s1 = dropWhile is_space s;
          (neg, s2) = (case s1 of
             c # r \<Rightarrow> if c = CHR ''-'' then (True, r) else if c = CHR ''+'' then (False, r) else (False, s1)
           | [] \<Rightarrow> (False, []));
          ds = takeWhile is_digit s2
      in if ds = [] then None else Some (neg, read_nat ds))"

definition stoll :: "string \<Rightarrow> int option" where
  "stoll s =
     Option.bind (scan_integer s)
       (\<lambda>(neg, n). let i = (if neg then - int n else int n) in if in_i64 i then Some i else None)"

definition stoull :: "string \<Rightarrow> u64 option" where
  "stoull s =
     Option.bind (scan_integer s)
       (\<lambda>(neg, n). if n < 2 ^ 64 then Some (if neg then - of_nat n else of_nat n) else None)"

text \<open>\<open>std::from_chars\<close> on the whole text, as the command codec uses it.\<close>

definition from_chars_i64 :: "string \<Rightarrow> int option" where
  "from_chars_i64 s =
     (let (neg, ds) = (case s of c # r \<Rightarrow> if c = CHR ''-'' then (True, r) else (False, s) | [] \<Rightarrow> (False, []));
          i = (if neg then - int (read_nat ds) else int (read_nat ds))
      in if ds = [] \<or> \<not> list_all is_digit ds \<or> \<not> in_i64 i then None else Some i)"

lemma dropWhile_space_digits: "is_digit (hd s) \<Longrightarrow> s \<noteq> [] \<Longrightarrow> dropWhile is_space s = s"
  by (cases s) (simp_all add: digit_not_special)

lemma scan_show_nat: "scan_integer (show_nat n) = Some (False, n)"
proof -
  obtain c r where cr: "show_nat n = c # r" by (cases "show_nat n") auto
  have "is_digit c" using hd_show_nat [of n] cr by simp
  then have "c \<noteq> CHR ''-''" "c \<noteq> CHR ''+''" by (auto dest: digit_not_special)
  then show ?thesis
    using dropWhile_space_digits [OF hd_show_nat, of n] takeWhile_show_nat' [of n] read_show_nat [of n]
    by (simp add: scan_integer_def Let_def cr split: list.split)
qed

lemma scan_show_int: "scan_integer (show_int i) = Some (i < 0, nat \<bar>i\<bar>)"
  by (auto simp: show_int_def scan_show_nat) (simp add: scan_integer_def is_space_def)

lemma stoll_show_int [simp]: "in_i64 i \<Longrightarrow> stoll (show_int i) = Some i"
  by (auto simp: stoll_def scan_show_int)

lemma stoull_show_nat [simp]: "stoull (show_nat (unat w)) = Some w"
  using unat_lt_u64 [of w] by (simp add: stoull_def scan_show_nat)

lemma stoull_show_small [simp]: "n < 2 ^ 64 \<Longrightarrow> stoull (show_nat n) = Some (of_nat n)"
  by (simp add: stoull_def scan_show_nat)

lemma from_chars_show_int [simp]: "in_i64 i \<Longrightarrow> from_chars_i64 (show_int i) = Some i"
proof -
  assume range: "in_i64 i"
  obtain c r where cr: "show_nat (nat \<bar>i\<bar>) = c # r" by (cases "show_nat (nat \<bar>i\<bar>)") auto
  have "is_digit c" using hd_show_nat [of "nat \<bar>i\<bar>"] cr by simp
  then have c: "c \<noteq> CHR ''-''" by (auto dest: digit_not_special)
  have all: "list_all is_digit (show_nat n)" for n by (simp add: list_all_iff)
  show ?thesis
  proof (cases "i < 0")
    case True
    then show ?thesis using range all by (simp add: from_chars_i64_def show_int_def)
  next
    case False
    then have "show_nat (nat i) = c # r" using cr by simp
    then show ?thesis
      using range False c all [of "nat i"] read_show_nat [of "nat i"]
      by (simp add: from_chars_i64_def show_int_def)
  qed
qed

lemma show_int_chars: "c \<in> set (show_int i) \<Longrightarrow> is_digit c \<or> c = CHR ''-''"
  by (auto simp: show_int_def split: if_splits)

lemma show_int_nonempty [simp]: "show_int i \<noteq> []"
  by (simp add: show_int_def)

section \<open>Splitting at a delimiter\<close>

text \<open>The tokens a loop over \<open>std::getline(stream, token, d)\<close> sees: an empty token between two
  delimiters, but none after a final one.\<close>

function getline_split :: "char \<Rightarrow> string \<Rightarrow> string list" where
  "getline_split d s =
     (if s = [] then []
      else takeWhile (\<lambda>c. c \<noteq> d) s #
        (case dropWhile (\<lambda>c. c \<noteq> d) s of [] \<Rightarrow> [] | _ # rest \<Rightarrow> getline_split d rest))"
  by pat_completeness auto
termination
proof (relation "measure (\<lambda>(d, s). length s)")
  fix d :: char and s x rest
  assume "dropWhile (\<lambda>c. c \<noteq> d) s = x # rest"
  then have "Suc (length rest) \<le> length s" by (metis length_Cons length_dropWhile_le)
  then show "((d, rest), d, s) \<in> measure (\<lambda>(d, s). length s)" by simp
qed simp

declare getline_split.simps [simp del]

lemma getline_split_Nil [simp]: "getline_split d [] = []"
  by (simp add: getline_split.simps)

lemma takeWhile_neq:
  "d \<notin> set t \<Longrightarrow> takeWhile (\<lambda>c. c \<noteq> d) (t @ d # rest) = t"
  "d \<notin> set t \<Longrightarrow> dropWhile (\<lambda>c. c \<noteq> d) (t @ d # rest) = d # rest"
  "d \<notin> set t \<Longrightarrow> takeWhile (\<lambda>c. c \<noteq> d) t = t"
  "d \<notin> set t \<Longrightarrow> dropWhile (\<lambda>c. c \<noteq> d) t = []"
  by (induction t) auto

lemma getline_split_Cons:
  "d \<notin> set t \<Longrightarrow> getline_split d (t @ d # rest) = t # getline_split d rest"
  by (subst getline_split.simps) (simp add: takeWhile_neq)

lemma getline_split_last: "d \<notin> set t \<Longrightarrow> t \<noteq> [] \<Longrightarrow> getline_split d t = [t]"
  by (subst getline_split.simps) (simp add: takeWhile_neq)

text \<open>Tokens joined with the delimiter, as the writers of the formats do.\<close>

fun join :: "char \<Rightarrow> string list \<Rightarrow> string" where
  "join d [] = []"
| "join d [t] = t"
| "join d (t # u # ts) = t @ d # join d (u # ts)"

lemma getline_split_join:
  assumes "\<forall>t\<in>set ts. d \<notin> set t \<and> t \<noteq> []"
  shows "getline_split d (join d ts) = ts"
  using assms
  by (induction d ts rule: join.induct) (simp_all add: getline_split_Cons getline_split_last)

end
