(* ===== verification/Domain_Types.thy ===== *)
theory Domain_Types
  imports Std_Text
begin

text \<open>
  Errors and validated domain values: \<open>state/error.hpp\<close>, \<open>error.cpp\<close>, \<open>types.hpp\<close> and \<open>types.cpp\<close>.
  A value class whose constructor is private is the type of its payload together with a predicate
  (\<open>id_ok\<close>, \<open>tick_ok\<close>, \<open>position_ok\<close>, \<open>bounds_ok\<close>) that its factory establishes. Coordinates are
  32-bit and ticks 64-bit signed integers, kept as \<open>int\<close> with the wrapping written out where a
  product could overflow.
\<close>

section \<open>Errors\<close>

datatype ErrorCode =
    EmptyId | InvalidId | InvalidStage | InvalidCoordinate | InvalidTick | InvalidTerm
  | InvalidTravel | OutOfBounds | ChoreographyNotFound | ChoreographyExists | DancerExists
  | DancerNotFound | DancerInactive | PositionOccupied | TravelTooFar | FormationExists
  | FormationNotFound | InvalidFormation | CueExists | CueNotFound | CueDependencyUnmet
  | DuplicateCommand | DuplicateEvent | ConflictingEvent | IndexGap | UnsupportedVersion
  | UnsupportedType | StoreError | NotLeader | Unavailable | ProtocolError | CommandConflict
  | OutcomeUnavailable

datatype Error = Error (code: ErrorCode) (err_message: string)

type_synonym 'a Result = "Error + 'a"

abbreviation fail :: "ErrorCode \<Rightarrow> string \<Rightarrow> 'a Result" where
  "fail c m \<equiv> Inl (Error c m)"

fun error_code_name :: "ErrorCode \<Rightarrow> string" where
  "error_code_name EmptyId = ''EmptyId''"
| "error_code_name InvalidId = ''InvalidId''"
| "error_code_name InvalidStage = ''InvalidStage''"
| "error_code_name InvalidCoordinate = ''InvalidCoordinate''"
| "error_code_name InvalidTick = ''InvalidTick''"
| "error_code_name InvalidTerm = ''InvalidTerm''"
| "error_code_name InvalidTravel = ''InvalidTravel''"
| "error_code_name OutOfBounds = ''OutOfBounds''"
| "error_code_name ChoreographyNotFound = ''ChoreographyNotFound''"
| "error_code_name ChoreographyExists = ''ChoreographyExists''"
| "error_code_name DancerExists = ''DancerExists''"
| "error_code_name DancerNotFound = ''DancerNotFound''"
| "error_code_name DancerInactive = ''DancerInactive''"
| "error_code_name PositionOccupied = ''PositionOccupied''"
| "error_code_name TravelTooFar = ''TravelTooFar''"
| "error_code_name FormationExists = ''FormationExists''"
| "error_code_name FormationNotFound = ''FormationNotFound''"
| "error_code_name InvalidFormation = ''InvalidFormation''"
| "error_code_name CueExists = ''CueExists''"
| "error_code_name CueNotFound = ''CueNotFound''"
| "error_code_name CueDependencyUnmet = ''CueDependencyUnmet''"
| "error_code_name DuplicateCommand = ''DuplicateCommand''"
| "error_code_name DuplicateEvent = ''DuplicateEvent''"
| "error_code_name ConflictingEvent = ''ConflictingEvent''"
| "error_code_name IndexGap = ''IndexGap''"
| "error_code_name UnsupportedVersion = ''UnsupportedVersion''"
| "error_code_name UnsupportedType = ''UnsupportedType''"
| "error_code_name StoreError = ''StoreError''"
| "error_code_name NotLeader = ''NotLeader''"
| "error_code_name Unavailable = ''Unavailable''"
| "error_code_name ProtocolError = ''ProtocolError''"
| "error_code_name CommandConflict = ''CommandConflict''"
| "error_code_name OutcomeUnavailable = ''OutcomeUnavailable''"

definition error_to_string :: "Error \<Rightarrow> string" where
  "error_to_string e = error_code_name (code e) @ '': '' @ err_message e"

section \<open>Identifiers\<close>

abbreviation kTicksPerCount :: int where "kTicksPerCount \<equiv> 480"
abbreviation kMaxStageMm :: int where "kMaxStageMm \<equiv> 1000000"
abbreviation kMaxIdLength :: nat where "kMaxIdLength \<equiv> 64"
abbreviation kCurrentSchemaVersion :: u16 where "kCurrentSchemaVersion \<equiv> 1"

definition is_alnum :: "char \<Rightarrow> bool" where
  "is_alnum c \<longleftrightarrow>
     is_digit c \<or> 65 \<le> code_of c \<and> code_of c \<le> 90 \<or> 97 \<le> code_of c \<and> code_of c \<le> 122"

definition is_allowed_id_char :: "char \<Rightarrow> bool" where
  "is_allowed_id_char c \<longleftrightarrow>
     is_alnum c \<or> c = CHR ''_'' \<or> c = CHR ''.'' \<or> c = CHR '':'' \<or> c = CHR ''-''"

definition parse_id :: "string \<Rightarrow> string Result" where
  "parse_id raw =
     (if raw = [] then fail EmptyId ''id must not be empty''
      else if kMaxIdLength < length raw then fail InvalidId ''id exceeds 64 characters''
      else if \<not> list_all is_allowed_id_char raw then
        fail InvalidId ''id contains an unsupported character''
      else Inr raw)"

definition id_ok :: "string \<Rightarrow> bool" where
  "id_ok s \<longleftrightarrow> s \<noteq> [] \<and> length s \<le> kMaxIdLength \<and> list_all is_allowed_id_char s"

lemma parse_id_Inr_iff: "parse_id raw = Inr s \<longleftrightarrow> s = raw \<and> id_ok raw"
  by (auto simp: parse_id_def id_ok_def)

lemma parse_id_ok [simp]: "id_ok s \<Longrightarrow> parse_id s = Inr s"
  by (simp add: parse_id_Inr_iff)

lemma id_ok_nonempty [simp]: "id_ok s \<Longrightarrow> s \<noteq> []"
  by (simp add: id_ok_def)

lemma id_char_not_special:
  "is_allowed_id_char c \<Longrightarrow> c \<noteq> CHR '';''" "is_allowed_id_char c \<Longrightarrow> c \<noteq> CHR '',''"
  "is_allowed_id_char c \<Longrightarrow> c \<noteq> CHR ''=''" "is_allowed_id_char c \<Longrightarrow> c \<noteq> CHR '' ''"
  "is_allowed_id_char c \<Longrightarrow> c \<noteq> CHR 0x0A" "is_allowed_id_char c \<Longrightarrow> \<not> is_space c"
  by (auto simp: is_allowed_id_char_def is_alnum_def is_digit_def is_space_def)

lemma id_ok_free:
  "id_ok s \<Longrightarrow> CHR '';'' \<notin> set s" "id_ok s \<Longrightarrow> CHR '','' \<notin> set s" "id_ok s \<Longrightarrow> CHR ''='' \<notin> set s"
  "id_ok s \<Longrightarrow> CHR '' '' \<notin> set s" "id_ok s \<Longrightarrow> CHR 0x0A \<notin> set s"
  by (auto simp: id_ok_def list_all_iff dest: id_char_not_special)

section \<open>Log positions, terms and musical time\<close>

definition parse_log_index :: "u64 \<Rightarrow> u64 Result" where
  "parse_log_index v = Inr v"

definition next_log_index :: "u64 \<Rightarrow> u64" where
  "next_log_index i = i + 1"

definition parse_term :: "u64 \<Rightarrow> u64 Result" where
  "parse_term v = (if v = 0 then fail InvalidTerm ''term must be greater than zero'' else Inr v)"

definition next_term :: "u64 \<Rightarrow> u64 Result" where
  "next_term t = (if t = max_u64 then fail StoreError ''term overflow'' else Inr (t + 1))"

definition from_ticks :: "int \<Rightarrow> int Result" where
  "from_ticks t = (if t < 0 then fail InvalidTick ''musical ticks must be non-negative'' else Inr t)"

definition from_count :: "int \<Rightarrow> int Result" where
  "from_count n =
     (if n < 0 then fail InvalidTick ''count must be non-negative''
      else if (2 ^ 63 - 1) div kTicksPerCount < n then
        fail InvalidTick ''count is too large to convert to ticks''
      else Inr (wrap_i64 (n * kTicksPerCount)))"

definition count_floor :: "int \<Rightarrow> int" where
  "count_floor t = t div kTicksPerCount"

definition tick_ok :: "int \<Rightarrow> bool" where
  "tick_ok t \<longleftrightarrow> 0 \<le> t \<and> t < 2 ^ 63"

lemma from_ticks_ok [simp]: "tick_ok t \<Longrightarrow> from_ticks t = Inr t"
  by (simp add: from_ticks_def tick_ok_def)

lemma from_count_exact:
  assumes "from_count n = Inr t"
  shows "t = n * kTicksPerCount" "tick_ok t" "count_floor t = n"
proof -
  have n: "0 \<le> n" "n \<le> (2 ^ 63 - 1) div kTicksPerCount"
    using assms by (auto simp: from_count_def split: if_splits)
  then have "n * kTicksPerCount < 2 ^ 63" by simp
  then show t: "t = n * kTicksPerCount"
    using assms n by (auto simp: from_count_def split: if_splits)
  then show "tick_ok t" using n by (simp add: tick_ok_def)
  show "count_floor t = n" by (simp add: t count_floor_def)
qed

section \<open>Geometry\<close>

record Position =
  pos_x :: int
  pos_y :: int

record StageBounds =
  width :: int
  depth :: int

datatype OverlapPolicy = Forbidden | Allowed

definition coordinate_from_mm :: "int \<Rightarrow> int Result" where
  "coordinate_from_mm mm =
     (if mm < 0 then fail InvalidCoordinate ''coordinate must be non-negative''
      else if kMaxStageMm < mm then
        fail InvalidCoordinate ''coordinate exceeds the 1km implementation limit''
      else Inr mm)"

definition position_from_mm :: "int \<Rightarrow> int \<Rightarrow> Position Result" where
  "position_from_mm x_mm y_mm =
     bindE (coordinate_from_mm x_mm) (\<lambda>x.
     bindE (coordinate_from_mm y_mm) (\<lambda>y.
     Inr \<lparr>pos_x = x, pos_y = y\<rparr>))"

definition stage_create :: "int \<Rightarrow> int \<Rightarrow> StageBounds Result" where
  "stage_create w d =
     (if w \<le> 0 \<or> d \<le> 0 then fail InvalidStage ''stage width and depth must be greater than zero''
      else Inr \<lparr>width = w, depth = d\<rparr>)"

definition stage_from_mm :: "int \<Rightarrow> int \<Rightarrow> StageBounds Result" where
  "stage_from_mm width_mm depth_mm =
     bindE (coordinate_from_mm width_mm) (\<lambda>w.
     bindE (coordinate_from_mm depth_mm) (\<lambda>d. stage_create w d))"

definition contains :: "StageBounds \<Rightarrow> Position \<Rightarrow> bool" where
  "contains b p \<longleftrightarrow> pos_x p \<le> width b \<and> pos_y p \<le> depth b"

definition squared_distance_mm :: "Position \<Rightarrow> Position \<Rightarrow> int" where
  "squared_distance_mm from to =
     (let dx = wrap_i64 (pos_x to - pos_x from);
          dy = wrap_i64 (pos_y to - pos_y from)
      in wrap_i64 (wrap_i64 (dx * dx) + wrap_i64 (dy * dy)))"

definition travel_within_limit :: "Position \<Rightarrow> Position \<Rightarrow> int \<Rightarrow> bool" where
  "travel_within_limit from to max_travel_mm \<longleftrightarrow>
     squared_distance_mm from to \<le> wrap_i64 (max_travel_mm * max_travel_mm)"

definition position_ok :: "Position \<Rightarrow> bool" where
  "position_ok p \<longleftrightarrow> 0 \<le> pos_x p \<and> pos_x p \<le> kMaxStageMm \<and> 0 \<le> pos_y p \<and> pos_y p \<le> kMaxStageMm"

definition bounds_ok :: "StageBounds \<Rightarrow> bool" where
  "bounds_ok b \<longleftrightarrow> 0 < width b \<and> width b \<le> kMaxStageMm \<and> 0 < depth b \<and> depth b \<le> kMaxStageMm"

lemma position_from_mm_Inr_iff:
  "position_from_mm x y = Inr p \<longleftrightarrow> p = \<lparr>pos_x = x, pos_y = y\<rparr> \<and> position_ok p"
  by (auto simp: position_from_mm_def coordinate_from_mm_def position_ok_def)

lemma stage_from_mm_Inr_iff:
  "stage_from_mm w d = Inr b \<longleftrightarrow> b = \<lparr>width = w, depth = d\<rparr> \<and> bounds_ok b"
  by (auto simp: stage_from_mm_def coordinate_from_mm_def stage_create_def bounds_ok_def)

lemma position_from_mm_ok [simp]: "position_ok p \<Longrightarrow> position_from_mm (pos_x p) (pos_y p) = Inr p"
  by (simp add: position_from_mm_Inr_iff)

lemma stage_from_mm_ok [simp]: "bounds_ok b \<Longrightarrow> stage_from_mm (width b) (depth b) = Inr b"
  by (simp add: stage_from_mm_Inr_iff)

lemma square_bound:
  fixes a :: int
  assumes "\<bar>a\<bar> \<le> n"
  shows "0 \<le> a * a" "a * a \<le> n * n"
  using assms by (auto intro: abs_le_square_iff [THEN iffD1, of a n, simplified power2_eq_square])

lemma wrap_i64_small: "\<bar>i\<bar> \<le> 5000000000000000000 \<Longrightarrow> wrap_i64 i = i"
  by (rule wrap_i64_id) (simp, linarith)

lemma squared_distance_exact:
  assumes "position_ok p" "position_ok q"
  shows "squared_distance_mm p q = (pos_x q - pos_x p)\<^sup>2 + (pos_y q - pos_y p)\<^sup>2"
proof -
  let ?dx = "pos_x q - pos_x p" and ?dy = "pos_y q - pos_y p"
  have d: "\<bar>?dx\<bar> \<le> kMaxStageMm" "\<bar>?dy\<bar> \<le> kMaxStageMm"
    using assms by (auto simp: position_ok_def)
  note sq = square_bound [OF d(1)] square_bound [OF d(2)]
  have "wrap_i64 ?dx = ?dx" "wrap_i64 ?dy = ?dy"
    by (rule wrap_i64_small, use d in linarith)+
  moreover have "wrap_i64 (?dx * ?dx) = ?dx * ?dx" "wrap_i64 (?dy * ?dy) = ?dy * ?dy"
    "wrap_i64 (?dx * ?dx + ?dy * ?dy) = ?dx * ?dx + ?dy * ?dy"
    by (rule wrap_i64_small, use sq in linarith)+
  ultimately show ?thesis
    unfolding squared_distance_mm_def Let_def power2_eq_square by (simp only:)
qed

lemma travel_limit_exact:
  assumes "in_i32 m"
  shows "wrap_i64 (m * m) = m\<^sup>2"
proof -
  have "\<bar>m\<bar> \<le> 2 ^ 31" using assms by auto
  from square_bound [OF this] have "wrap_i64 (m * m) = m * m"
    by (intro wrap_i64_small) simp
  then show ?thesis by (simp add: power2_eq_square)
qed

text \<open>
  The travel check is exact: for validated positions and any 32-bit limit, no intermediate
  64-bit product overflows, and the check holds exactly when the squared Euclidean distance is at
  most the squared limit.
\<close>

theorem travel_check_exact:
  assumes "position_ok p" "position_ok q" "in_i32 limit"
  shows "travel_within_limit p q limit \<longleftrightarrow>
    (pos_x q - pos_x p)\<^sup>2 + (pos_y q - pos_y p)\<^sup>2 \<le> limit\<^sup>2"
  using assms by (simp add: travel_within_limit_def squared_distance_exact travel_limit_exact)

theorem travel_check_exact_witness:
  "travel_within_limit \<lparr>pos_x = 0, pos_y = 1000000\<rparr> \<lparr>pos_x = 1000000, pos_y = 0\<rparr> 1414214 \<and>
   \<not> travel_within_limit \<lparr>pos_x = 0, pos_y = 1000000\<rparr> \<lparr>pos_x = 1000000, pos_y = 0\<rparr> 1414213"
  using travel_check_exact [of "\<lparr>pos_x = 0, pos_y = 1000000\<rparr>" "\<lparr>pos_x = 1000000, pos_y = 0\<rparr>"]
  by (simp add: position_ok_def)

text \<open>
  Converting a whole count to ticks is exact whenever it succeeds: the guard excludes every
  count whose product with 480 would overflow 64 bits, the result is a valid tick, and dividing by
  480 gives the count back.
\<close>

theorem count_to_ticks_exact:
  assumes "from_count n = Inr t"
  shows "t = n * kTicksPerCount \<and> tick_ok t \<and> count_floor t = n"
  using from_count_exact [OF assms] by simp

theorem count_to_ticks_exact_witness:
  "from_count 19215358410114116 = Inr 9223372036854775680 \<and> count_floor 9223372036854775680 = 19215358410114116"
  using count_to_ticks_exact [of 19215358410114116 9223372036854775680]
  by (simp add: from_count_def wrap_i64_def)

end
