(* ===== verification/Storage_Bytes.thy ===== *)
theory Storage_Bytes
  imports Domain_Types
begin

unbundle bit_operations_syntax

text \<open>
  Byte strings as files and frames hold them: little-endian integers written into and read from a
  buffer (\<open>storage/file_util.cpp\<close>, \<open>protocol/frame.cpp\<close>) and the CRC-32 of \<open>storage/crc32.cpp\<close>,
  with the fact every format above it rests on: a checksum changes when a single byte does.
\<close>

section \<open>Buffers\<close>

definition put :: "string \<Rightarrow> nat \<Rightarrow> string \<Rightarrow> string" where
  "put out offset bs = take offset out @ bs @ drop (offset + length bs) out"

definition sub_bytes :: "string \<Rightarrow> nat \<Rightarrow> nat \<Rightarrow> string" where
  "sub_bytes bs offset n = take n (drop offset bs)"

definition zeros :: "nat \<Rightarrow> string" where
  "zeros n = replicate n (char_of (0 :: nat))"

definition byte_of :: "'a::len word \<Rightarrow> nat \<Rightarrow> char" where
  "byte_of v i = char_of (unat (drop_bit (8 * i) v AND 255))"

definition le_bytes :: "nat \<Rightarrow> 'a::len word \<Rightarrow> string" where
  "le_bytes n v = map (byte_of v) [0..<n]"

definition read_le :: "nat \<Rightarrow> string \<Rightarrow> nat \<Rightarrow> 'a::len word" where
  "read_le n bs offset =
     fold (\<lambda>i value. value OR push_bit (8 * i) (of_nat (code_of (bs ! (offset + i))))) [0..<n] 0"

definition write_u16 :: "string \<Rightarrow> nat \<Rightarrow> u16 \<Rightarrow> string" where
  "write_u16 out offset v = put out offset (le_bytes 2 v)"

definition write_u32 :: "string \<Rightarrow> nat \<Rightarrow> u32 \<Rightarrow> string" where
  "write_u32 out offset v = put out offset (le_bytes 4 v)"

definition write_u64 :: "string \<Rightarrow> nat \<Rightarrow> u64 \<Rightarrow> string" where
  "write_u64 out offset v = put out offset (le_bytes 8 v)"

definition get_u16 :: "string \<Rightarrow> nat \<Rightarrow> u16" where
  "get_u16 bs offset = read_le 2 bs offset"

definition get_u32 :: "string \<Rightarrow> nat \<Rightarrow> u32" where
  "get_u32 bs offset = read_le 4 bs offset"

definition get_u64 :: "string \<Rightarrow> nat \<Rightarrow> u64" where
  "get_u64 bs offset = read_le 8 bs offset"

lemma length_le_bytes [simp]: "length (le_bytes n v) = n"
  by (simp add: le_bytes_def)

lemma length_zeros [simp]: "length (zeros n) = n"
  by (simp add: zeros_def)

lemma length_put [simp]: "offset + length bs \<le> length out \<Longrightarrow> length (put out offset bs) = length out"
  by (simp add: put_def)

text \<open>A buffer that is filled piece by piece, the rest still zero.\<close>

lemma put_zeros:
  "length done' = offset \<Longrightarrow> length bs \<le> n \<Longrightarrow> put (done' @ zeros n) offset bs = done' @ bs @ zeros (n - length bs)"
  by (simp add: put_def zeros_def)

lemma zeros_0 [simp]: "zeros 0 = []"
  by (simp add: zeros_def)

lemma put_first: "length bs \<le> n \<Longrightarrow> put (zeros n) 0 bs = bs @ zeros (n - length bs)"
  using put_zeros [of "[]" 0 bs n] by simp

lemma write_zeros:
  "length done' = offset \<Longrightarrow> 2 \<le> n \<Longrightarrow> write_u16 (done' @ zeros n) offset a = (done' @ le_bytes 2 a) @ zeros (n - 2)"
  "length done' = offset \<Longrightarrow> 4 \<le> n \<Longrightarrow> write_u32 (done' @ zeros n) offset b = (done' @ le_bytes 4 b) @ zeros (n - 4)"
  "length done' = offset \<Longrightarrow> 8 \<le> n \<Longrightarrow> write_u64 (done' @ zeros n) offset c = (done' @ le_bytes 8 c) @ zeros (n - 8)"
  by (simp_all add: write_u16_def write_u32_def write_u64_def put_zeros)

lemma sub_bytes_append:
  "length pre = offset \<Longrightarrow> length bs = n \<Longrightarrow> sub_bytes (pre @ bs @ post) offset n = bs"
  by (simp add: sub_bytes_def)

section \<open>Reading back\<close>

lemma bit_fold_or:
  "bit (fold (\<lambda>i value. value OR f i) is acc) k \<longleftrightarrow> bit (acc :: 'a::len word) k \<or> (\<exists>i\<in>set is. bit (f i) k)"
  by (induction "is" arbitrary: acc) (auto simp: bit_or_iff)

lemma mask8: "(255 :: 'a::len word) = mask 8"
  by (simp add: mask_eq_exp_minus_1)

lemma code_byte_of: "code_of (byte_of v i) = unat (take_bit 8 (drop_bit (8 * i) (v :: 'a::len word)))"
proof -
  have "drop_bit (8 * i) v AND 255 = take_bit 8 (drop_bit (8 * i) v)"
    unfolding mask8 by (simp add: take_bit_eq_mask)
  moreover have "unat (take_bit 8 (drop_bit (8 * i) v)) < 256"
    using take_bit_nat_less_exp [of 8 "unat (drop_bit (8 * i) v)"] by (simp add: unsigned_take_bit_eq)
  ultimately show ?thesis by (simp add: byte_of_def)
qed

lemma bit_of_byte:
  "bit (of_nat (code_of (byte_of (v :: 'a::len word) i)) :: 'a word) j \<longleftrightarrow> j < 8 \<and> bit v (8 * i + j)"
proof -
  have "(of_nat (code_of (byte_of v i)) :: 'a word) = take_bit 8 (drop_bit (8 * i) v)"
    by (simp add: code_byte_of)
  then show ?thesis by (simp add: bit_take_bit_iff bit_drop_bit_eq add.commute)
qed

lemma read_le_bytes:
  fixes v :: "'a::len word"
  assumes "LENGTH('a) \<le> 8 * n" "length pre = offset"
  shows "read_le n (pre @ le_bytes n v @ post) offset = v"
proof (rule bit_word_eqI)
  fix k assume k: "k < LENGTH('a)"
  have at: "(pre @ le_bytes n v @ post) ! (offset + i) = byte_of v i" if "i < n" for i
    using that assms(2) by (simp add: nth_append le_bytes_def)
  have "bit (read_le n (pre @ le_bytes n v @ post) offset :: 'a word) k \<longleftrightarrow>
      (\<exists>i<n. 8 * i \<le> k \<and> k - 8 * i < 8 \<and> bit v (8 * i + (k - 8 * i)))"
    unfolding read_le_def bit_fold_or using k
    by (auto simp: at bit_push_bit_iff bit_of_byte)
  also have "\<dots> \<longleftrightarrow> bit v k"
  proof
    assume "bit v k"
    moreover have "k div 8 < n" using k assms(1) by linarith
    moreover have "8 * (k div 8) \<le> k" "k - 8 * (k div 8) < 8" by linarith+
    ultimately show "\<exists>i<n. 8 * i \<le> k \<and> k - 8 * i < 8 \<and> bit v (8 * i + (k - 8 * i))"
      by (intro exI [of _ "k div 8"]) simp
  qed auto
  finally show "bit (read_le n (pre @ le_bytes n v @ post) offset :: 'a word) k = bit v k" .
qed

lemma read_le_shift: "read_le n (pre @ bs) (length pre + k) = read_le n bs k"
  by (simp add: read_le_def add.assoc)

lemma read_le_prefix: "k + n \<le> length bs \<Longrightarrow> read_le n (bs @ post) k = read_le n bs k"
  unfolding read_le_def by (rule fold_cong) (auto simp: nth_append)

lemma get_shift:
  "get_u16 (pre @ bs) (length pre + k) = get_u16 bs k" "get_u16 (pre @ bs) (length pre) = get_u16 bs 0"
  "get_u32 (pre @ bs) (length pre + k) = get_u32 bs k" "get_u32 (pre @ bs) (length pre) = get_u32 bs 0"
  "get_u64 (pre @ bs) (length pre + k) = get_u64 bs k" "get_u64 (pre @ bs) (length pre) = get_u64 bs 0"
  using read_le_shift [where k = 0] by (simp_all add: get_u16_def get_u32_def get_u64_def read_le_shift)

lemma get_prefix:
  "k + 2 \<le> length bs \<Longrightarrow> get_u16 (bs @ post) k = get_u16 bs k"
  "k + 4 \<le> length bs \<Longrightarrow> get_u32 (bs @ post) k = get_u32 bs k"
  "k + 8 \<le> length bs \<Longrightarrow> get_u64 (bs @ post) k = get_u64 bs k"
  by (simp_all add: get_u16_def get_u32_def get_u64_def read_le_prefix)

lemma get_written:
  "length pre = offset \<Longrightarrow> get_u16 (pre @ le_bytes 2 a @ post) offset = a"
  "length pre = offset \<Longrightarrow> get_u32 (pre @ le_bytes 4 b @ post) offset = b"
  "length pre = offset \<Longrightarrow> get_u64 (pre @ le_bytes 8 c @ post) offset = c"
  by (simp_all add: get_u16_def get_u32_def get_u64_def read_le_bytes)

lemma bit_code_of:
  "bit (of_nat (code_of c) :: 'a::len word) j \<Longrightarrow> j < 8"
proof -
  have "take_bit 8 (of_nat (code_of c)) = (of_nat (take_bit 8 (code_of c)) :: 'a word)"
    by (simp add: take_bit_of_nat)
  also have "take_bit 8 (code_of c) = code_of c"
    using nat_of_char_less_256 [of c] by (simp add: take_bit_nat_eq_self_iff)
  finally show "bit (of_nat (code_of c) :: 'a word) j \<Longrightarrow> j < 8"
    by (metis bit_take_bit_iff)
qed

lemma byte_of_read_le:
  assumes "8 * n \<le> LENGTH('a)" "i < n"
  shows "byte_of (read_le n bs offset :: 'a::len word) i = bs ! (offset + i)"
proof -
  let ?c = "bs ! (offset + i)" and ?r = "read_le n bs offset :: 'a word"
  have "take_bit 8 (drop_bit (8 * i) ?r) = of_nat (code_of ?c)"
  proof (rule bit_word_eqI)
    fix j assume "j < LENGTH('a)"
    have only: "i' = i" if "8 * i' \<le> 8 * i + j" "8 * i + j - 8 * i' < 8" "j < 8" for i'
      using that by linarith
    have "bit ?r (8 * i + j) \<longleftrightarrow> bit (of_nat (code_of ?c) :: 'a word) j" if j: "j < 8"
    proof -
      let ?at = "\<lambda>i'. bit (push_bit (8 * i') (of_nat (code_of (bs ! (offset + i')))) :: 'a word) (8 * i + j)"
      have "8 * i + j < LENGTH('a)" using j assms by linarith
      then have "?at i' \<longleftrightarrow> i' = i \<and> bit (of_nat (code_of ?c) :: 'a word) j" for i'
        using only [of i', OF _ _ j] bit_code_of [of "bs ! (offset + i')" "8 * i + j - 8 * i'"]
        by (cases "i' = i") (auto simp: bit_push_bit_iff)
      then show ?thesis unfolding read_le_def bit_fold_or using assms(2) by simp
    qed
    then show "bit (take_bit 8 (drop_bit (8 * i) ?r)) j = bit (of_nat (code_of ?c) :: 'a word) j"
      by (auto simp: bit_take_bit_iff bit_drop_bit_eq add.commute dest: bit_code_of)
  qed
  then have "code_of (byte_of ?r i) = unat (of_nat (code_of ?c) :: 'a word)"
    by (simp add: code_byte_of)
  also have "\<dots> = code_of ?c"
  proof -
    have "code_of ?c < 2 ^ 8" using nat_of_char_less_256 [of ?c] by simp
    also have "(2::nat) ^ 8 \<le> 2 ^ LENGTH('a)" using assms by (intro power_increasing) auto
    finally have "code_of ?c < 2 ^ LENGTH('a)" .
    then show ?thesis by (simp add: unat_of_nat)
  qed
  finally show ?thesis by simp
qed

lemma le_bytes_read_le:
  assumes "8 * n \<le> LENGTH('a)" "offset + n \<le> length bs"
  shows "le_bytes n (read_le n bs offset :: 'a::len word) = sub_bytes bs offset n"
  using assms by (intro nth_equalityI) (simp_all add: le_bytes_def sub_bytes_def byte_of_read_le)

lemma le_bytes_inject: "LENGTH('a) \<le> 8 * n \<Longrightarrow> le_bytes n v = le_bytes n w \<longleftrightarrow> v = (w :: 'a::len word)"
  using read_le_bytes [where pre = "[]" and post = "[]"] by (metis append.left_neutral list.size(3))

section \<open>CRC-32\<close>

lemma xor_cancel: "x XOR y = z XOR y \<longleftrightarrow> x = z" "y XOR x = y XOR z \<longleftrightarrow> x = z" for x y z :: "'a::len word"
  by (auto simp: bit_eq_iff bit_xor_iff)

definition crc_bit :: "u32 \<Rightarrow> u32" where
  "crc_bit crc =
     (let low_bit = crc AND 1; shifted = drop_bit 1 crc in
      if low_bit \<noteq> 0 then shifted XOR 0xEDB88320 else shifted)"

definition crc_byte :: "u32 \<Rightarrow> char \<Rightarrow> u32" where
  "crc_byte crc b = (crc_bit ^^ 8) (crc XOR of_nat (code_of b))"

definition crc32 :: "string \<Rightarrow> u32" where
  "crc32 bs = NOT (foldl crc_byte 0xFFFFFFFF bs)"

lemma crc_bit_top: "bit (crc_bit c) 31 = bit c 0"
proof -
  have "bit (drop_bit 1 c) 31 = False"
    by (auto simp: bit_drop_bit_eq dest: bit_imp_le_length)
  moreover have "bit (0xEDB88320 :: u32) 31" by simp
  moreover have "c AND 1 \<noteq> 0 \<longleftrightarrow> bit c 0" by (simp add: and_one_eq odd_iff_mod_2_eq_one bit_0)
  ultimately show ?thesis by (simp add: crc_bit_def Let_def bit_xor_iff)
qed

lemma crc_bit_inject: "crc_bit c = crc_bit d \<longleftrightarrow> c = d"
proof
  assume eq: "crc_bit c = crc_bit d"
  then have low: "bit c 0 = bit d 0" using crc_bit_top by metis
  then have "c AND 1 = d AND 1" by (simp add: and_one_eq mod_2_eq_odd bit_0)
  then have shifted: "drop_bit 1 c = drop_bit 1 d"
    using eq by (simp add: crc_bit_def Let_def xor_cancel split: if_splits)
  show "c = d"
  proof (rule bit_word_eqI)
    fix k
    have "bit (drop_bit 1 c) (k - 1) = bit (drop_bit 1 d) (k - 1)" using shifted by simp
    then show "bit c k = bit d k" using low by (cases k) (simp_all add: bit_drop_bit_eq)
  qed
qed simp

lemma crc_bits_inject: "(crc_bit ^^ n) c = (crc_bit ^^ n) d \<longleftrightarrow> c = d"
  by (induction n arbitrary: c d) (simp_all add: crc_bit_inject)

lemma unat_code_of [simp]: "unat (of_nat (code_of c) :: u32) = code_of c"
proof -
  have "code_of c < 2 ^ 32" using nat_of_char_less_256 [of c] by (rule less_trans) simp
  then show ?thesis by (simp add: unat_of_nat)
qed

lemma crc_byte_inject:
  "crc_byte c b = crc_byte d b \<longleftrightarrow> c = d" "crc_byte c b = crc_byte c b' \<longleftrightarrow> b = b'"
proof -
  show "crc_byte c b = crc_byte d b \<longleftrightarrow> c = d"
    unfolding crc_byte_def crc_bits_inject xor_cancel ..
  have "(of_nat (code_of b) :: u32) = of_nat (code_of b') \<longleftrightarrow> b = b'"
    by (metis unat_code_of of_char_eq_iff)
  then show "crc_byte c b = crc_byte c b' \<longleftrightarrow> b = b'"
    unfolding crc_byte_def crc_bits_inject xor_cancel .
qed

lemma crc_fold_inject: "foldl crc_byte c bs = foldl crc_byte d bs \<longleftrightarrow> c = d"
  by (induction bs arbitrary: c d) (simp_all add: crc_byte_inject)

lemma crc32_single_byte: "crc32 (pre @ b # post) = crc32 (pre @ b' # post) \<longleftrightarrow> b = b'"
  by (simp add: crc32_def crc_fold_inject crc_byte_inject)

lemma crc32_update:
  assumes "i < length bs"
  shows "crc32 (bs[i := b]) = crc32 bs \<longleftrightarrow> b = bs ! i"
proof -
  have "bs = take i bs @ bs ! i # drop (Suc i) bs" using assms by (rule id_take_nth_drop)
  moreover have "bs[i := b] = take i bs @ b # drop (Suc i) bs" using assms by (rule upd_conv_take_nth_drop)
  ultimately show ?thesis using crc32_single_byte by metis
qed

section \<open>Data that ends in its own checksum\<close>

definition sealed :: "string \<Rightarrow> bool" where
  "sealed bs \<longleftrightarrow> 4 \<le> length bs \<and> crc32 (take (length bs - 4) bs) = get_u32 bs (length bs - 4)"

lemma sealed_iff: "sealed bs \<longleftrightarrow> (\<exists>body. bs = body @ le_bytes 4 (crc32 body))"
proof
  assume sealed: "sealed bs"
  let ?body = "take (length bs - 4) bs"
  have "le_bytes 4 (get_u32 bs (length bs - 4)) = sub_bytes bs (length bs - 4) 4"
    unfolding get_u32_def using sealed by (intro le_bytes_read_le) (simp_all add: sealed_def)
  also have "\<dots> = drop (length bs - 4) bs"
    using sealed by (simp add: sealed_def sub_bytes_def)
  finally have "bs = ?body @ le_bytes 4 (crc32 ?body)"
    using sealed by (simp add: sealed_def)
  then show "\<exists>body. bs = body @ le_bytes 4 (crc32 body)" ..
next
  assume "\<exists>body. bs = body @ le_bytes 4 (crc32 body)"
  then obtain body where "bs = body @ le_bytes 4 (crc32 body) @ []" by auto
  then show "sealed bs" using get_written(2) [of body "length body" "crc32 body" "[]"] by (simp add: sealed_def)
qed

lemma sealed_single_byte:
  assumes "sealed bs" "i < length bs" "b \<noteq> bs ! i"
  shows "\<not> sealed (bs[i := b])"
proof
  assume "sealed (bs[i := b])"
  then obtain body' where body': "bs[i := b] = body' @ le_bytes 4 (crc32 body')" by (auto simp: sealed_iff)
  obtain body where body: "bs = body @ le_bytes 4 (crc32 body)" using assms(1) by (auto simp: sealed_iff)
  have same: "length body' = length body" using body body' by (metis add_right_cancel length_append length_le_bytes length_list_update)
  show False
  proof (cases "i < length body")
    case True
    then have "body' = body[i := b]" "crc32 body' = crc32 body"
      using body body' same by (simp_all add: list_update_append le_bytes_inject)
    moreover have "body ! i = bs ! i" using True body by (metis nth_append)
    ultimately show False using crc32_update [OF True] assms(3) by simp
  next
    case False
    then have "body' = body" using body body' same by (simp add: list_update_append)
    then show False using body body' assms(2,3) by (metis nth_list_update_eq)
  qed
qed

text \<open>
  The checksum detects every change of a single byte: replacing one byte of any data by a
  different one always changes its CRC-32.
\<close>

theorem crc32_detects_byte_change:
  assumes "i < length bs" "b \<noteq> bs ! i"
  shows "crc32 (bs[i := b]) \<noteq> crc32 bs"
  using crc32_update [OF assms(1), of b] assms(2) by blast

theorem crc32_detects_byte_change_witness:
  "crc32 (''CHOSWAL1''[7 := CHR ''2'']) \<noteq> crc32 ''CHOSWAL1''"
  using crc32_detects_byte_change [of 7 "''CHOSWAL1''" "CHR ''2''"] by simp

end
