(* ===== verification/File_Ops.thy ===== *)
theory File_Ops
  imports Storage_Bytes
begin

text \<open>
  The file primitives of \<open>storage/file_util.cpp\<close>. A file is its byte string. What the operating
  system does to one call is an argument: every failure the code tests for is a constructor of
  \<open>io_fault\<close>, and the result says both what the caller is told and what the file then holds.
  \<open>write_atomic\<close> leaves the old contents or the complete new ones, never a mixture.
\<close>

section \<open>Faults\<close>

datatype io_fault =
    NoFault
  | OpenFails
  | ShortWrite nat
  | FlushFails
  | SyncFails
  | RenameFails
  | DirOpenFails
  | DirSyncFails

definition io_error :: "string \<Rightarrow> 'a Result" where
  "io_error detail = fail StoreError detail"

definition sync_handle :: "io_fault \<Rightarrow> unit Result" where
  "sync_handle fault =
     (if fault = FlushFails then io_error ''flush failed''
      else if fault = SyncFails then io_error ''fsync failed''
      else Inr ())"

text \<open>An empty directory is the current one; an \<open>EINVAL\<close> answer is not an error and counts as \<open>NoFault\<close>.\<close>

definition sync_directory :: "io_fault \<Rightarrow> string \<Rightarrow> unit Result" where
  "sync_directory fault directory =
     (let path = (if directory = [] then ''.'' else directory) in
      if fault = DirOpenFails then io_error (''unable to open directory '' @ path @ '' for sync'')
      else if fault = DirSyncFails then io_error (''fsync failed for directory '' @ path)
      else Inr ())"

definition sync_file :: "io_fault \<Rightarrow> string \<Rightarrow> unit Result" where
  "sync_file fault path =
     (if fault = OpenFails then io_error (''unable to open '' @ path @ '' for sync'') else sync_handle fault)"

text \<open>The bytes \<open>fwrite\<close> gets out and whether it reports all of them.\<close>

definition fwrite :: "io_fault \<Rightarrow> string \<Rightarrow> string \<times> bool" where
  "fwrite fault bytes =
     (case fault of ShortWrite n \<Rightarrow> (take n bytes, length bytes \<le> n) | _ \<Rightarrow> (bytes, True))"

definition append_bytes :: "io_fault \<Rightarrow> string \<Rightarrow> string \<Rightarrow> string \<Rightarrow> bool \<Rightarrow> string \<times> unit Result" where
  "append_bytes fault path file bytes sync =
     (if fault = OpenFails then (file, io_error (''unable to append to '' @ path))
      else let (written, wrote) = fwrite fault bytes in
        (file @ written,
         if \<not> wrote then io_error (''short write to '' @ path)
         else if sync then sync_handle fault
         else if fault = FlushFails then io_error ''flush failed''
         else Inr ()))"

text \<open>
  The temporary file is written first; the destination changes only when the rename succeeds, on the
  POSIX branch of the code. \<open>parent\<close> is the directory of the destination.
\<close>

definition write_atomic ::
  "io_fault \<Rightarrow> string \<Rightarrow> string \<Rightarrow> string option \<Rightarrow> string \<Rightarrow> bool \<Rightarrow> bool option \<Rightarrow> string option \<times> unit Result" where
  "write_atomic fault parent destination old bytes sync sync_dir =
     (let temporary = destination @ ''.tmp'' in
      if fault = OpenFails then (old, io_error (''unable to create '' @ temporary))
      else let (written, wrote) = fwrite fault bytes;
               synced = (if wrote then (if sync then sync_handle fault else Inr ()) else io_error ''short atomic write'') in
      case synced of
        Inl e \<Rightarrow> (old, Inl e)
      | Inr _ \<Rightarrow>
          if fault = RenameFails then (old, io_error (''atomic replace failed for '' @ destination))
          else (Some written,
                if (case sync_dir of Some b \<Rightarrow> b | None \<Rightarrow> sync) then sync_directory fault parent else Inr ()))"

lemma write_atomic_old_or_new:
  "fst (write_atomic fault parent destination old bytes sync sync_dir) \<in> {old, Some bytes}"
  by (cases fault; cases sync; cases sync_dir)
    (simp_all add: write_atomic_def fwrite_def Let_def io_error_def sync_handle_def)

lemma write_atomic_ok:
  "snd (write_atomic fault parent destination old bytes sync sync_dir) = Inr () \<Longrightarrow>
   fst (write_atomic fault parent destination old bytes sync sync_dir) = Some bytes"
  by (cases fault; cases sync; cases sync_dir)
    (simp_all add: write_atomic_def fwrite_def Let_def io_error_def sync_handle_def sync_directory_def split: if_splits)

lemma append_bytes_prefix:
  obtains n where "fst (append_bytes fault path file bytes sync) = file @ take n bytes"
proof (cases fault)
  case OpenFails
  then show ?thesis using that [of 0] by (simp add: append_bytes_def)
next
  case (ShortWrite n)
  then show ?thesis using that [of n] by (simp add: append_bytes_def fwrite_def)
qed (use that [of "length bytes"] in \<open>simp_all add: append_bytes_def fwrite_def\<close>)

lemma append_bytes_ok:
  "snd (append_bytes fault path file bytes sync) = Inr () \<Longrightarrow>
   fst (append_bytes fault path file bytes sync) = file @ bytes"
  by (cases fault) (simp_all add: append_bytes_def fwrite_def io_error_def sync_handle_def split: if_splits)

section \<open>Files that are replaced atomically\<close>

text \<open>
  A file format whose decoder reads back what the encoder wrote. Replacing the file leaves one of the
  two values readable whatever fails on the way, and the new one once the replacement reported success.
\<close>

locale stored_file = round_trip valid enc dec
  for valid :: "'a \<Rightarrow> bool" and enc :: "'a \<Rightarrow> string" and dec :: "string \<Rightarrow> 'e + 'a"
begin

lemma replace_old_or_new:
  assumes "valid x" "valid y"
  obtains bytes where "fst (write_atomic fault parent path (Some (enc x)) (enc y) sync sync_dir) = Some bytes"
    "dec bytes = Inr x \<or> dec bytes = Inr y"
  using write_atomic_old_or_new [of fault parent path "Some (enc x)" "enc y" sync sync_dir] dec_enc assms
  by blast

lemma replace_done:
  assumes "valid y" "snd (write_atomic fault parent path old (enc y) sync sync_dir) = Inr ()"
  obtains bytes where "fst (write_atomic fault parent path old (enc y) sync sync_dir) = Some bytes" "dec bytes = Inr y"
  using write_atomic_ok [OF assms(2)] dec_enc [OF assms(1)] by blast

end

section \<open>Logs that survive a failed append\<close>

text \<open>Appending a list of items, each with what the system does to it, until one append fails.\<close>

fun append_until_failure ::
  "('c \<Rightarrow> 'a \<Rightarrow> 'w \<Rightarrow> 'f \<Rightarrow> 'w \<times> 'f \<times> ('e + unit)) \<Rightarrow> ('c \<times> 'a) list \<Rightarrow> 'w \<Rightarrow> 'f \<Rightarrow> 'w \<times> 'f \<times> ('e + unit)" where
  "append_until_failure append' [] w f = (w, f, Inr ())"
| "append_until_failure append' ((c, x) # ops) w f =
     (case append' c x w f of
        (w', f', Inl e) \<Rightarrow> (w', f', Inl e)
      | (w', f', Inr _) \<Rightarrow> append_until_failure append' ops w' f')"

text \<open>
  What a log promises its client: a successful append adds the item and keeps object and file in
  step; a failed one leaves a file that recovers to the items before it, with or without the new one.
\<close>

locale durable_log =
  fixes ok :: "'w \<Rightarrow> 'f \<Rightarrow> bool" and items :: "'w \<Rightarrow> 'a list" and storable :: "'a \<Rightarrow> bool"
    and append' :: "'c \<Rightarrow> 'a \<Rightarrow> 'w \<Rightarrow> 'f \<Rightarrow> 'w \<times> 'f \<times> ('e + unit)" and recover :: "'f \<Rightarrow> 'e + 'a list"
  assumes append_done: "\<lbrakk>ok w f; storable x; append' c x w f = (w', f', Inr ())\<rbrakk> \<Longrightarrow> ok w' f' \<and> items w' = items w @ [x]"
    and append_failed: "\<lbrakk>ok w f; storable x; append' c x w f = (w', f', Inl e)\<rbrakk> \<Longrightarrow>
      items w' = items w \<and> (recover f' = Inr (items w) \<or> recover f' = Inr (items w @ [x]))"
    and recover_ok: "ok w f \<Longrightarrow> recover f = Inr (items w)"
begin

lemma survives:
  assumes "ok w f" "list_all (\<lambda>(c, x). storable x) ops" "append_until_failure append' ops w f = (w', f', r)"
  shows "\<exists>n. items w' = items w @ map snd (take n ops) \<and> (r = Inr () \<longrightarrow> n = length ops) \<and>
    (recover f' = Inr (items w') \<or> r \<noteq> Inr () \<and> n < length ops \<and> recover f' = Inr (items w' @ [snd (ops ! n)]))"
  using assms
proof (induction ops arbitrary: w f)
  case Nil
  then show ?case using recover_ok by auto
next
  case (Cons op ops)
  obtain c x where op: "op = (c, x)" by fastforce
  obtain w1 f1 r1 where step: "append' c x w f = (w1, f1, r1)" by (metis prod_cases3)
  show ?case
  proof (cases r1)
    case (Inl e)
    then have "w' = w1" "f' = f1" "r = Inl e" using Cons.prems(3) step op by auto
    then show ?thesis
      using append_failed [OF Cons.prems(1), of x c w1 f1 e] Cons.prems(2) step Inl op by (intro exI [of _ 0]) auto
  next
    case (Inr u)
    have first: "ok w1 f1" "items w1 = items w @ [x]"
      using append_done [OF Cons.prems(1), of x c w1 f1] Cons.prems(2) step Inr op by auto
    have "append_until_failure append' ops w1 f1 = (w', f', r)" using Cons.prems(3) step Inr op by simp
    then obtain n where "items w' = items w1 @ map snd (take n ops)" "r = Inr () \<longrightarrow> n = length ops"
      "recover f' = Inr (items w') \<or> r \<noteq> Inr () \<and> n < length ops \<and> recover f' = Inr (items w' @ [snd (ops ! n)])"
      using Cons.IH [OF first(1)] Cons.prems(2) by (metis list.pred_inject(2))
    then show ?thesis using first(2) op by (intro exI [of _ "Suc n"]) auto
  qed
qed

end

end
