(* ===== verification/Checkpoint.thy ===== *)
theory Checkpoint
  imports Raft_Node File_Ops
begin

text \<open>
  The checkpoint file of the transition core (\<open>raft/checkpoint.cpp\<close>): the durable part of a node in
  one checksummed file that is replaced atomically, with the checks that a replacement never takes
  back a term, a vote or a committed entry.
\<close>

section \<open>Checks\<close>

definition kMaximumFileBytes :: nat where
  "kMaximumFileBytes = 16 * 1024 * 1024"

definition kMaximumCommandBytes :: nat where
  "kMaximumCommandBytes = 1024 * 1024"

definition kNoVote :: u32 where
  "kNoVote = - 1"

abbreviation cp_invalid :: "string \<Rightarrow> 'a Result" where
  "cp_invalid why \<equiv> fail StoreError why"

definition bad_entry :: "Durable \<Rightarrow> Entry \<Rightarrow> bool" where
  "bad_entry d e \<longleftrightarrow> e_term e = 0 \<or> d_term d < e_term e \<or> command e = [] \<or> kMaximumCommandBytes < length (command e)"

definition valid_state :: "Durable \<Rightarrow> unit Result" where
  "valid_state d =
     (if snapshot_index d \<noteq> 0 \<or> snapshot_term d \<noteq> 0
      then cp_invalid ''Raft v1 checkpoint cannot store a snapshot boundary''
      else if length (d_log d) < unat (commit d) \<or> commit d < applied d
      then cp_invalid ''Raft checkpoint indexes violate applied <= commit <= log length''
      else if applied d \<noteq> 0
      then cp_invalid ''Raft checkpoint cannot persist applied progress without state-machine snapshot''
      else if (case voted_for d of None \<Rightarrow> False | Some v \<Rightarrow> 64 < length v)
      then cp_invalid ''Raft checkpoint vote ID too large''
      else if kMaximumEntries < length (d_log d) then cp_invalid ''Raft checkpoint log too long''
      else if list_ex (bad_entry d) (d_log d)
      then cp_invalid ''Raft checkpoint entry has invalid term or command length''
      else Inr ())"

definition validate_transition :: "Durable \<Rightarrow> Durable \<Rightarrow> unit Result" where
  "validate_transition old new =
     bindE (valid_state new) (\<lambda>_.
     if d_term new < d_term old \<or> commit new < commit old
     then cp_invalid ''Raft checkpoint cannot roll back term or committed index''
     else if d_term new = d_term old \<and> voted_for old \<noteq> None \<and> voted_for new \<noteq> voted_for old
     then cp_invalid ''Raft checkpoint cannot change a vote in the same term''
     else if length (d_log new) < unat (commit old)
     then cp_invalid ''Raft checkpoint cannot truncate committed entries''
     else if list_ex (\<lambda>i. d_log new ! i \<noteq> d_log old ! i) [0..<unat (commit old)]
     then cp_invalid ''Raft checkpoint cannot rewrite committed prefix''
     else Inr ())"

section \<open>File format\<close>

definition add_u32 :: "u32 \<Rightarrow> string \<Rightarrow> string" where
  "add_u32 v bytes = write_u32 (bytes @ zeros 4) (length bytes) v"

definition add_u64 :: "u64 \<Rightarrow> string \<Rightarrow> string" where
  "add_u64 v bytes = write_u64 (bytes @ zeros 8) (length bytes) v"

definition add_entry :: "Entry \<Rightarrow> string \<Rightarrow> string" where
  "add_entry e bytes = add_u32 (of_nat (length (command e))) (add_u64 (e_term e) bytes) @ command e"

definition encode_checkpoint :: "Durable \<Rightarrow> string Result" where
  "encode_checkpoint d =
     bindE (valid_state d) (\<lambda>_.
     let bytes = ''CHRAFT01'';
         bytes = add_u32 1 bytes;
         bytes = add_u32 0 bytes;
         bytes = add_u64 (d_term d) bytes;
         bytes = add_u64 (commit d) bytes;
         bytes = add_u64 (applied d) bytes;
         bytes = add_u32 (case voted_for d of Some v \<Rightarrow> of_nat (length v) | None \<Rightarrow> kNoVote) bytes;
         bytes = (case voted_for d of Some v \<Rightarrow> bytes @ v | None \<Rightarrow> bytes);
         bytes = add_u32 (of_nat (length (d_log d))) bytes;
         bytes = fold add_entry (d_log d) bytes
     in if kMaximumFileBytes - 4 < length bytes then cp_invalid ''Raft checkpoint exceeds maximum encoded size''
        else let bytes = write_u32 bytes 12 (of_nat (length bytes - 16)) in Inr (add_u32 (crc32 bytes) bytes))"

text \<open>A reader is the cursor into the bytes; each read yields the value and the new cursor.\<close>

definition take_u32 :: "string \<Rightarrow> nat \<Rightarrow> (u32 \<times> nat) option" where
  "take_u32 bytes cursor =
     (if length bytes < cursor \<or> length bytes - cursor < 4 then None else Some (get_u32 bytes cursor, cursor + 4))"

definition take_u64 :: "string \<Rightarrow> nat \<Rightarrow> (u64 \<times> nat) option" where
  "take_u64 bytes cursor =
     (if length bytes < cursor \<or> length bytes - cursor < 8 then None else Some (get_u64 bytes cursor, cursor + 8))"

definition take_string :: "string \<Rightarrow> u32 \<Rightarrow> nat \<Rightarrow> (string \<times> nat) option" where
  "take_string bytes n cursor =
     (if length bytes < cursor \<or> length bytes - cursor < unat n then None
      else Some (sub_bytes bytes cursor (unat n), cursor + unat n))"

definition decode_entry :: "string \<Rightarrow> nat \<Rightarrow> (Entry \<times> nat) Result" where
  "decode_entry bytes cursor =
     (case Option.bind (take_u64 bytes cursor) (\<lambda>(term', cursor).
           Option.bind (take_u32 bytes cursor) (\<lambda>(n, cursor).
           if kMaximumCommandBytes < unat n then None
           else map_option (\<lambda>(text', cursor). (\<lparr>e_term = term', command = text'\<rparr>, cursor)) (take_string bytes n cursor))) of
        None \<Rightarrow> cp_invalid ''Raft checkpoint log entry malformed''
      | Some r \<Rightarrow> Inr r)"

fun decode_entries :: "string \<Rightarrow> nat \<Rightarrow> nat \<Rightarrow> Entry list \<Rightarrow> (Entry list \<times> nat) Result" where
  "decode_entries bytes 0 cursor log = Inr (log, cursor)"
| "decode_entries bytes (Suc n) cursor log =
     bindE (decode_entry bytes cursor) (\<lambda>(e, cursor). decode_entries bytes n cursor (log @ [e]))"

definition decode_vote :: "string \<Rightarrow> u32 \<Rightarrow> nat \<Rightarrow> (string option \<times> nat) Result" where
  "decode_vote bytes vote_len cursor =
     (if vote_len = kNoVote then Inr (None, cursor)
      else if 64 < vote_len then cp_invalid ''Raft checkpoint vote ID too long''
      else case take_string bytes vote_len cursor of
        None \<Rightarrow> cp_invalid ''Raft checkpoint vote incomplete''
      | Some (vote, cursor) \<Rightarrow> Inr (Some vote, cursor))"

definition decode_checkpoint :: "string \<Rightarrow> Durable Result" where
  "decode_checkpoint bytes =
     (if length bytes < 16 + 8 * 3 + 4 + 4 + 4 \<or> kMaximumFileBytes < length bytes
      then cp_invalid ''Raft checkpoint has invalid file size''
      else if take 8 bytes \<noteq> ''CHRAFT01'' \<or> get_u32 bytes 8 \<noteq> 1 \<or> unat (get_u32 bytes 12) \<noteq> length bytes - 20
      then cp_invalid ''Raft checkpoint magic, version, or length invalid''
      else if crc32 (take (length bytes - 4) bytes) \<noteq> get_u32 bytes (length bytes - 4)
      then cp_invalid ''Raft checkpoint checksum mismatch''
      else case Option.bind (take_u64 bytes 16) (\<lambda>(term', cursor).
             Option.bind (take_u64 bytes cursor) (\<lambda>(commit', cursor).
             Option.bind (take_u64 bytes cursor) (\<lambda>(applied', cursor).
             map_option (\<lambda>(vote_len, cursor). (term', commit', applied', vote_len, cursor)) (take_u32 bytes cursor)))) of
        None \<Rightarrow> cp_invalid ''Raft checkpoint has truncated metadata''
      | Some (term', commit', applied', vote_len, cursor) \<Rightarrow>
          bindE (decode_vote bytes vote_len cursor) (\<lambda>(vote, cursor).
          case take_u32 bytes cursor of
            None \<Rightarrow> cp_invalid ''Raft checkpoint log count invalid''
          | Some (count', cursor) \<Rightarrow>
              if kMaximumEntries < unat count' then cp_invalid ''Raft checkpoint log count invalid''
              else bindE (decode_entries bytes (unat count') cursor []) (\<lambda>(log, cursor).
                if cursor \<noteq> length bytes - 4 then cp_invalid ''Raft checkpoint trailing data''
                else let d = empty_durable\<lparr>d_term := term', voted_for := vote, d_log := log, commit := commit', applied := applied'\<rparr>
                  in bindE (valid_state d) (\<lambda>_. Inr d))))"

section \<open>The store\<close>

datatype CheckpointFault = NoCheckpointFault | BeforeReplace | AfterReplace

record CheckpointStore =
  cs_path :: string
  cs_parent :: string
  cs_test_mode :: bool
  cs_current :: Durable
  cs_uncertain :: bool
  cs_fault :: CheckpointFault

text \<open>\<open>stat\<close> is an error of looking for the file, \<open>reading\<close> what reading an existing one reports.\<close>

definition read_checkpoint :: "string option \<Rightarrow> unit Result \<Rightarrow> string option \<Rightarrow> Durable Result" where
  "read_checkpoint stat reading file' =
     (case stat of
        Some why \<Rightarrow> cp_invalid (''Raft checkpoint stat failed: '' @ why)
      | None \<Rightarrow>
          (case file' of
             None \<Rightarrow> Inr empty_durable
           | Some bytes \<Rightarrow> bindE reading (\<lambda>_. decode_checkpoint bytes)))"

text \<open>
  \<open>created\<close> is what creating the directory reports: an error, or whether it was missing.
\<close>

definition cp_open ::
  "string + bool \<Rightarrow> io_fault \<Rightarrow> string option \<Rightarrow> unit Result \<Rightarrow> string \<Rightarrow> string \<Rightarrow> bool \<Rightarrow> string option \<Rightarrow> CheckpointStore Result" where
  "cp_open created fault stat reading directory parent test_mode file' =
     (case created of
        Inl why \<Rightarrow> cp_invalid (''Raft checkpoint directory creation failed: '' @ why)
      | Inr new \<Rightarrow>
          bindE (if new then sync_directory fault parent else Inr ()) (\<lambda>_.
          bindE (read_checkpoint stat reading file') (\<lambda>d.
          Inr \<lparr>cs_path = directory @ ''/raft-core-v1.bin'', cs_parent = directory, cs_test_mode = test_mode,
               cs_current = d, cs_uncertain = False, cs_fault = NoCheckpointFault\<rparr>)))"

definition cp_persist :: "io_fault \<Rightarrow> Durable \<Rightarrow> CheckpointStore \<Rightarrow> string option \<Rightarrow> CheckpointStore \<times> string option \<times> unit Result" where
  "cp_persist io tgt cs file' =
     (if cs_uncertain cs
      then (cs, file', cp_invalid ''Raft checkpoint requires recovery after previous write failure'')
      else case validate_transition (cs_current cs) tgt of
        Inl e \<Rightarrow> (cs, file', Inl e)
      | Inr _ \<Rightarrow>
        (case encode_checkpoint tgt of
           Inl e \<Rightarrow> (cs, file', Inl e)
         | Inr encoded \<Rightarrow>
           let fault = cs_fault cs; cs = cs\<lparr>cs_fault := NoCheckpointFault\<rparr> in
           if fault = BeforeReplace
           then (cs\<lparr>cs_uncertain := True\<rparr>, file', cp_invalid ''injected Raft checkpoint failure before replacement'')
           else case write_atomic io (cs_parent cs) (cs_path cs) file' encoded True (Some True) of
             (held, Inl e) \<Rightarrow> (cs\<lparr>cs_uncertain := True\<rparr>, held, Inl e)
           | (held, Inr _) \<Rightarrow>
               if fault = AfterReplace
               then (cs\<lparr>cs_uncertain := True\<rparr>, held,
                     cp_invalid ''injected Raft checkpoint failure after durable replacement'')
               else (cs\<lparr>cs_current := tgt\<rparr>, held, Inr ())))"

definition cp_recover :: "string option \<Rightarrow> unit Result \<Rightarrow> CheckpointStore \<Rightarrow> string option \<Rightarrow> CheckpointStore \<times> Durable Result" where
  "cp_recover stat reading cs file' =
     (case read_checkpoint stat reading file' of
        Inl e \<Rightarrow> (cs\<lparr>cs_uncertain := True\<rparr>, Inl e)
      | Inr d \<Rightarrow> (cs\<lparr>cs_current := d, cs_uncertain := False, cs_fault := NoCheckpointFault\<rparr>, Inr d))"

definition cp_inject_fault :: "CheckpointFault \<Rightarrow> CheckpointStore \<Rightarrow> CheckpointStore \<times> unit Result" where
  "cp_inject_fault fault cs =
     (if \<not> cs_test_mode cs then (cs, cp_invalid ''Raft checkpoint fault injection requires test mode'')
      else (cs\<lparr>cs_fault := fault\<rparr>, Inr ()))"

end
