(* ===== verification/Checkpoint_Recovery.thy ===== *)
theory Checkpoint_Recovery
  imports Checkpoint
begin

text \<open>
  The checkpoint reads back, and what the transition core asks the checkpoint to store is refused
  only for its size or shape, never as a step backwards.
\<close>

section \<open>Layout\<close>

definition entry_bytes :: "Entry \<Rightarrow> string" where
  "entry_bytes e = le_bytes 8 (e_term e) @ le_bytes 4 (of_nat (length (command e)) :: u32) @ command e"

definition vote_bytes :: "string option \<Rightarrow> string" where
  "vote_bytes vote = (case vote of None \<Rightarrow> le_bytes 4 kNoVote | Some v \<Rightarrow> le_bytes 4 (of_nat (length v) :: u32) @ v)"

definition checkpoint_payload :: "Durable \<Rightarrow> string" where
  "checkpoint_payload d = le_bytes 8 (d_term d) @ le_bytes 8 (commit d) @ le_bytes 8 (applied d) @ vote_bytes (voted_for d)
     @ le_bytes 4 (of_nat (length (d_log d)) :: u32) @ concat (map entry_bytes (d_log d))"

definition checkpoint_body :: "Durable \<Rightarrow> string" where
  "checkpoint_body d = ''CHRAFT01'' @ le_bytes 4 (1 :: u32) @ le_bytes 4 (of_nat (length (checkpoint_payload d)) :: u32)
     @ checkpoint_payload d"

definition checkpoint_bytes :: "Durable \<Rightarrow> string" where
  "checkpoint_bytes d = checkpoint_body d @ le_bytes 4 (crc32 (checkpoint_body d))"

definition checkpoint_ok :: "Durable \<Rightarrow> bool" where
  "checkpoint_ok d \<longleftrightarrow> valid_state d = Inr () \<and> length (checkpoint_payload d) \<le> kMaximumFileBytes - 20"

lemma add_u32_append: "add_u32 v bytes = bytes @ le_bytes 4 v"
  unfolding add_u32_def by (subst write_zeros) simp_all

lemma add_u64_append: "add_u64 v bytes = bytes @ le_bytes 8 v"
  unfolding add_u64_def by (subst write_zeros) simp_all

lemma fold_add_entry: "fold add_entry es bytes = bytes @ concat (map entry_bytes es)"
  by (induction es arbitrary: bytes) (simp_all add: add_entry_def add_u32_append add_u64_append entry_bytes_def)

lemma put_middle: "length bs = length old \<Longrightarrow> put (pre @ old @ post) (length pre) bs = pre @ bs @ post"
  by (simp add: put_def)

lemma encode_checkpoint_layout:
  "encode_checkpoint d = bindE (valid_state d) (\<lambda>_. if length (checkpoint_payload d) \<le> kMaximumFileBytes - 20
     then Inr (checkpoint_bytes d) else cp_invalid ''Raft checkpoint exceeds maximum encoded size'')"
proof -
  let ?draft = "''CHRAFT01'' @ le_bytes 4 (1 :: u32) @ le_bytes 4 (0 :: u32) @ checkpoint_payload d"
  have draft: "fold add_entry (d_log d) (add_u32 (of_nat (length (d_log d)))
      (case voted_for d of
         Some v \<Rightarrow> add_u32 (case voted_for d of Some v \<Rightarrow> of_nat (length v) | None \<Rightarrow> kNoVote)
           (add_u64 (applied d) (add_u64 (commit d) (add_u64 (d_term d) (add_u32 0 (add_u32 1 ''CHRAFT01''))))) @ v
       | None \<Rightarrow> add_u32 (case voted_for d of Some v \<Rightarrow> of_nat (length v) | None \<Rightarrow> kNoVote)
           (add_u64 (applied d) (add_u64 (commit d) (add_u64 (d_term d) (add_u32 0 (add_u32 1 ''CHRAFT01'')))))))
    = ?draft"
    by (cases "voted_for d") (simp_all add: fold_add_entry add_u32_append add_u64_append checkpoint_payload_def vote_bytes_def)
  have "write_u32 ?draft 12 (of_nat (length ?draft - 16)) = checkpoint_body d"
    using put_middle [of "le_bytes 4 (of_nat (length (checkpoint_payload d)) :: u32)" "le_bytes 4 (0 :: u32)"
      "''CHRAFT01'' @ le_bytes 4 (1 :: u32)" "checkpoint_payload d"]
    by (simp add: write_u32_def checkpoint_body_def)
  then show ?thesis
    unfolding encode_checkpoint_def Let_def draft
    by (simp add: checkpoint_bytes_def add_u32_append kMaximumFileBytes_def not_less cong: if_cong)
qed

section \<open>Reading back\<close>

lemma take_u32_at: "take_u32 (pre @ le_bytes 4 v @ post) (length pre) = Some (v, length pre + 4)"
  using get_written(2) [of pre "length pre" v post] by (simp add: take_u32_def)

lemma take_u64_at: "take_u64 (pre @ le_bytes 8 v @ post) (length pre) = Some (v, length pre + 8)"
  using get_written(3) [of pre "length pre" v post] by (simp add: take_u64_def)

lemma take_string_at:
  "unat n = length s \<Longrightarrow> take_string (pre @ s @ post) n (length pre) = Some (s, length pre + length s)"
  by (simp add: take_string_def sub_bytes_def)

lemma unat_len32: "n < 2 ^ 32 \<Longrightarrow> unat (of_nat n :: u32) = n"
  by (simp add: unat_of_nat)

lemma decode_entry_at:
  assumes "length (command e) \<le> kMaximumCommandBytes"
  shows "decode_entry (pre @ entry_bytes e @ post) (length pre) = Inr (e, length pre + length (entry_bytes e))"
proof -
  let ?n = "of_nat (length (command e)) :: u32"
  have n: "unat ?n = length (command e)" using assms by (intro unat_len32) (simp add: kMaximumCommandBytes_def)
  have "take_u64 (pre @ entry_bytes e @ post) (length pre) = Some (e_term e, length pre + 8)"
    using take_u64_at [of pre "e_term e"] by (simp add: entry_bytes_def)
  moreover have "take_u32 (pre @ entry_bytes e @ post) (length pre + 8) = Some (?n, length pre + 12)"
    using take_u32_at [of "pre @ le_bytes 8 (e_term e)" ?n] by (simp add: entry_bytes_def)
  moreover have "take_string (pre @ entry_bytes e @ post) ?n (length pre + 12) = Some (command e, length pre + 12 + length (command e))"
    using take_string_at [OF n, of "pre @ le_bytes 8 (e_term e) @ le_bytes 4 ?n"] by (simp add: entry_bytes_def)
  ultimately show ?thesis using assms n by (simp add: decode_entry_def entry_bytes_def)
qed

lemma decode_entries_at:
  assumes "\<forall>e\<in>set es. length (command e) \<le> kMaximumCommandBytes"
  shows "decode_entries (pre @ concat (map entry_bytes es) @ post) (length es) (length pre) log
    = Inr (log @ es, length pre + length (concat (map entry_bytes es)))"
  using assms
proof (induction es arbitrary: pre log)
  case (Cons e es)
  have "decode_entry (pre @ entry_bytes e @ concat (map entry_bytes es) @ post) (length pre)
      = Inr (e, length pre + length (entry_bytes e))"
    using decode_entry_at Cons.prems by simp
  then show ?case
    using Cons.IH [of "pre @ entry_bytes e" "log @ [e]"] Cons.prems by (simp add: add.assoc)
qed simp

lemma decode_vote_at:
  assumes "pred_option (\<lambda>v. length v \<le> 64) vote"
  defines "n \<equiv> (case vote of Some v \<Rightarrow> of_nat (length v) | None \<Rightarrow> kNoVote)"
  shows "take_u32 (pre @ vote_bytes vote @ post) (length pre) = Some (n, length pre + 4)"
    "decode_vote (pre @ vote_bytes vote @ post) n (length pre + 4) = Inr (vote, length pre + length (vote_bytes vote))"
proof -
  show "take_u32 (pre @ vote_bytes vote @ post) (length pre) = Some (n, length pre + 4)"
    using take_u32_at [of pre n] by (cases vote) (simp_all add: vote_bytes_def n_def)
  show "decode_vote (pre @ vote_bytes vote @ post) n (length pre + 4) = Inr (vote, length pre + length (vote_bytes vote))"
  proof (cases vote)
    case None
    then show ?thesis by (simp add: decode_vote_def n_def vote_bytes_def)
  next
    case (Some v)
    then have len: "length v \<le> 64" using assms(1) by simp
    then have n: "unat n = length v" unfolding n_def Some option.case by (intro unat_len32) simp
    then have "n \<noteq> kNoVote" "\<not> 64 < n"
      using len by (auto simp: kNoVote_def word_less_nat_alt unsigned_minus_1_eq_mask mask_eq_exp_minus_1)
    moreover have "take_string (pre @ vote_bytes vote @ post) n (length pre + 4) = Some (v, length pre + 4 + length v)"
      using take_string_at [OF n, of "pre @ le_bytes 4 n"] by (simp add: vote_bytes_def Some n_def)
    ultimately show ?thesis by (simp add: decode_vote_def Some vote_bytes_def)
  qed
qed

lemma valid_stateD:
  assumes "valid_state d = Inr ()"
  shows "snapshot_index d = 0" "snapshot_term d = 0" "unat (commit d) \<le> length (d_log d)" "applied d = 0"
    "pred_option (\<lambda>v. length v \<le> 64) (voted_for d)" "length (d_log d) \<le> kMaximumEntries"
    "\<forall>e\<in>set (d_log d). \<not> bad_entry d e"
  using assms by (auto simp: valid_state_def list_ex_iff pred_option_def split: if_splits option.splits)

lemma checkpoint_fields:
  "take 8 (checkpoint_bytes d) = ''CHRAFT01''" "get_u32 (checkpoint_bytes d) 8 = 1"
  "get_u32 (checkpoint_bytes d) 12 = of_nat (length (checkpoint_payload d))"
  "length (checkpoint_bytes d) = 20 + length (checkpoint_payload d)"
proof -
  note layout = checkpoint_bytes_def checkpoint_body_def
  show "take 8 (checkpoint_bytes d) = ''CHRAFT01''" "length (checkpoint_bytes d) = 20 + length (checkpoint_payload d)"
    by (simp_all add: layout)
  show "get_u32 (checkpoint_bytes d) 8 = 1"
    using get_written(2) [of "''CHRAFT01''" 8 1] by (simp add: layout)
  show "get_u32 (checkpoint_bytes d) 12 = of_nat (length (checkpoint_payload d))"
    using get_written(2) [of "''CHRAFT01'' @ le_bytes 4 (1 :: u32)" 12 "of_nat (length (checkpoint_payload d))"]
    by (simp add: layout)
qed

lemma checkpoint_metadata:
  fixes d
  defines "b \<equiv> checkpoint_bytes d"
  shows "take_u64 b 16 = Some (d_term d, 24)" "take_u64 b 24 = Some (commit d, 32)" "take_u64 b 32 = Some (applied d, 40)"
proof -
  let ?pre = "''CHRAFT01'' @ le_bytes 4 (1 :: u32) @ le_bytes 4 (of_nat (length (checkpoint_payload d)) :: u32)"
  note layout = b_def checkpoint_bytes_def checkpoint_body_def checkpoint_payload_def
  show "take_u64 b 16 = Some (d_term d, 24)" using take_u64_at [of ?pre "d_term d"] by (simp add: layout)
  show "take_u64 b 24 = Some (commit d, 32)"
    using take_u64_at [of "?pre @ le_bytes 8 (d_term d)" "commit d"] by (simp add: layout)
  show "take_u64 b 32 = Some (applied d, 40)"
    using take_u64_at [of "?pre @ le_bytes 8 (d_term d) @ le_bytes 8 (commit d)" "applied d"] by (simp add: layout)
qed

lemma decode_checkpoint_bytes:
  assumes "checkpoint_ok d"
  shows "decode_checkpoint (checkpoint_bytes d) = Inr d"
proof -
  let ?b = "checkpoint_bytes d" and ?log = "concat (map entry_bytes (d_log d))"
  let ?head = "''CHRAFT01'' @ le_bytes 4 (1 :: u32) @ le_bytes 4 (of_nat (length (checkpoint_payload d)) :: u32)
    @ le_bytes 8 (d_term d) @ le_bytes 8 (commit d) @ le_bytes 8 (applied d)"
  let ?count = "of_nat (length (d_log d)) :: u32" and ?crc = "le_bytes 4 (crc32 (checkpoint_body d))"
  have valid: "valid_state d = Inr ()" and small: "length (checkpoint_payload d) \<le> kMaximumFileBytes - 20"
    using assms by (simp_all add: checkpoint_ok_def)
  note facts = valid_stateD [OF valid]
  note layout = checkpoint_bytes_def checkpoint_body_def checkpoint_payload_def
  have image: "?b = ?head @ vote_bytes (voted_for d) @ le_bytes 4 ?count @ ?log @ ?crc" by (simp add: layout)
  have count: "unat ?count = length (d_log d)" by (rule unat_len32) (use facts(6) in simp)
  note vote = decode_vote_at [OF facts(5), of ?head "le_bytes 4 ?count @ ?log @ ?crc", folded image]
  have counted: "take_u32 ?b (40 + length (vote_bytes (voted_for d))) = Some (?count, 44 + length (vote_bytes (voted_for d)))"
    using take_u32_at [of "?head @ vote_bytes (voted_for d)" ?count "?log @ ?crc"] by (simp add: image)
  have short: "\<forall>e\<in>set (d_log d). length (command e) \<le> kMaximumCommandBytes"
    using facts(7) by (auto simp: bad_entry_def)
  have entries: "decode_entries ?b (length (d_log d)) (44 + length (vote_bytes (voted_for d))) []
      = Inr (d_log d, 44 + length (vote_bytes (voted_for d)) + length ?log)"
    using decode_entries_at [OF short, of "?head @ vote_bytes (voted_for d) @ le_bytes 4 ?count" ?crc "[]"] by (simp add: image)
  have len: "unat (get_u32 ?b 12) = length ?b - 20"
    using unat_len32 [of "length (checkpoint_payload d)"] small by (simp add: checkpoint_fields kMaximumFileBytes_def)
  have sealed: "crc32 (take (length ?b - 4) ?b) = get_u32 ?b (length ?b - 4)"
    using sealed_iff [of ?b] by (auto simp: checkpoint_bytes_def sealed_def)
  have size': "\<not> (length ?b < 16 + 8 * 3 + 4 + 4 + 4 \<or> kMaximumFileBytes < length ?b)"
    using small by (cases "voted_for d") (simp_all add: layout vote_bytes_def kMaximumFileBytes_def)
  have ending: "44 + length (vote_bytes (voted_for d)) + length ?log = length ?b - 4" by (simp add: image)
  have same: "empty_durable\<lparr>d_term := d_term d, voted_for := voted_for d, d_log := d_log d, commit := commit d, applied := applied d\<rparr> = d"
    using facts(1,2) by (simp add: empty_durable_def)
  have log: "\<not> kMaximumEntries < length (d_log d)" using facts(6) by simp
  show ?thesis
    unfolding decode_checkpoint_def
    using size' len sealed vote counted entries ending same valid log count
    by (simp add: checkpoint_fields(1,2) checkpoint_metadata)
qed

interpretation checkpoints: stored_file checkpoint_ok checkpoint_bytes decode_checkpoint
  by unfold_locales (rule decode_checkpoint_bytes)

lemma decode_checkpoint_valid: "decode_checkpoint bytes = Inr d \<Longrightarrow> valid_state d = Inr ()"
  by (auto simp: decode_checkpoint_def Let_def bindE_Inr_iff split: if_splits option.splits prod.splits)

section \<open>Replacing a checkpoint\<close>

lemma encode_checkpoint_ok: "encode_checkpoint d = Inr bytes \<Longrightarrow> checkpoint_ok d \<and> bytes = checkpoint_bytes d"
  by (auto simp: encode_checkpoint_layout bindE_Inr_iff checkpoint_ok_def split: if_splits)

lemma validate_transition_forward:
  assumes le: "durable_le old new" and boundary: "snapshot_index old = 0"
  shows "validate_transition old new = valid_state new"
proof (cases "valid_state new")
  case (Inr u)
  then have new: "valid_state new = Inr ()" by simp
  have "d_log new ! i = d_log old ! i" if "i < unat (commit old)" for i
  proof -
    let ?i = "of_nat (Suc i) :: u64"
    have i: "unat ?i = Suc i" by (rule unat_of_nat_exact) (use that unat_lt_u64 [of "commit old"] in linarith)
    then have "0 < ?i" "?i \<le> commit old"
      using that by (simp_all add: word_less_nat_alt word_le_nat_alt del: of_nat_Suc)
    then have "entry_at new ?i = entry_at old ?i"
      using le boundary valid_stateD(1) [OF new] by (simp add: durable_le_def committed_kept_def del: of_nat_Suc)
    moreover have "unat (?i - 0 - 1) = i"
      using unat_of_nat_exact [of i] that unat_lt_u64 [of "commit old"] by simp
    ultimately show ?thesis
      using boundary valid_stateD(1) [OF new] by (simp add: entry_at_def del: of_nat_Suc)
  qed
  moreover have "unat (commit old) \<le> length (d_log new)"
    using le valid_stateD(3) [OF new] by (simp add: durable_le_def word_le_nat_alt)
  ultimately show ?thesis
    using le new by (auto simp: validate_transition_def durable_le_def list_ex_iff)
qed (simp add: validate_transition_def)

end
