(* ===== verification/Durable_Node.thy ===== *)
theory Durable_Node
  imports Checkpoint_Recovery
begin

text \<open>
  The synchronous driver of \<open>raft/durable_node.cpp\<close>: it runs the transition core, writes every state the
  core asks for to the checkpoint, and hands out messages only afterwards.
\<close>

section \<open>The driver\<close>

record DurableNode =
  dn_config :: Config
  dn_checkpoint :: CheckpointStore
  dn_node :: Node

record DriveResult =
  dr_effects :: Effects
  dr_error :: "Error option"

abbreviation dn_error :: "string \<Rightarrow> Error" where
  "dn_error why \<equiv> Error StoreError why"

fun distinct_names :: "string set \<Rightarrow> string list \<Rightarrow> bool" where
  "distinct_names names [] \<longleftrightarrow> True"
| "distinct_names names (peer # rest) \<longleftrightarrow> \<not> (peer = [] \<or> peer \<in> names) \<and> distinct_names (insert peer names) rest"

definition valid_config :: "Config \<Rightarrow> bool" where
  "valid_config c \<longleftrightarrow> self c \<noteq> [] \<and> distinct_names {self c} (peers c)"

definition acceptable_durable_vote :: "Config \<Rightarrow> Durable \<Rightarrow> bool" where
  "acceptable_durable_vote c d \<longleftrightarrow>
     (case voted_for d of None \<Rightarrow> True | Some v \<Rightarrow> v = self c \<or> list_ex (\<lambda>peer. peer = v) (peers c))"

definition dn_open ::
  "string + bool \<Rightarrow> io_fault \<Rightarrow> string option \<Rightarrow> unit Result \<Rightarrow> Config \<Rightarrow> string \<Rightarrow> string \<Rightarrow> bool \<Rightarrow> string option \<Rightarrow>
   DurableNode Result" where
  "dn_open created fault stat reading c directory parent test_mode file' =
     (if \<not> valid_config c then fail StoreError ''Raft durable driver has invalid cluster IDs''
      else bindE (cp_open created fault stat reading directory parent test_mode file') (\<lambda>checkpoint.
        if \<not> acceptable_durable_vote c (cs_current checkpoint)
        then fail StoreError ''Recovered Raft vote does not belong to configured cluster''
        else Inr \<lparr>dn_config = c, dn_checkpoint = checkpoint,
                  dn_node = (initial c)\<lparr>durable := cs_current checkpoint\<rparr>\<rparr>))"

definition halted_node :: "Node \<Rightarrow> Node" where
  "halted_node s = s\<lparr>pending := None, halted := True\<rparr>"

definition dn_restart ::
  "string option \<Rightarrow> unit Result \<Rightarrow> DurableNode \<Rightarrow> string option \<Rightarrow> DurableNode \<times> string option \<times> DriveResult" where
  "dn_restart stat reading dn file' =
     (case cp_recover stat reading (dn_checkpoint dn) file' of
        (cs, Inr d) \<Rightarrow>
          if \<not> acceptable_durable_vote (dn_config dn) d
          then (dn\<lparr>dn_checkpoint := cs, dn_node := halted_node (dn_node dn)\<rparr>, file',
                \<lparr>dr_effects = no_effects\<lparr>halt := True\<rparr>,
                 dr_error = Some (dn_error ''Recovered Raft vote does not belong to configured cluster'')\<rparr>)
          else (dn\<lparr>dn_checkpoint := cs, dn_node := (initial (dn_config dn))\<lparr>durable := d\<rparr>\<rparr>, file',
                \<lparr>dr_effects = no_effects, dr_error = None\<rparr>)
      | (cs, Inl e) \<Rightarrow>
          (dn\<lparr>dn_checkpoint := cs, dn_node := halted_node (dn_node dn)\<rparr>, file',
           \<lparr>dr_effects = no_effects\<lparr>halt := True\<rparr>, dr_error = Some e\<rparr>))"

text \<open>The write that a step asked for, and the completion or failure it reports to the core.\<close>

definition dn_complete ::
  "io_fault \<Rightarrow> DurableNode \<Rightarrow> Effects \<Rightarrow> PersistRequest \<Rightarrow> string option \<Rightarrow> DurableNode \<times> string option \<times> DriveResult" where
  "dn_complete io dn effects request file' =
     (if send_now effects \<noteq> [] \<or> ef_apply effects \<noteq> []
      then let (stopped, eff) = step (dn_config dn) (dn_node dn) (PersistFailed (pr_token request)) in
        (dn\<lparr>dn_node := stopped\<rparr>, file',
         \<lparr>dr_effects = eff, dr_error = Some (dn_error ''Raft core emitted dependent effects before durable write'')\<rparr>)
      else case cp_persist io (pr_target request) (dn_checkpoint dn) file' of
        (cs, held, Inl e) \<Rightarrow>
          let (stopped, eff) = step (dn_config dn) (dn_node dn) (PersistFailed (pr_token request)) in
          (dn\<lparr>dn_checkpoint := cs, dn_node := stopped\<rparr>, held, \<lparr>dr_effects = eff, dr_error = Some e\<rparr>)
      | (cs, held, Inr _) \<Rightarrow>
          let (written, eff) = step (dn_config dn) (dn_node dn) (PersistCompleted (pr_token request)) in
          (dn\<lparr>dn_checkpoint := cs, dn_node := written\<rparr>, held, \<lparr>dr_effects = eff, dr_error = None\<rparr>))"

definition dn_dispatch ::
  "io_fault \<Rightarrow> string option \<Rightarrow> unit Result \<Rightarrow> Input \<Rightarrow> DurableNode \<Rightarrow> string option \<Rightarrow> DurableNode \<times> string option \<times> DriveResult" where
  "dn_dispatch io stat reading i dn file' =
     (case i of
        Restart \<Rightarrow> dn_restart stat reading dn file'
      | PersistCompleted _ \<Rightarrow>
          (dn, file', \<lparr>dr_effects = no_effects,
            dr_error = Some (dn_error ''Persistence callbacks are private to the Raft storage driver'')\<rparr>)
      | PersistFailed _ \<Rightarrow>
          (dn, file', \<lparr>dr_effects = no_effects,
            dr_error = Some (dn_error ''Persistence callbacks are private to the Raft storage driver'')\<rparr>)
      | ApplyCommitted \<Rightarrow>
          (dn, file', \<lparr>dr_effects = no_effects,
            dr_error = Some (dn_error ''ApplyCommitted requires atomic choreography checkpoint integration'')\<rparr>)
      | _ \<Rightarrow>
          let (s, effects) = step (dn_config dn) (dn_node dn) i; dn = dn\<lparr>dn_node := s\<rparr> in
          (case persist effects of
             None \<Rightarrow> (dn, file', \<lparr>dr_effects = effects, dr_error = None\<rparr>)
           | Some request \<Rightarrow> dn_complete io dn effects request file'))"

section \<open>What the core asks to write\<close>

definition member_vote :: "Config \<Rightarrow> Durable \<Rightarrow> bool" where
  "member_vote c d \<longleftrightarrow> (\<forall>v. voted_for d = Some v \<longrightarrow> v \<in> members c)"

text \<open>A write stands alone: nothing is sent with it, and its vote is for a member.\<close>

definition clean_write :: "Config \<Rightarrow> Node \<times> Effects \<Rightarrow> bool" where
  "clean_write c r \<longleftrightarrow>
     (\<forall>p. persist (snd r) = Some p \<longrightarrow> send_now (snd r) = [] \<and> ef_apply (snd r) = [] \<and> member_vote c (pr_target p))"

lemma clean_quiet [simp]: "persist (snd r) = None \<Longrightarrow> clean_write c r"
  by (simp add: clean_write_def)

lemma clean_if: "(P \<Longrightarrow> clean_write c x) \<Longrightarrow> (\<not> P \<Longrightarrow> clean_write c y) \<Longrightarrow> clean_write c (if P then x else y)"
  by simp

lemma clean_begin_write:
  "send_now eff = [] \<Longrightarrow> ef_apply eff = [] \<Longrightarrow> member_vote c tgt \<Longrightarrow>
   clean_write c (begin_write s eff tgt outs applies vote snaps kind)"
  by (simp add: clean_write_def begin_write_def Let_def)

lemma clean_write_or_reply:
  "send_now eff = [] \<Longrightarrow> ef_apply eff = [] \<Longrightarrow> persist eff = None \<Longrightarrow> member_vote c tgt \<Longrightarrow>
   clean_write c (write_or_reply s eff tgt reply kind)"
  unfolding write_or_reply_def by (intro clean_if clean_begin_write) simp_all

lemma clean_raise_term: "clean_write c (raise_term s t)"
  unfolding raise_term_def Let_def split_beta by (intro clean_begin_write) (simp_all add: member_vote_def)

lemma clean_complete_read: "clean_write c r \<Longrightarrow> clean_write c (complete_read c (fst r) (snd r))"
  by (simp add: clean_write_def)

lemma member_vote_fields [simp]:
  "member_vote c (d\<lparr>d_log := l\<rparr>) = member_vote c d" "member_vote c (d\<lparr>commit := k\<rparr>) = member_vote c d"
  "member_vote c (d\<lparr>applied := a\<rparr>) = member_vote c d" "member_vote c (d\<lparr>snapshot_index := k\<rparr>) = member_vote c d"
  "member_vote c (d\<lparr>snapshot_term := k\<rparr>) = member_vote c d"
  by (simp_all add: member_vote_def)

lemma member_vote_adopt: "member_vote c d \<Longrightarrow> member_vote c (adopt_term d t)"
  by (simp add: adopt_term_def member_vote_def)

lemma append_entries_vote: "voted_for (fst (append_entries t i es)) = voted_for t"
  by (induction t i es rule: append_entries.induct) (auto simp: Let_def)

lemma dispatch_clean:
  assumes "ready c s" "member_vote c (durable s)"
  shows "clean_write c (dispatch c s i)"
proof -
  let ?d = "durable s"
  note vote = assms(2)
  have vol: "vol_ok c ?d (volatile_state s)" using assms(1) by (simp add: ready_def)
  have known: "p \<in> members c" if "known_peer s p" for p using that by (simp add: known_peer_iff [OF vol])
  have install: "member_vote c (install_snapshot d k t) = member_vote c d" for d k t
    by (simp add: install_snapshot_def member_vote_def)
  have merged: "member_vote c (fst (append_entries (adopt_term ?d t) k es))" for t k es
    using member_vote_adopt [OF vote] by (simp add: member_vote_def append_entries_vote)
  have "clean_write c (on_compact_committed s)"
    using vote by (auto simp: on_compact_committed_def Let_def intro!: clean_begin_write split: option.split)
  moreover have "clean_write c (on_recv_snapshot c s m)" for m
    unfolding on_recv_snapshot_def Let_def split_beta
    by (intro clean_if clean_begin_write clean_write_or_reply) (simp_all add: install member_vote_adopt vote)
  moreover have "clean_write c (on_recv_snapshot_reply s m)" for m
    by (auto simp: on_recv_snapshot_reply_def clean_raise_term split: option.split)
  moreover have "clean_write c (on_election_timeout c s)"
    unfolding on_election_timeout_def Let_def split_beta
    by (intro clean_if clean_begin_write) (simp_all add: member_vote_def)
  moreover have "clean_write c (on_request_vote c s m)" for m
  proof (cases "known_peer s (rv_candidate m)")
    case True
    then have "member_vote c (d\<lparr>voted_for := Some (rv_candidate m)\<rparr>)" for d using known by (simp add: member_vote_def)
    then show ?thesis
      unfolding on_request_vote_def Let_def split_beta
      by (intro clean_if clean_write_or_reply) (simp_all add: member_vote_adopt vote)
  qed (simp add: on_request_vote_def)
  moreover have "clean_write c (on_vote_reply c s m)" for m
    by (simp add: on_vote_reply_def clean_raise_term Let_def)
  moreover have "clean_write c (on_client_propose c s cmd)" for cmd
    unfolding on_client_propose_def Let_def split_beta
    by (intro clean_if clean_begin_write) (simp_all add: vote)
  moreover have "clean_write c (on_heartbeat_timeout c s)"
    by (simp add: on_heartbeat_timeout_def Let_def split_beta)
  moreover have "clean_write c (on_recv_append c s m)" for m
    unfolding on_recv_append_def Let_def split_beta
    by (intro clean_if clean_write_or_reply) (simp_all add: member_vote_adopt vote merged)
  moreover have "clean_write c (on_append_reply c s m)" for m
    using clean_complete_read [OF clean_raise_term]
    by (simp add: on_append_reply_def Let_def split_beta split: option.split)
  moreover have "clean_write c (on_advance_commit c s)"
    unfolding on_advance_commit_def Let_def by (intro clean_if clean_begin_write) (simp_all add: vote)
  moreover have "clean_write c (on_apply_committed s)"
    unfolding on_apply_committed_def Let_def by (intro clean_if clean_begin_write) (simp_all add: vote)
  ultimately show ?thesis by (cases i) (simp_all add: dispatch_def)
qed

text \<open>Inputs that are not answers of the storage and not a restart.\<close>

definition driven :: "Input \<Rightarrow> bool" where
  "driven i \<longleftrightarrow> (case i of PersistCompleted _ \<Rightarrow> False | PersistFailed _ \<Rightarrow> False | Restart \<Rightarrow> False | _ \<Rightarrow> True)"

lemma step_driven:
  assumes "ready c s" "driven i"
  shows "handled c s (step c s i)" "halted s \<Longrightarrow> persist (snd (step c s i)) = None \<and> send_now (snd (step c s i)) = []"
    "member_vote c (durable s) \<Longrightarrow> clean_write c (step c s i)"
proof -
  have checks: "valid_durable (durable s)" "pending s = None" using assms(1) by (simp_all add: ready_def)
  have begin_read: "handled c s (on_begin_read c s x)" for x by (rule begin_read_handled [OF assms(1)])
  have cancel: "handled c s (on_cancel_read s x)" for x
    using assms(1) handled_same [OF assms(1)]
    by (auto simp: on_cancel_read_def ready_def intro!: handled_quiet vol_ok_set_read split: option.split)
  show "handled c s (step c s i)"
    using assms(2) checks begin_read cancel dispatch_handled [OF assms(1)] handled_same [OF assms(1)]
    by (cases i) (simp_all add: step_def driven_def)
  have quiet: "persist (snd (on_begin_read c s x)) = None" "persist (snd (on_cancel_read s x)) = None" for x
    by (simp_all add: on_begin_read_def on_cancel_read_def Let_def split_beta split: option.split)
  have "halted s \<Longrightarrow> send_now (snd (on_begin_read c s x)) = []" "send_now (snd (on_cancel_read s x)) = []" for x
    by (simp_all add: on_begin_read_def on_cancel_read_def Let_def split: option.split)
  then show "halted s \<Longrightarrow> persist (snd (step c s i)) = None \<and> send_now (snd (step c s i)) = []"
    using assms(2) checks quiet by (cases i) (simp_all add: step_def driven_def)
  show "member_vote c (durable s) \<Longrightarrow> clean_write c (step c s i)"
    using assms(2) checks quiet dispatch_clean [OF assms(1)] by (cases i) (simp_all add: step_def driven_def)
qed

section \<open>The driver invariant\<close>

definition on_disk :: "string option \<Rightarrow> Durable \<Rightarrow> bool" where
  "on_disk file' d \<longleftrightarrow> (case file' of None \<Rightarrow> d = empty_durable | Some bytes \<Rightarrow> checkpoint_ok d \<and> bytes = checkpoint_bytes d)"

definition good_durable :: "Config \<Rightarrow> Durable \<Rightarrow> bool" where
  "good_durable c d \<longleftrightarrow> valid_durable d \<and> member_vote c d \<and> valid_state d = Inr ()"

definition driver_ok :: "Config \<Rightarrow> DurableNode \<Rightarrow> string option \<Rightarrow> Durable \<Rightarrow> bool" where
  "driver_ok c dn file' d \<longleftrightarrow>
     config_ok c \<and> dn_config dn = c \<and> pending (dn_node dn) = None \<and> node_inv c (dn_node dn) \<and>
     durable (dn_node dn) = cs_current (dn_checkpoint dn) \<and> good_durable c (durable (dn_node dn)) \<and>
     on_disk file' d \<and> good_durable c d \<and> (cs_uncertain (dn_checkpoint dn) \<longrightarrow> halted (dn_node dn)) \<and>
     (\<not> halted (dn_node dn) \<longrightarrow> d = durable (dn_node dn)) \<and>
     (\<not> cs_uncertain (dn_checkpoint dn) \<longrightarrow> d = durable (dn_node dn))"

lemma driver_okD:
  assumes "driver_ok c dn file' d"
  shows "config_ok c" "dn_config dn = c" "pending (dn_node dn) = None" "node_inv c (dn_node dn)"
    "durable (dn_node dn) = cs_current (dn_checkpoint dn)" "good_durable c (durable (dn_node dn))"
    "on_disk file' d" "good_durable c d" "cs_uncertain (dn_checkpoint dn) \<Longrightarrow> halted (dn_node dn)"
    "\<not> halted (dn_node dn) \<Longrightarrow> d = durable (dn_node dn)"
    "\<not> cs_uncertain (dn_checkpoint dn) \<Longrightarrow> d = durable (dn_node dn)"
  using assms unfolding driver_ok_def by blast+

lemma on_disk_read: "on_disk file' d \<Longrightarrow> read_checkpoint None (Inr ()) file' = Inr d"
  using decode_checkpoint_bytes by (auto simp: on_disk_def read_checkpoint_def split: option.splits)

lemma on_disk_reading: "on_disk file' d \<Longrightarrow> read_checkpoint stat reading file' = Inr d' \<Longrightarrow> d' = d"
  using decode_checkpoint_bytes
  by (auto simp: on_disk_def read_checkpoint_def bindE_Inr_iff split: option.splits)

lemma driver_ready: "driver_ok c dn file' d \<Longrightarrow> ready c (dn_node dn)"
  using driver_okD(1,3,4) node_inv_quiet unfolding ready_def by blast

lemma valid_config_ok: "valid_config c \<Longrightarrow> config_ok c"
proof -
  have "distinct_names names ps \<Longrightarrow> distinct ps \<and> names \<inter> set ps = {}" for names ps
    by (induction ps arbitrary: names) auto
  then show "valid_config c \<Longrightarrow> config_ok c" by (fastforce simp: valid_config_def config_ok_def)
qed

lemma fresh_node_inv: "valid_durable d \<Longrightarrow> node_inv c ((initial c)\<lparr>durable := d\<rparr>)"
  using initial_vol by (simp add: node_inv_quiet initial_def)

lemma fresh_driver_ok:
  assumes "config_ok c" "on_disk file' d" "good_durable c d" "cs_current cs = d" "\<not> cs_uncertain cs"
  shows "driver_ok c \<lparr>dn_config = c, dn_checkpoint = cs, dn_node = (initial c)\<lparr>durable := d\<rparr>\<rparr> file' d"
  using assms fresh_node_inv [of d c] by (simp add: driver_ok_def good_durable_def initial_def)

lemma restart_ok:
  assumes ok: "driver_ok c dn file' d" and run: "dn_restart stat reading dn file' = (dn', held, res)"
  shows "driver_ok c dn' file' d" "held = file'" "send_now (dr_effects res) = []"
    "read_checkpoint stat reading file' = Inr d \<Longrightarrow> dr_error res = None \<and> \<not> halted (dn_node dn') \<and> durable (dn_node dn') = d"
proof -
  note facts = driver_okD [OF ok]
  have vote: "acceptable_durable_vote c d"
    using facts(8) by (auto simp: acceptable_durable_vote_def good_durable_def member_vote_def list_ex_iff split: option.split)
  consider (failed) e where "read_checkpoint stat reading file' = Inl e" | (read) "read_checkpoint stat reading file' = Inr d"
    using on_disk_reading [OF facts(7)] by (cases "read_checkpoint stat reading file'") auto
  then have "driver_ok c dn' file' d \<and> held = file' \<and> send_now (dr_effects res) = [] \<and>
    (read_checkpoint stat reading file' = Inr d \<longrightarrow> dr_error res = None \<and> \<not> halted (dn_node dn') \<and> durable (dn_node dn') = d)"
  proof cases
    case failed
    then have "dn' = dn\<lparr>dn_checkpoint := (dn_checkpoint dn)\<lparr>cs_uncertain := True\<rparr>, dn_node := halted_node (dn_node dn)\<rparr>"
      "held = file'" "dr_effects res = no_effects\<lparr>halt := True\<rparr>"
      using run by (auto simp: dn_restart_def cp_recover_def)
    moreover have "node_inv c (halted_node (dn_node dn))"
      using facts(3,4) by (simp add: node_inv_quiet halted_node_def)
    ultimately show ?thesis
      using facts failed by (simp add: driver_ok_def) (simp add: halted_node_def)
  next
    case read
    let ?cs = "(dn_checkpoint dn)\<lparr>cs_current := d, cs_uncertain := False, cs_fault := NoCheckpointFault\<rparr>"
    have dn': "dn' = \<lparr>dn_config = c, dn_checkpoint = ?cs, dn_node = (initial c)\<lparr>durable := d\<rparr>\<rparr>"
      and "held = file'" "res = \<lparr>dr_effects = no_effects, dr_error = None\<rparr>"
      using run read vote facts(2) by (auto simp: dn_restart_def cp_recover_def)
    then show ?thesis
      using fresh_driver_ok [OF facts(1,7,8), of ?cs] by (simp add: initial_def)
  qed
  then show "driver_ok c dn' file' d" "held = file'" "send_now (dr_effects res) = []"
    "read_checkpoint stat reading file' = Inr d \<Longrightarrow> dr_error res = None \<and> \<not> halted (dn_node dn') \<and> durable (dn_node dn') = d"
    by blast+
qed

lemma cp_persist_cases:
  assumes "\<not> cs_uncertain cs" "cp_persist io tgt cs file' = (cs', held, r)" "on_disk file' (cs_current cs)"
    "validate_transition (cs_current cs) tgt = valid_state tgt"
  shows "(is_ok r \<and> on_disk held tgt \<and> valid_state tgt = Inr () \<and> cs_current cs' = tgt \<and> \<not> cs_uncertain cs') \<or>
    (\<not> is_ok r \<and> cs_current cs' = cs_current cs \<and>
      (held = file' \<or> cs_uncertain cs' \<and> valid_state tgt = Inr () \<and> on_disk held tgt))"
proof (cases "encode_checkpoint tgt")
  case (Inl e)
  then obtain e' where "cp_persist io tgt cs file' = (cs, file', Inl e')"
    using assms(1) by (cases "validate_transition (cs_current cs) tgt") (simp_all add: cp_persist_def)
  then show ?thesis using assms(2) by auto
next
  case (Inr bytes)
  then have image: "checkpoint_ok tgt" "bytes = checkpoint_bytes tgt" using encode_checkpoint_ok by auto
  then have valid: "valid_state tgt = Inr ()" by (simp add: checkpoint_ok_def)
  obtain got w where written: "write_atomic io (cs_parent cs) (cs_path cs) file' bytes True (Some True) = (got, w)" by fastforce
  then have got: "got = file' \<or> got = Some bytes" "\<And>u. w = Inr u \<Longrightarrow> got = Some bytes"
    using write_atomic_old_or_new [of io "cs_parent cs" "cs_path cs" file' bytes True "Some True"]
      write_atomic_ok [of io "cs_parent cs" "cs_path cs" file' bytes True "Some True"] by auto
  have new: "on_disk (Some bytes) tgt" using image by (simp add: on_disk_def)
  show ?thesis
    using assms(1,2) valid got new unfolding cp_persist_def Inr assms(4) valid
    by (cases w) (auto simp: written Let_def split: if_splits)
qed

lemma leader_sends_frame:
  "durable (fst (leader_sends c ps r)) = durable (fst r) \<and> pending (fst (leader_sends c ps r)) = pending (fst r) \<and>
   halted (fst (leader_sends c ps r)) = halted (fst r)"
proof (induction c ps r rule: leader_sends.induct)
  case (2 c p ps s out snapshots)
  have "durable (fst (send_append c s' d p out snapshots)) = durable s' \<and> pending (fst (send_append c s' d p out snapshots)) = pending s'
      \<and> halted (fst (send_append c s' d p out snapshots)) = halted s'" for s' d
    by (simp add: send_append_def Let_def split: option.split)
  then show ?case using 2 by simp
qed simp

lemma become_leader_keeps [simp]:
  "durable (fst (become_leader c s eff)) = durable s" "pending (fst (become_leader c s eff)) = pending s"
  "halted (fst (become_leader c s eff)) = halted s"
  by (simp_all add: become_leader_def Let_def split_beta leader_sends_frame)

lemma storage_answers:
  assumes inv: "node_inv c s" and w: "pending s = Some w" "\<not> halted s"
  shows "durable (fst (step c s (PersistCompleted (pw_token w)))) = target w"
    "pending (fst (step c s (PersistCompleted (pw_token w)))) = None"
    "halted (fst (step c s (PersistCompleted (pw_token w)))) = False"
    "durable (fst (step c s (PersistFailed (pw_token w)))) = durable s"
    "pending (fst (step c s (PersistFailed (pw_token w)))) = None"
    "halted (fst (step c s (PersistFailed (pw_token w))))"
    "send_now (snd (step c s (PersistFailed (pw_token w)))) = []"
proof -
  have valid: "valid_durable (durable s)" "valid_durable (target w)"
    using inv w(1) by (simp_all add: node_inv_def stage_ok_def)
  have completed: "step c s (PersistCompleted (pw_token w)) = on_persist_completed c s (pw_token w)"
    and failed: "step c s (PersistFailed (pw_token w)) = fail_stop s"
    using valid w by (simp_all add: step_def on_persist_failed_def)
  show "durable (fst (step c s (PersistCompleted (pw_token w)))) = target w"
    "pending (fst (step c s (PersistCompleted (pw_token w)))) = None"
    "halted (fst (step c s (PersistCompleted (pw_token w)))) = False"
    unfolding completed using w by (simp_all add: on_persist_completed_def Let_def split_beta)
  show "durable (fst (step c s (PersistFailed (pw_token w)))) = durable s"
    "pending (fst (step c s (PersistFailed (pw_token w)))) = None"
    "halted (fst (step c s (PersistFailed (pw_token w))))" "send_now (snd (step c s (PersistFailed (pw_token w)))) = []"
    unfolding failed by (simp_all add: fail_stop_def Let_def split_beta)
qed

lemma driven_write:
  assumes ok: "driver_ok c dn file' d" and i: "driven i" and p: "persist (snd (step c (dn_node dn) i)) = Some p"
  obtains w where "pending (fst (step c (dn_node dn) i)) = Some w" "pr_token p = pw_token w" "pr_target p = target w"
    "\<not> halted (dn_node dn)" "\<not> halted (fst (step c (dn_node dn) i))" "node_inv c (fst (step c (dn_node dn) i))"
    "durable (fst (step c (dn_node dn) i)) = d" "d = cs_current (dn_checkpoint dn)" "\<not> cs_uncertain (dn_checkpoint dn)"
    "durable_le d (target w)" "valid_durable (target w)" "member_vote c (target w)"
    "send_now (snd (step c (dn_node dn) i)) = []" "ef_apply (snd (step c (dn_node dn) i)) = []"
    "validate_transition (cs_current (dn_checkpoint dn)) (target w) = valid_state (target w)"
proof -
  note facts = driver_okD [OF ok]
  note ready = driver_ready [OF ok]
  let ?r = "step c (dn_node dn) i"
  have running: "\<not> halted (dn_node dn)" using step_driven(2) [OF ready i] p by auto
  note handled = step_driven(1) [OF ready i]
  have clean: "clean_write c ?r" using step_driven(3) [OF ready i] facts(6) by (simp add: good_durable_def)
  obtain w where w: "pending (fst ?r) = Some w" "pr_token p = pw_token w" "pr_target p = target w"
    using handled p by (cases "pending (fst ?r)") (auto simp: handled_def)
  have inv: "node_inv c (fst ?r)" "durable (fst ?r) = durable (dn_node dn)" "\<not> halted (fst ?r)"
    using handled running by (simp_all add: handled_def)
  then have stage: "durable_le (durable (dn_node dn)) (target w)" "valid_durable (target w)"
    using w(1) by (simp_all add: node_inv_def stage_ok_def)
  have d: "d = durable (dn_node dn)" "\<not> cs_uncertain (dn_checkpoint dn)" using running facts(9,10) by auto
  have "snapshot_index (durable (dn_node dn)) = 0" using facts(6) valid_stateD(1) by (simp add: good_durable_def)
  then have "validate_transition (durable (dn_node dn)) (target w) = valid_state (target w)"
    using stage(1) by (intro validate_transition_forward)
  then show ?thesis
    using that [OF w running inv(3,1)] inv(2) d facts(5) stage clean p w(3) by (simp add: clean_write_def)
qed

lemma dispatch_ok:
  assumes ok: "driver_ok c dn file' d" and run: "dn_dispatch io stat reading i dn file' = (dn', held, res)"
  shows "\<exists>d'. driver_ok c dn' held d' \<and> durable_le d d' \<and> emits_ok c d' (send_now (dr_effects res))"
proof (cases "driven i \<and> i \<noteq> ApplyCommitted")
  case False
  then consider "dn' = dn" "held = file'" "dr_effects res = no_effects" | "dn_restart stat reading dn file' = (dn', held, res)"
    using run by (cases i) (auto simp: dn_dispatch_def driven_def)
  then show ?thesis
  proof cases
    case 1
    then show ?thesis using ok durable_le_refl by (intro exI [of _ d]) simp
  next
    case 2
    then show ?thesis using restart_ok [OF ok 2] by (intro exI [of _ d]) simp
  qed
next
  case drive: True
  note facts = driver_okD [OF ok]
  note ready = driver_ready [OF ok]
  let ?r = "step c (dn_node dn) i" and ?dn = "dn\<lparr>dn_node := fst (step c (dn_node dn) i)\<rparr>"
  have run: "(case persist (snd ?r) of None \<Rightarrow> (?dn, file', \<lparr>dr_effects = snd ?r, dr_error = None\<rparr>)
      | Some p \<Rightarrow> dn_complete io ?dn (snd ?r) p file') = (dn', held, res)"
    using run drive facts(2) by (cases i) (auto simp: dn_dispatch_def Let_def split_beta driven_def)
  note handled = step_driven(1) [OF ready conjunct1 [OF drive]]
  show ?thesis
  proof (cases "persist (snd ?r)")
    case None
    then have same: "dn' = ?dn" "held = file'" "dr_effects res = snd ?r" using run by auto
    have "pending (fst ?r) = None" using handled None by (cases "pending (fst ?r)") (auto simp: handled_def)
    then have "driver_ok c dn' held d"
      using handled facts same unfolding driver_ok_def handled_def by simp
    moreover have "emits_ok c d (send_now (snd ?r))"
    proof (cases "halted (dn_node dn)")
      case True
      then show ?thesis using step_driven(2) [OF ready conjunct1 [OF drive]] by simp
    next
      case False
      then show ?thesis using handled facts(10) by (simp add: handled_def)
    qed
    ultimately show ?thesis using same(3) durable_le_refl by auto
  next
    case (Some p)
    obtain w where w: "pending (fst ?r) = Some w" "pr_token p = pw_token w" "pr_target p = target w"
      and running: "\<not> halted (dn_node dn)" "\<not> halted (fst ?r)" and inv: "node_inv c (fst ?r)"
      and d: "durable (fst ?r) = d" "d = cs_current (dn_checkpoint dn)" "\<not> cs_uncertain (dn_checkpoint dn)"
      and tgt: "durable_le d (target w)" "valid_durable (target w)" "member_vote c (target w)"
      and quiet: "send_now (snd ?r) = []" "ef_apply (snd ?r) = []"
      and validate: "validate_transition (cs_current (dn_checkpoint dn)) (target w) = valid_state (target w)"
      by (rule driven_write [OF ok conjunct1 [OF drive] Some])
    obtain cs got saved where persisted: "cp_persist io (target w) (dn_checkpoint dn) file' = (cs, got, saved)"
      by (metis prod_cases3)
    have disk: "on_disk file' (cs_current (dn_checkpoint dn))" using facts(7) d(2) by simp
    note outcome = cp_persist_cases [OF d(3) persisted disk validate]
    note answers = storage_answers [OF inv w(1) running(2)]
    have "step_ok c (fst ?r) (step c (fst ?r) j)" for j by (rule step_preserves [OF facts(1) inv])
    then have inv': "node_inv c (fst (step c (fst ?r) j))"
      "emits_ok c (durable (fst (step c (fst ?r) j))) (send_now (snd (step c (fst ?r) j)))" for j
      by (auto simp: step_ok_def Let_def)
    show ?thesis
    proof (cases saved)
      case (Inl e)
      then have stopped: "dn' = dn\<lparr>dn_checkpoint := cs, dn_node := fst (step c (fst ?r) (PersistFailed (pw_token w)))\<rparr>" "held = got"
        "dr_effects res = snd (step c (fst ?r) (PersistFailed (pw_token w)))"
        using run Some persisted quiet w facts(2) by (auto simp: dn_complete_def Let_def split_beta)
      have current: "cs_current cs = d" using outcome Inl d(2) by auto
      have "got = file' \<or> cs_uncertain cs \<and> valid_state (target w) = Inr () \<and> on_disk got (target w)" using outcome Inl by auto
      then show ?thesis
      proof
        assume "got = file'"
        then have "driver_ok c dn' held d"
          using stopped current facts(1,2,7,8) answers inv'(1) d(1) by (simp add: driver_ok_def)
        then show ?thesis using stopped(3) answers(7) durable_le_refl by auto
      next
        assume "cs_uncertain cs \<and> valid_state (target w) = Inr () \<and> on_disk got (target w)"
        then have "driver_ok c dn' held (target w)"
          using stopped current facts(1,2,8) answers inv'(1) d(1) tgt by (simp add: driver_ok_def good_durable_def)
        then show ?thesis using stopped(3) answers(7) tgt(1) by auto
      qed
    next
      case (Inr u)
      then have "dn' = dn\<lparr>dn_checkpoint := cs, dn_node := fst (step c (fst ?r) (PersistCompleted (pw_token w)))\<rparr>" "held = got"
        "dr_effects res = snd (step c (fst ?r) (PersistCompleted (pw_token w)))"
        using run Some persisted quiet w facts(2) by (auto simp: dn_complete_def Let_def split_beta)
      moreover have "on_disk got (target w)" "valid_state (target w) = Inr ()" "cs_current cs = target w" "\<not> cs_uncertain cs"
        using outcome Inr by auto
      ultimately have "driver_ok c dn' held (target w)"
        using facts(1,2) answers inv' tgt by (simp add: driver_ok_def good_durable_def)
      then show ?thesis
        using tgt(1) inv'(2) [of "PersistCompleted (pw_token w)"] answers(1) \<open>dr_effects res = _\<close> by auto
    qed
  qed
qed

section \<open>Runs of the driver\<close>

text \<open>
  A driver that starts on an empty directory, is fed inputs while storage calls fail or not, has
  faults injected, and is closed or crashes and is opened again on what the file then holds.
\<close>

inductive driver_reachable :: "Config \<Rightarrow> DurableNode \<Rightarrow> string option \<Rightarrow> bool" for c where
  opened: "dn_open created fault stat reading c directory parent test_mode None = Inr dn \<Longrightarrow> driver_reachable c dn None"
| dispatched: "\<lbrakk>driver_reachable c dn file'; dn_dispatch io stat reading i dn file' = (dn', held, res)\<rbrakk> \<Longrightarrow>
    driver_reachable c dn' held"
| injected: "\<lbrakk>driver_reachable c dn file'; cp_inject_fault fault (dn_checkpoint dn) = (cs, r)\<rbrakk> \<Longrightarrow>
    driver_reachable c (dn\<lparr>dn_checkpoint := cs\<rparr>) file'"
| reopened: "\<lbrakk>driver_reachable c dn file'; dn_open created fault stat reading c directory parent test_mode file' = Inr dn'\<rbrakk> \<Longrightarrow>
    driver_reachable c dn' file'"

lemma open_ok:
  assumes "on_disk file' d" "good_durable c d"
    "dn_open created fault stat reading c directory parent test_mode file' = Inr dn"
  shows "driver_ok c dn file' d"
proof -
  obtain cs where config: "valid_config c" and cs: "cp_open created fault stat reading directory parent test_mode file' = Inr cs"
    and dn: "dn = \<lparr>dn_config = c, dn_checkpoint = cs, dn_node = (initial c)\<lparr>durable := cs_current cs\<rparr>\<rparr>"
    using assms(3) by (auto simp: dn_open_def bindE_Inr_iff split: if_splits)
  obtain d' where "read_checkpoint stat reading file' = Inr d'" "cs_current cs = d'" "\<not> cs_uncertain cs"
    using cs by (auto simp: cp_open_def bindE_Inr_iff split: sum.splits)
  moreover then have "d' = d" using on_disk_reading [OF assms(1)] by blast
  ultimately show ?thesis
    using fresh_driver_ok [OF valid_config_ok [OF config] assms(1,2)] dn by auto
qed

lemma empty_good: "good_durable c empty_durable" "on_disk None empty_durable"
  by (simp_all add: good_durable_def valid_durable_iff valid_terms_iff empty_durable_def member_vote_def valid_state_def on_disk_def)

lemma driver_reachable_ok: "driver_reachable c dn file' \<Longrightarrow> \<exists>d. driver_ok c dn file' d"
proof (induction rule: driver_reachable.induct)
  case (opened created fault stat reading directory parent test_mode dn)
  then show ?case using open_ok empty_good by blast
next
  case (dispatched dn file' io stat reading i dn' held res)
  then show ?case using dispatch_ok by blast
next
  case (injected dn file' fault cs r)
  then obtain d where ok: "driver_ok c dn file' d" by blast
  have "cs_current cs = cs_current (dn_checkpoint dn)" "cs_uncertain cs = cs_uncertain (dn_checkpoint dn)"
    using injected.hyps(2) by (auto simp: cp_inject_fault_def split: if_splits)
  then have "driver_ok c (dn\<lparr>dn_checkpoint := cs\<rparr>) file' d" using driver_okD [OF ok] by (simp add: driver_ok_def)
  then show ?case ..
next
  case (reopened dn file' created fault stat reading directory parent test_mode dn')
  then show ?case using open_ok driver_okD(7,8) by metis
qed

text \<open>
  (C6) The driver writes ahead: whatever storage calls fail and whenever it crashes and reopens, after
  every input the checkpoint file reads back as a state that has kept the term, vote and committed
  entries it held before, every message handed out is backed by the state in that file, and a driver
  that is not halted works on exactly that state.
\<close>

theorem driver_writes_ahead:
  assumes "driver_reachable c dn file'" "dn_dispatch io stat reading i dn file' = (dn', held, res)"
  shows "\<exists>d d'. read_checkpoint None (Inr ()) file' = Inr d \<and> read_checkpoint None (Inr ()) held = Inr d' \<and> durable_le d d' \<and>
    emits_ok c d' (send_now (dr_effects res)) \<and> (\<not> halted (dn_node dn') \<longrightarrow> durable (dn_node dn') = d')"
proof -
  obtain d where ok: "driver_ok c dn file' d" using driver_reachable_ok [OF assms(1)] by blast
  obtain d' where new: "driver_ok c dn' held d'" "durable_le d d'" "emits_ok c d' (send_now (dr_effects res))"
    using dispatch_ok [OF ok assms(2)] by blast
  show ?thesis
    using on_disk_read [OF driver_okD(7) [OF ok]] on_disk_read [OF driver_okD(7) [OF new(1)]] driver_okD(10) [OF new(1)] new(2,3)
    by (intro exI [of _ d] exI [of _ d']) auto
qed

text \<open>
  (C18) A halted or uncertain driver always recovers: in every reachable state a restart whose reads
  succeed reports no error and leaves a running driver on the state of the file.
\<close>

theorem restart_recovers:
  assumes "driver_reachable c dn file'" "dn_dispatch io None (Inr ()) Restart dn file' = (dn', held, res)"
  shows "dr_error res = None \<and> \<not> halted (dn_node dn') \<and> held = file' \<and>
    read_checkpoint None (Inr ()) file' = Inr (durable (dn_node dn'))"
proof -
  obtain d where ok: "driver_ok c dn file' d" using driver_reachable_ok [OF assms(1)] by blast
  have run: "dn_restart None (Inr ()) dn file' = (dn', held, res)" using assms(2) by (simp add: dn_dispatch_def)
  note read = on_disk_read [OF driver_okD(7) [OF ok]]
  show ?thesis using restart_ok [OF ok run] read by simp
qed

text \<open>
  The checkpoint never refuses the core for going backwards: the write that a step asks for keeps
  term, vote and committed entries, so that it is refused only for its shape (a snapshot boundary,
  applied progress, an oversized vote, log or command), and nothing is sent together with it.
\<close>

theorem checkpoint_refuses_only_shape:
  assumes "driver_reachable c dn file'" "driven i" "persist (snd (step c (dn_node dn) i)) = Some request"
  shows "validate_transition (cs_current (dn_checkpoint dn)) (pr_target request) = valid_state (pr_target request)
    \<and> send_now (snd (step c (dn_node dn) i)) = [] \<and> ef_apply (snd (step c (dn_node dn) i)) = []"
proof -
  obtain d where ok: "driver_ok c dn file' d" using driver_reachable_ok [OF assms(1)] by blast
  show ?thesis by (rule driven_write [OF ok assms(2,3)]) simp
qed

section \<open>A driver that votes\<close>

definition sample_driver :: DurableNode where
  "sample_driver =
     \<lparr>dn_config = sample_config,
      dn_checkpoint = \<lparr>cs_path = ''d/raft-core-v1.bin'', cs_parent = ''d'', cs_test_mode = False, cs_current = empty_durable,
        cs_uncertain = False, cs_fault = NoCheckpointFault\<rparr>,
      dn_node = initial sample_config\<rparr>"

lemma sample_driver_reachable: "driver_reachable sample_config sample_driver None"
proof (rule driver_reachable.opened)
  show "dn_open (Inr False) NoFault None (Inr ()) sample_config ''d'' [] False None = Inr sample_driver"
    by (simp add: dn_open_def cp_open_def read_checkpoint_def acceptable_durable_vote_def empty_durable_def
        valid_config_def sample_config_def sample_driver_def initial_def)
qed

definition voted :: Durable where
  "voted = empty_durable\<lparr>d_term := 1, voted_for := Some ''n2''\<rparr>"

lemma voted_ok: "valid_state voted = Inr ()" "checkpoint_ok voted"
proof -
  show valid: "valid_state voted = Inr ()" by (simp add: valid_state_def voted_def empty_durable_def)
  then show "checkpoint_ok voted"
    by (simp add: checkpoint_ok_def checkpoint_payload_def voted_def empty_durable_def vote_bytes_def kMaximumFileBytes_def)
qed

lemma voted_persist:
  "cp_persist NoFault voted (dn_checkpoint sample_driver) None
     = ((dn_checkpoint sample_driver)\<lparr>cs_current := voted\<rparr>, Some (checkpoint_bytes voted), Inr ())"
proof -
  have "encode_checkpoint voted = Inr (checkpoint_bytes voted)"
    using voted_ok by (simp add: encode_checkpoint_layout checkpoint_ok_def)
  moreover have "validate_transition empty_durable voted = Inr ()"
    using voted_ok(1) by (simp add: validate_transition_def) (simp add: voted_def empty_durable_def)
  ultimately show ?thesis
    by (simp add: cp_persist_def sample_driver_def write_atomic_def fwrite_def sync_handle_def sync_directory_def)
qed

definition voting_step :: "DurableNode \<times> string option \<times> DriveResult" where
  "voting_step = dn_dispatch NoFault None (Inr ()) (RecvRequestVote sample_vote_request) sample_driver None"

lemma vote_request_step:
  "persist (snd (step sample_config (initial sample_config) (RecvRequestVote sample_vote_request)))
     = Some \<lparr>pr_token = 1, pr_target = voted, pr_kind = StateUpdate\<rparr>"
  by (simp add: eval_raft voted_def)

lemma voting_step_sends: "length (send_now (dr_effects (snd (snd voting_step)))) = 1"
proof -
  let ?r = "step sample_config (initial sample_config) (RecvRequestVote sample_vote_request)"
  have quiet: "send_now (snd ?r) = []" "ef_apply (snd ?r) = []"
    by (simp_all add: eval_raft)
  have "dr_effects (snd (snd voting_step)) = snd (step sample_config (fst ?r) (PersistCompleted 1))"
    unfolding voting_step_def dn_dispatch_def
    by (simp add: sample_driver_def split_beta vote_request_step dn_complete_def quiet Let_def)
      (simp add: voted_persist [unfolded sample_driver_def, simplified] split_beta)
  then show ?thesis by (simp add: eval_raft)
qed

theorem driver_writes_ahead_witness:
  "\<exists>d. read_checkpoint None (Inr ()) (fst (snd voting_step)) = Inr d \<and>
     emits_ok sample_config d (send_now (dr_effects (snd (snd voting_step)))) \<and>
     length (send_now (dr_effects (snd (snd voting_step)))) = 1"
  using driver_writes_ahead [OF sample_driver_reachable, of NoFault None "Inr ()" "RecvRequestVote sample_vote_request"
      "fst voting_step" "fst (snd voting_step)" "snd (snd voting_step)"] voting_step_sends
  by (auto simp: voting_step_def)

theorem restart_recovers_witness:
  "dr_error (snd (snd (dn_dispatch NoFault None (Inr ()) Restart (fst voting_step) (fst (snd voting_step))))) = None"
proof -
  have reached: "driver_reachable sample_config (fst voting_step) (fst (snd voting_step))"
    using driver_reachable.dispatched [OF sample_driver_reachable] by (metis voting_step_def prod.collapse)
  obtain dn' held res where run:
    "dn_dispatch NoFault None (Inr ()) Restart (fst voting_step) (fst (snd voting_step)) = (dn', held, res)"
    by (metis prod_cases3)
  then show ?thesis using restart_recovers [OF reached run] by simp
qed

theorem checkpoint_refuses_only_shape_witness:
  "validate_transition empty_durable voted = valid_state voted"
  using checkpoint_refuses_only_shape [OF sample_driver_reachable, of "RecvRequestVote sample_vote_request"] vote_request_step
  by (simp add: sample_driver_def driven_def)

end
