(* ===== verification/Map_Sums.thy ===== *)
theory Map_Sums
  imports Choreo_Prelude "HOL-Library.Multiset"
begin

text \<open>
  Ordered maps as multisets of their elements, and totals over their values: what an insertion, a
  write through an iterator and an erasure do to a quantity that is summed over a map.
\<close>

lemma mset_sm_assign: "map_of m k = None \<Longrightarrow> mset (sm_assign k v m) = add_mset (k, v) (mset m)"
  by (induction m) (auto split: if_splits)

lemma filter_key: "sm_ok m \<Longrightarrow> map_of m k = Some v \<Longrightarrow> filter (\<lambda>e. fst e = k) m = [(k, v)]"
  by (induction m) (auto simp: sm_ok_Cons filter_empty_conv split: if_splits dest: map_of_SomeD)

definition sum_values :: "('v \<Rightarrow> nat) \<Rightarrow> ('k, 'v) smap \<Rightarrow> nat" where
  "sum_values f m = (\<Sum>e\<leftarrow>m. f (snd e))"

lemma sum_values_Nil [simp]: "sum_values f [] = 0"
  by (simp add: sum_values_def)

lemma sum_values_assign: "map_of m k = None \<Longrightarrow> sum_values f (sm_assign k v m) = f v + sum_values f m"
  by (induction m) (auto simp: sum_values_def split: if_splits)

lemma sum_values_modify: "(\<And>v. f (g v) = f v) \<Longrightarrow> sum_values f (sm_modify k g m) = sum_values f m"
  by (induction m) (auto simp: sum_values_def sm_modify_def)

lemma sum_values_erase:
  assumes "sm_ok m" "map_of m k = Some v"
  shows "sum_values f m = f v + sum_values f (sm_erase k m)"
proof -
  have "sum_values f m = sum_values f (filter (\<lambda>e. fst e = k) m) + sum_values f (filter (\<lambda>e. fst e \<noteq> k) m)"
    by (induction m) (auto simp: sum_values_def)
  then show ?thesis by (simp add: filter_key [OF assms] sm_erase_def) (simp add: sum_values_def)
qed

lemma sum_values_mono: "(\<And>v. f v \<le> g v) \<Longrightarrow> sum_values f m \<le> sum_values g m"
  unfolding sum_values_def by (rule sum_list_mono) simp

end
