(* ===== verification/Pending_Requests.thy ===== *)
theory Pending_Requests
  imports Map_Sums "HOL-Library.Product_Lexorder"
begin

text \<open>
  The waiters of \<open>network/pending_requests.hpp\<close>: clients whose command is in the log and who are
  answered when the commit index reaches it. Two maps hold the same requests, one by identifier and
  one by log index; the loop of \<open>take_through\<close> ends only because they agree.
\<close>

section \<open>The container\<close>

record 'a Item =
  it_index :: u64
  it_value :: 'a

record 'a PendingRequests =
  pr_next :: u64
  pr_items :: "(u64, 'a Item) smap"
  pr_by_index :: "(u64, u64 list) smap"

definition kCapacity :: nat where
  "kCapacity = 1024"

definition no_requests :: "'a PendingRequests" where
  "no_requests = \<lparr>pr_next = 1, pr_items = [], pr_by_index = []\<rparr>"

definition pr_full :: "'a PendingRequests \<Rightarrow> bool" where
  "pr_full p \<longleftrightarrow> kCapacity \<le> length (pr_items p)"

text \<open>A \<open>std::set\<close> of identifiers is its increasing list.\<close>

definition pr_group :: "'a PendingRequests \<Rightarrow> u64 \<Rightarrow> u64 list" where
  "pr_group p index = (case map_of (pr_by_index p) index of None \<Rightarrow> [] | Some ids \<Rightarrow> ids)"

definition pr_add :: "u64 \<Rightarrow> 'a \<Rightarrow> 'a PendingRequests \<Rightarrow> 'a PendingRequests \<times> u64" where
  "pr_add index item p =
     (let id' = pr_next p in
      (p\<lparr>pr_next := id' + 1,
         pr_by_index := sm_assign index (insort_insert id' (pr_group p index)) (pr_by_index p),
         pr_items := sm_insert id' \<lparr>it_index = index, it_value = item\<rparr> (pr_items p)\<rparr>, id'))"

definition pr_take :: "u64 \<Rightarrow> 'a PendingRequests \<Rightarrow> 'a PendingRequests \<times> 'a option" where
  "pr_take id' p =
     (case map_of (pr_items p) id' of
        None \<Rightarrow> (p, None)
      | Some it \<Rightarrow>
          let ids = remove1 id' (pr_group p (it_index it)) in
          (p\<lparr>pr_by_index := (if ids = [] then sm_erase (it_index it) (pr_by_index p)
                            else sm_assign (it_index it) ids (pr_by_index p)),
             pr_items := sm_erase id' (pr_items p)\<rparr>, Some (it_value it)))"

text \<open>
  The loop over the first group. \<open>None\<close> is a loop that does not end, or that reads the first
  identifier of an empty group.
\<close>

partial_function (option) pr_take_through ::
  "u64 \<Rightarrow> 'a PendingRequests \<Rightarrow> 'a list \<Rightarrow> ('a PendingRequests \<times> 'a list) option" where
  "pr_take_through commit p ready =
     (case pr_by_index p of
        [] \<Rightarrow> Some (p, ready)
      | first # _ \<Rightarrow>
          if commit < fst first then Some (p, ready)
          else (case snd first of
             [] \<Rightarrow> None
           | id' # _ \<Rightarrow>
               (case pr_take id' p of
                  (p', None) \<Rightarrow> pr_take_through commit p' ready
                | (p', Some v) \<Rightarrow> pr_take_through commit p' (ready @ [v]))))"

fun pr_take_all :: "u64 list \<Rightarrow> 'a PendingRequests \<Rightarrow> 'a list \<Rightarrow> 'a PendingRequests \<times> 'a list" where
  "pr_take_all [] p removed = (p, removed)"
| "pr_take_all (id' # ids) p removed =
     (case pr_take id' p of
        (p', None) \<Rightarrow> pr_take_all ids p' removed
      | (p', Some v) \<Rightarrow> pr_take_all ids p' (removed @ [v]))"

definition pr_remove_if :: "('a \<Rightarrow> bool) \<Rightarrow> 'a PendingRequests \<Rightarrow> 'a PendingRequests \<times> 'a list" where
  "pr_remove_if predicate p =
     pr_take_all (map fst (filter (\<lambda>e. predicate (it_value (snd e))) (pr_items p))) p []"

section \<open>The two maps agree\<close>

definition pr_ok :: "'a PendingRequests \<Rightarrow> bool" where
  "pr_ok p \<longleftrightarrow> sm_ok (pr_items p) \<and> sm_ok (pr_by_index p)
     \<and> (\<forall>i. map_of (pr_by_index p) i \<noteq> Some [] \<and> sorted (pr_group p i) \<and> distinct (pr_group p i))
     \<and> (\<forall>i id'. id' \<in> set (pr_group p i) \<longleftrightarrow> map_option it_index (map_of (pr_items p) id') = Some i)
     \<and> (\<forall>id'. map_of (pr_items p) id' \<noteq> None \<longrightarrow> id' < pr_next p)"

lemma pr_okD:
  assumes "pr_ok p"
  shows "sm_ok (pr_items p)" "sm_ok (pr_by_index p)" "map_of (pr_by_index p) i \<noteq> Some []"
    "sorted (pr_group p i)" "distinct (pr_group p i)"
    "id' \<in> set (pr_group p i) \<longleftrightarrow> map_option it_index (map_of (pr_items p) id') = Some i"
    "map_of (pr_items p) id' \<noteq> None \<Longrightarrow> id' < pr_next p"
  using assms unfolding pr_ok_def by blast+

lemma no_requests_ok: "pr_ok no_requests"
  by (simp add: pr_ok_def no_requests_def pr_group_def)

lemma pr_next_fresh: "pr_ok p \<Longrightarrow> map_of (pr_items p) (pr_next p) = None"
  by (meson pr_okD(7) less_irrefl)

lemma pr_group_add:
  "pr_group (fst (pr_add i v p)) j = (if j = i then insort_insert (pr_next p) (pr_group p i) else pr_group p j)"
  by (simp add: pr_add_def Let_def pr_group_def)

lemma pr_add_ok:
  assumes "pr_ok p" "pr_next p \<noteq> max_u64"
  shows "pr_ok (fst (pr_add i v p))"
  unfolding pr_ok_def pr_group_add
proof (intro conjI allI impI)
  note ok = pr_okD [OF assms(1)]
  note fresh = pr_next_fresh [OF assms(1)]
  let ?p = "fst (pr_add i v p)"
  have items: "pr_items ?p = sm_insert (pr_next p) \<lparr>it_index = i, it_value = v\<rparr> (pr_items p)"
    and index: "pr_by_index ?p = sm_assign i (insort_insert (pr_next p) (pr_group p i)) (pr_by_index p)"
    and after: "pr_next ?p = pr_next p + 1"
    by (simp_all add: pr_add_def Let_def)
  show "sm_ok (pr_items ?p)" "sm_ok (pr_by_index ?p)" using ok(1,2) by (simp_all add: items index)
  fix j id'
  have "insort_insert (pr_next p) (pr_group p i) \<noteq> []"
    by (metis empty_iff insertI1 list.set(1) set_insort_insert)
  then show "map_of (pr_by_index ?p) j \<noteq> Some []" using ok(3) by (simp add: index)
  show "sorted (if j = i then insort_insert (pr_next p) (pr_group p i) else pr_group p j)"
    "distinct (if j = i then insort_insert (pr_next p) (pr_group p i) else pr_group p j)"
    using ok(4,5) by (simp_all add: sorted_insort_insert distinct_insort_insert)
  show "id' \<in> set (if j = i then insort_insert (pr_next p) (pr_group p i) else pr_group p j)
      \<longleftrightarrow> map_option it_index (map_of (pr_items ?p) id') = Some j"
    using ok(6) fresh by (auto simp: set_insort_insert items)
  assume "map_of (pr_items ?p) id' \<noteq> None"
  then have "id' < pr_next p \<or> id' = pr_next p" using ok(7) by (auto simp: items split: if_splits)
  then show "id' < pr_next ?p"
    using unat_Suc_exact [OF assms(2)] by (auto simp: word_less_nat_alt after)
qed

lemma pr_take_items: "pr_ok p \<Longrightarrow> pr_items (fst (pr_take id' p)) = sm_erase id' (pr_items p)"
  by (auto simp: pr_take_def Let_def sm_erase_absent split: option.splits)

lemma pr_take_value: "snd (pr_take id' p) = map_option it_value (map_of (pr_items p) id')"
  by (simp add: pr_take_def Let_def split: option.splits)

lemma pr_take_next: "pr_next (fst (pr_take id' p)) = pr_next p"
  by (simp add: pr_take_def Let_def split: option.splits)

lemma pr_group_take:
  "pr_group (fst (pr_take id' p)) j =
     (if map_option it_index (map_of (pr_items p) id') = Some j then remove1 id' (pr_group p j) else pr_group p j)"
  by (simp add: pr_take_def Let_def pr_group_def split: option.splits)

lemma pr_take_ok:
  assumes "pr_ok p"
  shows "pr_ok (fst (pr_take id' p))"
  unfolding pr_ok_def pr_group_take pr_take_items [OF assms] pr_take_next
proof (intro conjI allI impI)
  note ok = pr_okD [OF assms]
  show "sm_ok (sm_erase id' (pr_items p))" "sm_ok (pr_by_index (fst (pr_take id' p)))"
    using ok(1,2) by (simp_all add: pr_take_def Let_def split: option.splits)
  fix i k
  show "map_of (pr_by_index (fst (pr_take id' p))) i \<noteq> Some []"
    using ok(3) by (simp add: pr_take_def Let_def split: option.splits)
  let ?g = "if map_option it_index (map_of (pr_items p) id') = Some i then remove1 id' (pr_group p i) else pr_group p i"
  show "sorted ?g" "distinct ?g" using ok(4,5) by (simp_all add: sorted_remove1)
  show "k \<in> set ?g \<longleftrightarrow> map_option it_index (map_of (sm_erase id' (pr_items p)) k) = Some i"
    using ok(5,6) by auto
  assume "map_of (sm_erase id' (pr_items p)) k \<noteq> None"
  then show "k < pr_next p" using ok(7) by (auto split: if_splits)
qed

section \<open>The requests that are due\<close>

text \<open>The requests up to a commit index, by log index and then by age.\<close>

abbreviation due_key :: "u64 \<times> 'a Item \<Rightarrow> u64 \<times> u64" where
  "due_key e \<equiv> (it_index (snd e), fst e)"

definition due :: "u64 \<Rightarrow> 'a PendingRequests \<Rightarrow> (u64 \<times> 'a Item) list" where
  "due commit p = sort_key due_key (filter (\<lambda>e. it_index (snd e) \<le> commit) (pr_items p))"

lemma set_due: "set (due commit p) = {e \<in> set (pr_items p). it_index (snd e) \<le> commit}"
  by (auto simp: due_def)

lemma due_keys:
  assumes "pr_ok p"
  shows "sorted (map due_key (due commit p))" "distinct (map due_key (due commit p))"
    "inj_on due_key (set (pr_items p))"
proof -
  have "distinct (map fst (pr_items p))" using pr_okD(1) [OF assms] by (rule sm_ok_distinct)
  then have inj: "inj_on fst (set (pr_items p))" "distinct (pr_items p)" by (simp_all add: distinct_map)
  show "inj_on due_key (set (pr_items p))" using inj(1) by (auto simp: inj_on_def)
  then have "inj_on due_key (set (due commit p))" by (rule inj_on_subset) (auto simp: set_due)
  then show "distinct (map due_key (due commit p))" using inj(2) by (simp add: due_def distinct_map)
  show "sorted (map due_key (due commit p))" by (simp add: due_def)
qed

lemma in_items_iff: "pr_ok p \<Longrightarrow> (id', it) \<in> set (pr_items p) \<longleftrightarrow> map_of (pr_items p) id' = Some it"
  using sm_ok_distinct [OF pr_okD(1)] by (metis map_of_eq_Some_iff)

lemma due_take:
  assumes ok: "pr_ok p" and it: "map_of (pr_items p) id' = Some it" "it_index it \<le> commit"
    and first: "\<forall>e\<in>set (pr_items p). due_key (id', it) \<le> due_key e"
  shows "due commit p = (id', it) # due commit (fst (pr_take id' p))"
proof -
  let ?p = "fst (pr_take id' p)"
  have rest: "set (pr_items ?p) = {e \<in> set (pr_items p). fst e \<noteq> id'}"
    by (auto simp: pr_take_items [OF ok] sm_erase_def)
  have here: "(id', it) \<in> set (pr_items p)" using it(1) in_items_iff [OF ok] by simp
  have only: "e = (id', it)" if "e \<in> set (pr_items p)" "fst e = id'" for e
    using that it(1) in_items_iff [OF ok, of id' "snd e"] by (cases e) auto
  note keys = due_keys [OF pr_take_ok [OF ok]]
  show ?thesis
  proof (rule map_sorted_distinct_set_unique [where f = due_key])
    show "set (due commit p) = set ((id', it) # due commit ?p)"
    proof (intro set_eqI iffI)
      fix e
      assume "e \<in> set (due commit p)"
      then show "e \<in> set ((id', it) # due commit ?p)"
        using only [of e] by (cases "fst e = id'") (simp_all add: set_due rest)
    next
      fix e
      assume "e \<in> set ((id', it) # due commit ?p)"
      then show "e \<in> set (due commit p)" using here it(2) by (auto simp: set_due rest)
    qed
    show "inj_on due_key (set (due commit p) \<union> set ((id', it) # due commit ?p))"
      using due_keys(3) [OF ok] by (rule inj_on_subset) (use here in \<open>auto simp: set_due rest\<close>)
    show "sorted (map due_key ((id', it) # due commit ?p))"
      using keys(1) first by (auto simp: set_due rest)
    show "distinct (map due_key ((id', it) # due commit ?p))"
      using keys(2) by (auto simp: set_due rest)
  qed (use due_keys [OF ok] in auto)
qed

lemma item_group:
  assumes "pr_ok p" "e \<in> set (pr_items p)"
  shows "fst e \<in> set (pr_group p (it_index (snd e)))" "it_index (snd e) \<in> fst ` set (pr_by_index p)"
proof -
  have "map_of (pr_items p) (fst e) = Some (snd e)" using assms in_items_iff by (metis prod.collapse)
  then show mem: "fst e \<in> set (pr_group p (it_index (snd e)))" using pr_okD(6) [OF assms(1)] by simp
  then obtain ids where "map_of (pr_by_index p) (it_index (snd e)) = Some ids"
    by (cases "map_of (pr_by_index p) (it_index (snd e))") (auto simp: pr_group_def)
  then show "it_index (snd e) \<in> fst ` set (pr_by_index p)" by (metis map_of_SomeD fst_conv image_eqI)
qed

lemma group_due:
  assumes ok: "pr_ok p" and index: "pr_by_index p = (i, id' # ids) # rest"
  obtains it where "map_of (pr_items p) id' = Some it" "it_index it = i"
    "\<forall>e\<in>set (pr_items p). due_key (id', it) \<le> due_key e"
proof -
  have "pr_group p i = id' # ids" by (simp add: pr_group_def index)
  then have sorted: "sorted (id' # ids)" and "id' \<in> set (pr_group p i)"
    using pr_okD(4) [OF ok, of i] by simp_all
  then obtain it where it: "map_of (pr_items p) id' = Some it" "it_index it = i"
    using pr_okD(6) [OF ok, of id' i] by auto
  have "due_key (id', it) \<le> due_key e" if e: "e \<in> set (pr_items p)" for e
  proof -
    note mem = item_group [OF ok e]
    have "it_index (snd e) = i \<or> i < it_index (snd e)"
      using pr_okD(2) [OF ok] mem(2) by (auto simp: index sm_ok_Cons)
    then show ?thesis
      using mem(1) sorted \<open>pr_group p i = id' # ids\<close> by (auto simp: it(2) less_eq_prod_def)
  qed
  with it that show ?thesis by blast
qed

lemma nothing_due:
  assumes ok: "pr_ok p" and index: "pr_by_index p = [] \<or> commit < fst (hd (pr_by_index p))"
  shows "due commit p = []" "filter (\<lambda>e. commit < it_index (snd e)) (pr_items p) = pr_items p"
proof -
  have late: "commit < it_index (snd e)" if e: "e \<in> set (pr_items p)" for e
    using item_group(2) [OF ok e] pr_okD(2) [OF ok] index by (cases "pr_by_index p") (auto simp: sm_ok_Cons)
  then show "due commit p = []" by (auto simp: due_def filter_empty_conv not_le)
  show "filter (\<lambda>e. commit < it_index (snd e)) (pr_items p) = pr_items p"
    using late by (simp add: filter_id_conv)
qed

lemma take_through_due:
  assumes "pr_ok p"
  shows "\<exists>p'. pr_take_through commit p ready = Some (p', ready @ map (it_value \<circ> snd) (due commit p)) \<and>
    pr_items p' = filter (\<lambda>e. commit < it_index (snd e)) (pr_items p) \<and> pr_ok p' \<and> pr_next p' = pr_next p"
  using assms
proof (induction "length (due commit p)" arbitrary: p ready rule: less_induct)
  case less
  show ?case
  proof (cases "pr_by_index p = [] \<or> commit < fst (hd (pr_by_index p))")
    case True
    then have "pr_take_through commit p ready = Some (p, ready)"
      by (subst pr_take_through.simps) (auto split: list.splits)
    then show ?thesis using nothing_due [OF less.prems True] less.prems by simp
  next
    case False
    then obtain i ids rest where "pr_by_index p = (i, ids) # rest" "\<not> commit < i"
      by (cases "pr_by_index p") auto
    moreover then have "ids \<noteq> []" using pr_okD(3) [OF less.prems, of i] by auto
    ultimately obtain id' ids' where index: "pr_by_index p = (i, id' # ids') # rest" and le: "\<not> commit < i"
      by (metis list.exhaust)
    obtain it where it: "map_of (pr_items p) id' = Some it" "it_index it = i"
      and first: "\<forall>e\<in>set (pr_items p). due_key (id', it) \<le> due_key e"
      using group_due [OF less.prems index] by metis
    obtain q where take: "pr_take id' p = (q, Some (it_value it))"
      using pr_take_value [of id' p] it(1) by (cases "pr_take id' p") simp
    then have q: "q = fst (pr_take id' p)" by simp
    have due: "due commit p = (id', it) # due commit q"
      unfolding q by (rule due_take [OF less.prems it(1) _ first]) (use it(2) le in auto)
    have "pr_take_through commit p ready = pr_take_through commit q (ready @ [it_value it])"
      using le by (subst pr_take_through.simps) (simp add: index take)
    moreover have "filter (\<lambda>e. commit < it_index (snd e)) (pr_items q) = filter (\<lambda>e. commit < it_index (snd e)) (pr_items p)"
      unfolding q pr_take_items [OF less.prems] sm_erase_def filter_filter
      by (rule filter_cong) (use it le in_items_iff [OF less.prems] in \<open>auto\<close>)
    moreover have "pr_ok q" "pr_next q = pr_next p" unfolding q by (rule pr_take_ok [OF less.prems], rule pr_take_next)
    moreover have "length (due commit q) < length (due commit p)" by (simp add: due)
    ultimately show ?thesis
      using less.hyps [of q "ready @ [it_value it]"] by (simp add: due)
  qed
qed

section \<open>Histories\<close>

text \<open>The values that still wait, as a multiset.\<close>

definition waiting :: "'a PendingRequests \<Rightarrow> 'a multiset" where
  "waiting p = image_mset (it_value \<circ> snd) (mset (pr_items p))"

lemma waiting_add: "pr_ok p \<Longrightarrow> waiting (fst (pr_add i v p)) = add_mset v (waiting p)"
  using pr_next_fresh [of p] by (simp add: waiting_def pr_add_def Let_def sm_insert_def mset_sm_assign)

lemma waiting_split:
  assumes "pr_items q = filter P (pr_items p)"
  shows "waiting p = waiting q + image_mset (it_value \<circ> snd) (mset (filter (\<lambda>e. \<not> P e) (pr_items p)))"
  unfolding waiting_def assms by (metis image_mset_union mset_filter multiset_partition)

lemma waiting_take:
  assumes "pr_ok p"
  shows "waiting p = waiting (fst (pr_take id' p)) + mset (case snd (pr_take id' p) of None \<Rightarrow> [] | Some v \<Rightarrow> [v])"
proof (cases "map_of (pr_items p) id'")
  case None
  then show ?thesis by (simp add: pr_take_def)
next
  case (Some it)
  have "waiting p = waiting (fst (pr_take id' p)) + {#it_value it#}"
    using waiting_split [of "fst (pr_take id' p)" "\<lambda>e. fst e \<noteq> id'" p] pr_take_items [OF assms, of id']
      filter_key [OF pr_okD(1) [OF assms] Some] by (simp add: sm_erase_def)
  then show ?thesis by (simp add: pr_take_value Some)
qed

lemma take_all_facts:
  assumes "pr_ok p" "pr_take_all ids p removed = (q, out)"
  shows "pr_ok q \<and> pr_next q = pr_next p \<and> waiting p + mset removed = waiting q + mset out
    \<and> pr_items q = filter (\<lambda>e. fst e \<notin> set ids) (pr_items p)"
  using assms
proof (induction ids arbitrary: p removed)
  case Nil
  then show ?case by simp
next
  case (Cons id' ids)
  let ?p = "fst (pr_take id' p)"
  have tail: "pr_take_all ids ?p (removed @ (case snd (pr_take id' p) of None \<Rightarrow> [] | Some v \<Rightarrow> [v])) = (q, out)"
    using Cons.prems(2) by (auto split: prod.splits option.splits)
  show ?case
    using Cons.IH [OF pr_take_ok [OF Cons.prems(1)] tail] waiting_take [OF Cons.prems(1), of id']
    by (auto simp: pr_take_next pr_take_items [OF Cons.prems(1)] sm_erase_def ac_simps intro: filter_cong)
qed

lemma waiting_due: "pr_items q = filter (\<lambda>e. commit < it_index (snd e)) (pr_items p) \<Longrightarrow>
    waiting p = waiting q + mset (map (it_value \<circ> snd) (due commit p))"
  using waiting_split [of q "\<lambda>e. commit < it_index (snd e)" p] by (simp add: due_def not_less)

text \<open>
  The calls of the node server: a command that enters the log is added, a timer takes its own
  request, a commit takes all requests it covers, a closed session removes its requests. The two
  lists are the requests that were added and those that were handed back to be answered. Identifiers
  are 64-bit and \<open>add\<close> is called fewer than \<open>2 ^ 64\<close> times.
\<close>

inductive pr_history :: "'a PendingRequests \<Rightarrow> 'a list \<Rightarrow> 'a list \<Rightarrow> bool" where
  started: "pr_history no_requests [] []"
| added: "\<lbrakk>pr_history p xs ys; pr_next p \<noteq> max_u64\<rbrakk> \<Longrightarrow> pr_history (fst (pr_add i v p)) (xs @ [v]) ys"
| expired: "\<lbrakk>pr_history p xs ys; pr_take id' p = (q, r)\<rbrakk> \<Longrightarrow>
    pr_history q xs (ys @ (case r of None \<Rightarrow> [] | Some v \<Rightarrow> [v]))"
| committed: "\<lbrakk>pr_history p xs ys; pr_take_through commit p [] = Some (q, vs)\<rbrakk> \<Longrightarrow> pr_history q xs (ys @ vs)"
| cancelled: "\<lbrakk>pr_history p xs ys; pr_remove_if P p = (q, vs)\<rbrakk> \<Longrightarrow> pr_history q xs (ys @ vs)"

lemma history_facts:
  "pr_history p xs ys \<Longrightarrow> pr_ok p \<and> mset xs = mset ys + waiting p"
proof (induction rule: pr_history.induct)
  case started
  then show ?case by (simp add: no_requests_ok) (simp add: waiting_def no_requests_def)
next
  case (added p xs ys i v)
  then show ?case by (simp add: pr_add_ok waiting_add)
next
  case (expired p xs ys id' q r)
  then show ?case using pr_take_ok [of p id'] waiting_take [of p id'] by (simp add: ac_simps)
next
  case (committed p xs ys commit q vs)
  obtain q' where q': "pr_take_through commit p [] = Some (q', map (it_value \<circ> snd) (due commit p))"
    "pr_items q' = filter (\<lambda>e. commit < it_index (snd e)) (pr_items p)" "pr_ok q'"
    using take_through_due [of p commit "[]"] committed.IH by auto
  then have same: "q = q'" "vs = map (it_value \<circ> snd) (due commit p)" using committed.hyps(2) by simp_all
  then show ?case using waiting_due [OF q'(2)] committed.IH q'(3) by simp
next
  case (cancelled p xs ys P q vs)
  then have "pr_ok q \<and> waiting p + mset [] = waiting q + mset vs"
    using take_all_facts unfolding pr_remove_if_def by blast
  then show ?case using cancelled.IH by simp
qed

text \<open>
  (C37) Whatever was added, expired, committed and cancelled before, the release loop ends, hands back
  exactly the requests whose log index the commit index has reached, ordered by log index and then by
  age, and keeps all others.
\<close>

theorem release_loop_ends:
  assumes "pr_history p xs ys"
  shows "\<exists>q. pr_take_through commit p [] = Some (q, map (it_value \<circ> snd) (due commit p)) \<and>
    pr_items q = filter (\<lambda>e. commit < it_index (snd e)) (pr_items p)"
  using history_facts [OF assms] take_through_due [of p commit "[]"] by auto

text \<open>
  (C38) No request is answered twice and none is lost: in every history the requests that were added
  are those that were handed back together with those that still wait.
\<close>

theorem requests_answered_once:
  assumes "pr_history p xs ys"
  shows "mset xs = mset ys + waiting p"
  using history_facts [OF assms] by simp

definition two_waiters :: "string PendingRequests" where
  "two_waiters = fst (pr_add 4 ''b'' (fst (pr_add 7 ''a'' no_requests)))"

lemma two_waiters_history: "pr_history two_waiters [''a'', ''b''] []"
proof -
  have "pr_history (fst (pr_add 7 ''a'' no_requests)) ([] @ [''a'']) []"
    by (rule pr_history.added [OF pr_history.started]) (simp add: no_requests_def)
  then have "pr_history two_waiters (([] @ [''a'']) @ [''b'']) []"
    unfolding two_waiters_def by (rule pr_history.added) (simp add: no_requests_def pr_add_def Let_def)
  then show ?thesis by simp
qed

theorem release_loop_ends_witness:
  "\<exists>q. pr_take_through 5 two_waiters [] = Some (q, [''b'']) \<and> map fst (pr_items q) = [1]"
proof -
  have "map (it_value \<circ> snd) (due 5 two_waiters) = [''b'']"
    "map fst (filter (\<lambda>e. 5 < it_index (snd e)) (pr_items two_waiters)) = [1]"
    by code_simp+
  then show ?thesis using release_loop_ends [OF two_waiters_history, of 5] by auto
qed

theorem requests_answered_once_witness: "mset [''a'', ''b''] = waiting two_waiters"
  using requests_answered_once [OF two_waiters_history] by simp

end
