(* ===== verification/Outbound_Queue.thy ===== *)
theory Outbound_Queue
  imports Map_Sums
begin

text \<open>
  The write queues of \<open>network/outbound_queue.hpp\<close>. Every session has a queue of frames and all
  queues of a server share one byte budget. A frame owns a reservation of the budget through a
  reference-counted pointer that an active write shares, so that the bytes of a frame count until its
  write is over, even when the queue was cleared before. Reservations live at explicit addresses with
  their number of owners.
\<close>

section \<open>Reservations of the shared budget\<close>

definition kGlobalBytes :: u64 where
  "kGlobalBytes = push_bit 20 32"

definition kClientBytes :: u64 where
  "kClientBytes = push_bit 20 24"

definition kSessionBytes :: u64 where
  "kSessionBytes = push_bit 20 2"

record QueueBudget =
  qb_bytes :: u64
  qb_client_bytes :: u64

record Reservation =
  rs_buffer :: string
  rs_peer :: bool

text \<open>The shared objects: the budget, and every live reservation with its number of owners.\<close>

record Shared =
  sh_budget :: QueueBudget
  sh_live :: "(nat, Reservation \<times> nat) smap"
  sh_fresh :: nat

definition no_shared :: Shared where
  "no_shared = \<lparr>sh_budget = \<lparr>qb_bytes = 0, qb_client_bytes = 0\<rparr>, sh_live = [], sh_fresh = 0\<rparr>"

definition buffer_size :: "string \<Rightarrow> u64" where
  "buffer_size bytes = of_nat (length bytes)"

definition make_reservation :: "string \<Rightarrow> bool \<Rightarrow> Shared \<Rightarrow> Shared \<times> nat" where
  "make_reservation bytes peer sh =
     (let budget = sh_budget sh;
          budget = budget\<lparr>qb_bytes := qb_bytes budget + buffer_size bytes\<rparr>;
          budget = (if \<not> peer then budget\<lparr>qb_client_bytes := qb_client_bytes budget + buffer_size bytes\<rparr> else budget);
          address = sh_fresh sh in
      (sh\<lparr>sh_budget := budget, sh_live := sm_assign address (\<lparr>rs_buffer = bytes, rs_peer = peer\<rparr>, 1) (sh_live sh),
          sh_fresh := Suc address\<rparr>, address))"

definition destroy_reservation :: "Reservation \<Rightarrow> QueueBudget \<Rightarrow> QueueBudget" where
  "destroy_reservation r budget =
     (let budget = budget\<lparr>qb_bytes := qb_bytes budget - buffer_size (rs_buffer r)\<rparr> in
      if \<not> rs_peer r then budget\<lparr>qb_client_bytes := qb_client_bytes budget - buffer_size (rs_buffer r)\<rparr> else budget)"

definition retain :: "nat \<Rightarrow> Shared \<Rightarrow> Shared" where
  "retain address sh = sh\<lparr>sh_live := sm_modify address (\<lambda>(r, n). (r, Suc n)) (sh_live sh)\<rparr>"

definition release :: "nat \<Rightarrow> Shared \<Rightarrow> Shared" where
  "release address sh =
     (case map_of (sh_live sh) address of
        None \<Rightarrow> sh
      | Some (r, n) \<Rightarrow>
          if n \<le> 1 then sh\<lparr>sh_live := sm_erase address (sh_live sh), sh_budget := destroy_reservation r (sh_budget sh)\<rparr>
          else sh\<lparr>sh_live := sm_modify address (\<lambda>(r, n). (r, n - 1)) (sh_live sh)\<rparr>)"

section \<open>The queue of a session\<close>

record QueuedFrame =
  qf_bytes :: nat
  qf_retry :: "(u16 \<times> u64) option"

record OutboundQueue =
  oq_bytes :: u64
  oq_frames :: "QueuedFrame list"

definition empty_queue :: OutboundQueue where
  "empty_queue = \<lparr>oq_bytes = 0, oq_frames = []\<rparr>"

definition oq_push ::
  "string \<Rightarrow> bool \<Rightarrow> (u16 \<times> u64) option \<Rightarrow> Shared \<Rightarrow> OutboundQueue \<Rightarrow> Shared \<times> OutboundQueue \<times> bool" where
  "oq_push bytes peer retry sh q =
     (if retry \<noteq> None \<and> list_ex (\<lambda>frame. qf_retry frame = retry) (oq_frames q) then (sh, q, True)
      else let size' = buffer_size bytes in
      if 64 \<le> length (oq_frames q) \<or> kSessionBytes - oq_bytes q < size'
         \<or> kGlobalBytes - qb_bytes (sh_budget sh) < size'
         \<or> \<not> peer \<and> kClientBytes - qb_client_bytes (sh_budget sh) < size'
      then (sh, q, False)
      else let (sh, accounted) = make_reservation bytes peer sh in
        (sh, q\<lparr>oq_frames := oq_frames q @ [\<lparr>qf_bytes = accounted, qf_retry = retry\<rparr>],
               oq_bytes := oq_bytes q + size'\<rparr>, True))"

text \<open>The caller of \<open>front\<close> becomes an owner. \<open>frame_size\<close> reads the buffer behind a pointer.\<close>

definition oq_front :: "Shared \<Rightarrow> OutboundQueue \<Rightarrow> Shared \<times> nat" where
  "oq_front sh q = (let address = qf_bytes (hd (oq_frames q)) in (retain address sh, address))"

definition frame_size :: "Shared \<Rightarrow> nat \<Rightarrow> u64" where
  "frame_size sh address = (case map_of (sh_live sh) address of None \<Rightarrow> 0 | Some (r, n) \<Rightarrow> buffer_size (rs_buffer r))"

definition oq_pop :: "Shared \<Rightarrow> OutboundQueue \<Rightarrow> Shared \<times> OutboundQueue" where
  "oq_pop sh q =
     (let address = qf_bytes (hd (oq_frames q)) in
      (release address sh, q\<lparr>oq_bytes := oq_bytes q - frame_size sh address, oq_frames := tl (oq_frames q)\<rparr>))"

function oq_clear :: "Shared \<Rightarrow> OutboundQueue \<Rightarrow> Shared \<times> OutboundQueue" where
  "oq_clear sh q = (if oq_frames q = [] then (sh, q) else let (sh, q) = oq_pop sh q in oq_clear sh q)"
  by pat_completeness auto
termination by (relation "measure (\<lambda>(sh, q). length (oq_frames q))") (auto simp: oq_pop_def Let_def)

declare oq_clear.simps [simp del]

section \<open>Accounting\<close>

definition all_bytes :: "Reservation \<times> nat \<Rightarrow> nat" where
  "all_bytes = (\<lambda>(r, n). length (rs_buffer r))"

definition client_bytes :: "Reservation \<times> nat \<Rightarrow> nat" where
  "client_bytes = (\<lambda>(r, n). if rs_peer r then 0 else length (rs_buffer r))"

definition live_size :: "Shared \<Rightarrow> nat \<Rightarrow> nat" where
  "live_size sh a = (case map_of (sh_live sh) a of None \<Rightarrow> 0 | Some v \<Rightarrow> all_bytes v)"

definition owner_count :: "Shared \<Rightarrow> nat \<Rightarrow> nat" where
  "owner_count sh a = (case map_of (sh_live sh) a of None \<Rightarrow> 0 | Some (r, n) \<Rightarrow> n)"

text \<open>The multiset \<open>R\<close> holds every pointer to a reservation, once for each owner.\<close>

definition sh_ok :: "nat multiset \<Rightarrow> Shared \<Rightarrow> bool" where
  "sh_ok R sh \<longleftrightarrow> sm_ok (sh_live sh) \<and> count R = owner_count sh
     \<and> (\<forall>a v. map_of (sh_live sh) a = Some v \<longrightarrow> 0 < snd v \<and> a < sh_fresh sh)
     \<and> unat (qb_bytes (sh_budget sh)) = sum_values all_bytes (sh_live sh) \<and> sum_values all_bytes (sh_live sh) \<le> 32 * 2 ^ 20
     \<and> unat (qb_client_bytes (sh_budget sh)) = sum_values client_bytes (sh_live sh)
     \<and> sum_values client_bytes (sh_live sh) \<le> 24 * 2 ^ 20"

lemma sh_okD:
  assumes "sh_ok R sh"
  shows "sm_ok (sh_live sh)" "count R = owner_count sh"
    "map_of (sh_live sh) a = Some v \<Longrightarrow> 0 < snd v" "map_of (sh_live sh) a = Some v \<Longrightarrow> a < sh_fresh sh"
    "unat (qb_bytes (sh_budget sh)) = sum_values all_bytes (sh_live sh)" "sum_values all_bytes (sh_live sh) \<le> 32 * 2 ^ 20"
    "unat (qb_client_bytes (sh_budget sh)) = sum_values client_bytes (sh_live sh)"
    "sum_values client_bytes (sh_live sh) \<le> 24 * 2 ^ 20"
  using assms unfolding sh_ok_def by blast+

lemma no_shared_ok: "sh_ok {#} no_shared"
  by (simp add: sh_ok_def no_shared_def owner_count_def fun_eq_iff)

lemma owned_live: "sh_ok R sh \<Longrightarrow> a \<in># R \<Longrightarrow> \<exists>r n. map_of (sh_live sh) a = Some (r, n) \<and> 0 < n"
  using sh_okD(2,3) [of R sh] by (fastforce simp: owner_count_def count_greater_zero_iff [symmetric] split: option.splits)

lemma unat_limits:
  "unat kGlobalBytes = 32 * 2 ^ 20" "unat kClientBytes = 24 * 2 ^ 20" "unat kSessionBytes = 2 * 2 ^ 20"
  by (simp_all add: kGlobalBytes_def kClientBytes_def kSessionBytes_def)

lemma room:
  assumes "\<not> limit - used < buffer_size bytes" "unat used \<le> unat limit" "length bytes < 2 ^ 64"
  shows "unat used + length bytes \<le> unat limit" "unat (used + buffer_size bytes) = unat used + length bytes"
proof -
  have size': "unat (buffer_size bytes) = length bytes" using assms(3) by (simp add: buffer_size_def unat_of_nat_exact)
  have "length bytes \<le> unat (limit - used)" using assms(1) size' by (simp add: word_less_nat_alt)
  moreover have "unat (limit - used) = unat limit - unat used"
    by (rule unat_sub_exact) (use assms(2) in \<open>simp add: word_le_nat_alt\<close>)
  ultimately show fits: "unat used + length bytes \<le> unat limit" using assms(2) by simp
  show "unat (used + buffer_size bytes) = unat used + length bytes"
    using unat_add_exact [of used "buffer_size bytes"] fits unat_lt_u64 [of limit] size' by simp
qed

lemma make_reservation_ok:
  assumes ok: "sh_ok R sh" and len: "length bytes < 2 ^ 64"
    and fits: "\<not> kGlobalBytes - qb_bytes (sh_budget sh) < buffer_size bytes"
      "peer \<or> \<not> kClientBytes - qb_client_bytes (sh_budget sh) < buffer_size bytes"
    and made: "make_reservation bytes peer sh = (sh', a)"
  shows "sh_ok (add_mset a R) sh'" "live_size sh' a = length bytes" "\<forall>b\<in>#R. live_size sh' b = live_size sh b"
proof -
  note inv = sh_okD [OF ok]
  have a: "a = sh_fresh sh" using made by (auto simp: make_reservation_def Let_def)
  then have fresh: "map_of (sh_live sh) a = None" using inv(4) by (metis less_irrefl not_None_eq)
  have live: "sh_live sh' = sm_assign a (\<lparr>rs_buffer = bytes, rs_peer = peer\<rparr>, 1) (sh_live sh)"
    and later: "sh_fresh sh' = Suc (sh_fresh sh)" and global: "qb_bytes (sh_budget sh') = qb_bytes (sh_budget sh) + buffer_size bytes"
    and clients: "qb_client_bytes (sh_budget sh') =
      (if peer then qb_client_bytes (sh_budget sh) else qb_client_bytes (sh_budget sh) + buffer_size bytes)"
    using made a by (auto simp: make_reservation_def Let_def)
  have sums: "sum_values all_bytes (sh_live sh') = length bytes + sum_values all_bytes (sh_live sh)"
    "sum_values client_bytes (sh_live sh') = (if peer then 0 else length bytes) + sum_values client_bytes (sh_live sh)"
    unfolding live using sum_values_assign [OF fresh] by (simp_all add: all_bytes_def client_bytes_def)
  have clients_fit: "unat (qb_client_bytes (sh_budget sh)) + length bytes \<le> 24 * 2 ^ 20"
    "unat (qb_client_bytes (sh_budget sh) + buffer_size bytes) = unat (qb_client_bytes (sh_budget sh)) + length bytes"
    if "\<not> peer"
    using room [of kClientBytes "qb_client_bytes (sh_budget sh)" bytes] fits(2) that len inv(7,8)
    by (simp_all add: unat_limits)
  have "count (add_mset a R) = owner_count sh'"
    using inv(2) fresh by (auto simp: owner_count_def live fun_eq_iff)
  moreover have "\<forall>b v. map_of (sh_live sh') b = Some v \<longrightarrow> 0 < snd v \<and> b < sh_fresh sh'"
    using inv(3,4) by (auto simp: live later a less_SucI)
  moreover have "unat (qb_bytes (sh_budget sh')) = sum_values all_bytes (sh_live sh')" "sum_values all_bytes (sh_live sh') \<le> 32 * 2 ^ 20"
    using room [OF fits(1) _ len] inv(5,6) by (simp_all add: sums global unat_limits)
  moreover have "unat (qb_client_bytes (sh_budget sh')) = sum_values client_bytes (sh_live sh')"
    "sum_values client_bytes (sh_live sh') \<le> 24 * 2 ^ 20"
    using clients_fit inv(7,8) by (cases peer; simp add: sums clients)+
  ultimately show "sh_ok (add_mset a R) sh'" using inv(1) unfolding sh_ok_def by (simp add: live)
  show "live_size sh' a = length bytes" by (simp add: live_size_def live all_bytes_def)
  show "\<forall>b\<in>#R. live_size sh' b = live_size sh b"
    using owned_live [OF ok] fresh by (fastforce simp: live_size_def live)
qed

lemma retain_ok:
  assumes ok: "sh_ok R sh" and a: "a \<in># R"
  shows "sh_ok (add_mset a R) (retain a sh)" "live_size (retain a sh) b = live_size sh b"
proof -
  note inv = sh_okD [OF ok]
  obtain r n where "map_of (sh_live sh) a = Some (r, n)" using owned_live [OF ok a] by blast
  then have "count (add_mset a R) = owner_count (retain a sh)"
    using inv(2) by (auto simp: owner_count_def retain_def fun_eq_iff map_of_sm_modify)
  moreover have "sum_values all_bytes (sh_live (retain a sh)) = sum_values all_bytes (sh_live sh)"
    "sum_values client_bytes (sh_live (retain a sh)) = sum_values client_bytes (sh_live sh)"
    by (simp_all add: retain_def sum_values_modify all_bytes_def client_bytes_def split_beta)
  ultimately show "sh_ok (add_mset a R) (retain a sh)"
    using inv unfolding sh_ok_def by (auto simp: retain_def map_of_sm_modify split: if_splits)
  show "live_size (retain a sh) b = live_size sh b"
    by (auto simp: live_size_def retain_def map_of_sm_modify all_bytes_def split: option.splits)
qed

lemma release_ok:
  assumes ok: "sh_ok R sh" and a: "a \<in># R"
  shows "sh_ok (R - {#a#}) (release a sh)" "\<forall>b\<in>#R - {#a#}. live_size (release a sh) b = live_size sh b"
proof -
  note inv = sh_okD [OF ok]
  obtain r n where live: "map_of (sh_live sh) a = Some (r, n)" and pos: "0 < n" using owned_live [OF ok a] by blast
  have owners: "count R a = n" using inv(2) live by (simp add: owner_count_def)
  show "sh_ok (R - {#a#}) (release a sh)"
  proof (cases "n \<le> 1")
    case True
    let ?sh = "release a sh"
    have freed: "sh_live ?sh = sm_erase a (sh_live sh)" "sh_fresh ?sh = sh_fresh sh"
      "sh_budget ?sh = destroy_reservation r (sh_budget sh)"
      using live True by (simp_all add: release_def)
    note sums = sum_values_erase [OF inv(1) live, of all_bytes] sum_values_erase [OF inv(1) live, of client_bytes]
    have size': "unat (buffer_size (rs_buffer r)) = length (rs_buffer r)"
      using sums(1) inv(6) unfolding buffer_size_def by (intro unat_of_nat_exact) (simp add: all_bytes_def)
    have "unat (qb_bytes (sh_budget ?sh)) = sum_values all_bytes (sh_live ?sh)"
      using sums(1) inv(5) size' unat_sub_exact [of "buffer_size (rs_buffer r)" "qb_bytes (sh_budget sh)"]
      by (simp add: freed destroy_reservation_def Let_def all_bytes_def word_le_nat_alt)
    moreover have "unat (qb_client_bytes (sh_budget ?sh)) = sum_values client_bytes (sh_live ?sh)"
      using sums(2) inv(7) size' unat_sub_exact [of "buffer_size (rs_buffer r)" "qb_client_bytes (sh_budget sh)"]
      by (simp add: freed destroy_reservation_def Let_def client_bytes_def word_le_nat_alt)
    moreover have "count (R - {#a#}) = owner_count ?sh"
      using inv(2) owners True pos by (auto simp: owner_count_def freed fun_eq_iff)
    ultimately show ?thesis
      using inv sums unfolding sh_ok_def by (auto simp: freed split: if_splits)
  next
    case False
    have kept: "release a sh = sh\<lparr>sh_live := sm_modify a (\<lambda>(r, n). (r, n - 1)) (sh_live sh)\<rparr>"
      using live False by (simp add: release_def)
    have "count (R - {#a#}) = owner_count (release a sh)"
      using inv(2) live owners by (auto simp: owner_count_def kept fun_eq_iff map_of_sm_modify)
    moreover have "sum_values all_bytes (sh_live (release a sh)) = sum_values all_bytes (sh_live sh)"
      "sum_values client_bytes (sh_live (release a sh)) = sum_values client_bytes (sh_live sh)"
      by (simp_all add: kept sum_values_modify all_bytes_def client_bytes_def split_beta)
    ultimately show ?thesis
      using inv live False unfolding sh_ok_def by (auto simp: kept map_of_sm_modify split: if_splits)
  qed
  have "b \<noteq> a" if "b \<in># R - {#a#}" "n \<le> 1" for b
    using that owners by (auto simp: in_diff_count)
  then show "\<forall>b\<in>#R - {#a#}. live_size (release a sh) b = live_size sh b"
    using live by (auto simp: live_size_def release_def map_of_sm_modify all_bytes_def split: option.splits)
qed

section \<open>All sessions of a server\<close>

record Server =
  sv_shared :: Shared
  sv_queues :: "OutboundQueue list"
  sv_writing :: "nat list"

definition queued :: "OutboundQueue \<Rightarrow> nat multiset" where
  "queued q = mset (map qf_bytes (oq_frames q))"

definition owners :: "Server \<Rightarrow> nat multiset" where
  "owners sv = sum_list (map queued (sv_queues sv)) + mset (sv_writing sv)"

definition queue_ok :: "Shared \<Rightarrow> OutboundQueue \<Rightarrow> bool" where
  "queue_ok sh q \<longleftrightarrow> unat (oq_bytes q) = (\<Sum>frame\<leftarrow>oq_frames q. live_size sh (qf_bytes frame))
     \<and> unat (oq_bytes q) \<le> 2 * 2 ^ 20 \<and> length (oq_frames q) \<le> 64"

definition server_ok :: "Server \<Rightarrow> bool" where
  "server_ok sv \<longleftrightarrow> sh_ok (owners sv) (sv_shared sv) \<and> (\<forall>q\<in>set (sv_queues sv). queue_ok (sv_shared sv) q)"

text \<open>
  What the sessions do with their queues: a connection opens, a frame is pushed, the write of the
  first frame starts and shares its buffer, the frame is popped, a session clears its queue, and a
  write handler goes away and drops its buffer, all in any order.
\<close>

inductive server_reachable :: "Server \<Rightarrow> bool" where
  boot: "server_reachable \<lparr>sv_shared = no_shared, sv_queues = [], sv_writing = []\<rparr>"
| connect: "server_reachable sv \<Longrightarrow> server_reachable (sv\<lparr>sv_queues := sv_queues sv @ [empty_queue]\<rparr>)"
| pushed: "\<lbrakk>server_reachable sv; sv_queues sv = before @ q # after; length bytes < 2 ^ 64;
    oq_push bytes peer retry (sv_shared sv) q = (sh, q', accepted)\<rbrakk> \<Longrightarrow>
    server_reachable (sv\<lparr>sv_shared := sh, sv_queues := before @ q' # after\<rparr>)"
| writing: "\<lbrakk>server_reachable sv; q \<in> set (sv_queues sv); oq_frames q \<noteq> [];
    oq_front (sv_shared sv) q = (sh, address)\<rbrakk> \<Longrightarrow>
    server_reachable (sv\<lparr>sv_shared := sh, sv_writing := address # sv_writing sv\<rparr>)"
| popped: "\<lbrakk>server_reachable sv; sv_queues sv = before @ q # after; oq_frames q \<noteq> [];
    oq_pop (sv_shared sv) q = (sh, q')\<rbrakk> \<Longrightarrow>
    server_reachable (sv\<lparr>sv_shared := sh, sv_queues := before @ q' # after\<rparr>)"
| cleared: "\<lbrakk>server_reachable sv; sv_queues sv = before @ q # after; oq_clear (sv_shared sv) q = (sh, q')\<rbrakk> \<Longrightarrow>
    server_reachable (sv\<lparr>sv_shared := sh, sv_queues := before @ q' # after\<rparr>)"
| written: "\<lbrakk>server_reachable sv; address \<in> set (sv_writing sv)\<rbrakk> \<Longrightarrow>
    server_reachable (sv\<lparr>sv_shared := release address (sv_shared sv), sv_writing := remove1 address (sv_writing sv)\<rparr>)"

lemma queue_ok_cong:
  assumes "\<forall>b\<in>#R. live_size sh' b = live_size sh b" "queued q \<subseteq># R" "queue_ok sh q"
  shows "queue_ok sh' q"
proof -
  have "live_size sh' (qf_bytes frame) = live_size sh (qf_bytes frame)" if "frame \<in> set (oq_frames q)" for frame
  proof -
    have "qf_bytes frame \<in># queued q" using that by (simp add: queued_def)
    then show ?thesis using assms(1,2) by (meson mset_subset_eqD)
  qed
  then have "map (\<lambda>frame. live_size sh' (qf_bytes frame)) (oq_frames q) = map (\<lambda>frame. live_size sh (qf_bytes frame)) (oq_frames q)"
    by simp
  then show ?thesis using assms(3) unfolding queue_ok_def by metis
qed

text \<open>
  What an operation on one queue leaves of the others: \<open>R\<close> are the pointers that are not in this
  queue.
\<close>

definition queue_step :: "nat multiset \<Rightarrow> Shared \<Rightarrow> Shared \<Rightarrow> OutboundQueue \<Rightarrow> bool" where
  "queue_step R sh sh' q' \<longleftrightarrow> sh_ok (queued q' + R) sh' \<and> queue_ok sh' q' \<and> (\<forall>b\<in>#R. live_size sh' b = live_size sh b)"

lemma push_step:
  assumes ok: "sh_ok (queued q + R) sh" "queue_ok sh q" and len: "length bytes < 2 ^ 64"
    and push: "oq_push bytes peer retry sh q = (sh', q', accepted)"
  shows "queue_step R sh sh' q'"
proof (cases "sh' = sh \<and> q' = q")
  case True
  then show ?thesis using ok by (simp add: queue_step_def)
next
  case False
  obtain sh1 a where made: "make_reservation bytes peer sh = (sh1, a)" by fastforce
  let ?q = "q\<lparr>oq_frames := oq_frames q @ [\<lparr>qf_bytes = a, qf_retry = retry\<rparr>], oq_bytes := oq_bytes q + buffer_size bytes\<rparr>"
  let ?full = "64 \<le> length (oq_frames q) \<or> kSessionBytes - oq_bytes q < buffer_size bytes
    \<or> kGlobalBytes - qb_bytes (sh_budget sh) < buffer_size bytes
    \<or> \<not> peer \<and> kClientBytes - qb_client_bytes (sh_budget sh) < buffer_size bytes"
  have "oq_push bytes peer retry sh q = (if retry \<noteq> None \<and> list_ex (\<lambda>frame. qf_retry frame = retry) (oq_frames q)
      then (sh, q, True) else if ?full then (sh, q, False) else (sh1, ?q, True))"
    by (simp only: oq_push_def Let_def made prod.case)
  then have "\<not> ?full" and new: "sh' = sh1" and q': "q' = ?q"
    using push False by (metis prod.inject)+
  then have room: "\<not> 64 \<le> length (oq_frames q)" "\<not> kSessionBytes - oq_bytes q < buffer_size bytes"
    "\<not> kGlobalBytes - qb_bytes (sh_budget sh) < buffer_size bytes"
    "peer \<or> \<not> kClientBytes - qb_client_bytes (sh_budget sh) < buffer_size bytes"
    by simp_all
  note res = make_reservation_ok [OF ok(1) len room(3,4) made, folded new]
  have "queue_ok sh' q" by (rule queue_ok_cong [OF res(3) _ ok(2)]) simp
  then have "queue_ok sh' q'"
    using Outbound_Queue.room [OF room(2) _ len] room(1) res(2) by (simp add: queue_ok_def q' unat_limits)
  then show ?thesis using res(1,3) by (simp add: queue_step_def queued_def q')
qed

lemma pop_step:
  assumes ok: "sh_ok (queued q + R) sh" "queue_ok sh q" and some: "oq_frames q \<noteq> []" and pop: "oq_pop sh q = (sh', q')"
  shows "queue_step R sh sh' q'"
proof -
  obtain frame frames where frames: "oq_frames q = frame # frames" using some by (cases "oq_frames q") auto
  let ?a = "qf_bytes frame"
  have rest: "queued q + R - {#?a#} = queued q' + R" and owned: "?a \<in># queued q + R"
    using pop by (auto simp: queued_def frames oq_pop_def Let_def)
  have sh': "sh' = release ?a sh" and q': "q' = q\<lparr>oq_bytes := oq_bytes q - frame_size sh ?a, oq_frames := frames\<rparr>"
    using pop by (auto simp: frames oq_pop_def Let_def)
  note res = release_ok [OF ok(1) owned, unfolded rest sh' [symmetric]]
  obtain r n where live: "map_of (sh_live sh) ?a = Some (r, n)" using owned_live [OF ok(1) owned] by blast
  have total: "unat (oq_bytes q) = live_size sh ?a + (\<Sum>frame\<leftarrow>frames. live_size sh (qf_bytes frame))"
    and short: "unat (oq_bytes q) \<le> 2 * 2 ^ 20" "length (oq_frames q) \<le> 64"
    using ok(2) by (simp_all add: queue_ok_def frames)
  then have size': "unat (frame_size sh ?a) = live_size sh ?a"
    unfolding frame_size_def live_size_def buffer_size_def all_bytes_def live
    by (simp, intro unat_of_nat_exact) (simp add: live live_size_def all_bytes_def)
  have "queue_ok sh q'"
    using unat_sub_exact [of "frame_size sh ?a" "oq_bytes q"] total size' short
    by (simp add: queue_ok_def q' frames word_le_nat_alt)
  then have "queue_ok sh' q'" by (rule queue_ok_cong [OF res(2), rotated]) simp
  then show ?thesis using res by (simp add: queue_step_def)
qed

lemma queue_step_trans:
  "queue_step R sh sh1 q1 \<Longrightarrow> queue_step R sh1 sh2 q2 \<Longrightarrow> queue_step R sh sh2 q2"
  by (simp add: queue_step_def)

lemma clear_step:
  assumes "sh_ok (queued q + R) sh" "queue_ok sh q" "oq_clear sh q = (sh', q')"
  shows "queue_step R sh sh' q'"
  using assms
proof (induction sh q rule: oq_clear.induct)
  case (1 sh q)
  show ?case
  proof (cases "oq_frames q = []")
    case True
    then show ?thesis using "1.prems" by (simp add: oq_clear.simps [of sh q] queue_step_def)
  next
    case False
    obtain sh1 q1 where pop: "oq_pop sh q = (sh1, q1)" by fastforce
    have step: "queue_step R sh sh1 q1" by (rule pop_step [OF "1.prems"(1,2) False pop])
    have "oq_clear sh1 q1 = (sh', q')" using "1.prems"(3) False pop by (simp add: oq_clear.simps [of sh q])
    then have "queue_step R sh1 sh' q'"
      using "1.IH" [OF False pop [symmetric] refl] step by (simp add: queue_step_def)
    then show ?thesis using step queue_step_trans by blast
  qed
qed

lemma clear_empties: "oq_clear sh q = (sh', q') \<Longrightarrow> oq_frames q' = []"
proof (induction sh q rule: oq_clear.induct)
  case (1 sh q)
  then show ?case
    by (cases "oq_frames q = []") (auto simp: oq_clear.simps [of sh q] split: prod.splits)
qed

lemma owners_queue:
  "sv_queues sv = before @ q # after \<Longrightarrow>
   owners sv = queued q + (sum_list (map queued before) + sum_list (map queued after) + mset (sv_writing sv))"
  by (simp add: owners_def ac_simps)

lemma queued_in_sum: "q \<in> set qs \<Longrightarrow> queued q \<subseteq># sum_list (map queued qs)"
proof -
  assume "q \<in> set qs"
  then obtain a b where "qs = a @ q # b" by (meson split_list)
  then have "sum_list (map queued qs) = queued q + (sum_list (map queued a) + sum_list (map queued b))" by (simp add: ac_simps)
  then show ?thesis by (simp only: mset_subset_eq_add_left)
qed

lemma replace_queue:
  assumes ok: "server_ok sv" and at: "sv_queues sv = before @ q # after"
    and step: "\<And>R. \<lbrakk>sh_ok (queued q + R) (sv_shared sv); queue_ok (sv_shared sv) q\<rbrakk> \<Longrightarrow> queue_step R (sv_shared sv) sh q'"
  shows "server_ok (sv\<lparr>sv_shared := sh, sv_queues := before @ q' # after\<rparr>)"
proof -
  let ?R = "sum_list (map queued before) + sum_list (map queued after) + mset (sv_writing sv)"
  have new: "queue_step ?R (sv_shared sv) sh q'"
    using step ok by (simp add: server_ok_def owners_queue [OF at] at)
  have "queue_ok sh p" if "p \<in> set before \<union> set after" for p
  proof (rule queue_ok_cong [of ?R])
    show "queued p \<subseteq># ?R"
      using that queued_in_sum [of p "before @ after"] subset_mset.order_trans [OF _ mset_subset_eq_add_left] by auto
  qed (use that new ok at in \<open>auto simp: queue_step_def server_ok_def\<close>)
  then show ?thesis
    using new by (auto simp: server_ok_def queue_step_def owners_def ac_simps)
qed

lemma empty_queue_facts [simp]: "queued empty_queue = {#}" "queue_ok sh empty_queue"
  by (simp_all add: queued_def empty_queue_def queue_ok_def)

lemma reachable_server_ok: "server_reachable sv \<Longrightarrow> server_ok sv"
proof (induction rule: server_reachable.induct)
  case boot
  then show ?case by (simp add: server_ok_def owners_def no_shared_ok)
next
  case (connect sv)
  then show ?case by (auto simp: server_ok_def owners_def)
next
  case (pushed sv before q after bytes peer retry sh q' accepted)
  show ?case by (rule replace_queue [OF pushed.IH pushed.hyps(2)]) (rule push_step [OF _ _ pushed.hyps(3,4)])
next
  case (writing sv q sh address)
  then have "address \<in># queued q" and sh: "sh = retain address (sv_shared sv)"
    by (auto simp: oq_front_def Let_def queued_def)
  then have "address \<in># owners sv"
    using queued_in_sum [OF writing.hyps(2)] by (auto simp: owners_def dest: mset_subset_eqD)
  then have "sh_ok (add_mset address (owners sv)) sh" "\<And>b. live_size sh b = live_size (sv_shared sv) b"
    using retain_ok writing.IH by (auto simp: server_ok_def sh)
  then show ?case
    using writing.IH by (auto simp: server_ok_def owners_def queue_ok_def)
next
  case (popped sv before q after sh q')
  show ?case by (rule replace_queue [OF popped.IH popped.hyps(2)]) (rule pop_step [OF _ _ popped.hyps(3,4)])
next
  case (cleared sv before q after sh q')
  show ?case by (rule replace_queue [OF cleared.IH cleared.hyps(2)]) (rule clear_step [OF _ _ cleared.hyps(3)])
next
  case (written sv address)
  let ?R = "sum_list (map queued (sv_queues sv)) + mset (remove1 address (sv_writing sv))"
  have rest: "owners sv - {#address#} = ?R" and owned: "address \<in># owners sv"
    using written.hyps(2) by (auto simp: owners_def)
  note res = release_ok [OF _ owned, of "sv_shared sv", unfolded rest]
  have "queue_ok (release address (sv_shared sv)) q" if "q \<in> set (sv_queues sv)" for q
  proof (rule queue_ok_cong)
    show "queued q \<subseteq># ?R" using subset_mset.order_trans [OF queued_in_sum [OF that]] by simp
  qed (use res written.IH that in \<open>auto simp: server_ok_def\<close>)
  then show ?case using res written.IH by (simp add: server_ok_def owners_def)
qed

lemma accounting_facts:
  assumes "server_reachable sv"
  defines "sh \<equiv> sv_shared sv"
  shows "unat (qb_bytes (sh_budget sh)) = sum_values all_bytes (sh_live sh)" "qb_bytes (sh_budget sh) \<le> kGlobalBytes"
    "unat (qb_client_bytes (sh_budget sh)) = sum_values client_bytes (sh_live sh)" "qb_client_bytes (sh_budget sh) \<le> kClientBytes"
    "map_of (sh_live sh) a \<noteq> None \<longleftrightarrow> a \<in># owners sv"
    "\<forall>q\<in>set (sv_queues sv). unat (oq_bytes q) = (\<Sum>frame\<leftarrow>oq_frames q. live_size sh (qf_bytes frame))
       \<and> oq_bytes q \<le> kSessionBytes \<and> length (oq_frames q) \<le> 64"
    "owners sv = {#} \<longrightarrow> qb_bytes (sh_budget sh) = 0"
proof -
  have ok: "server_ok sv" by (rule reachable_server_ok [OF assms(1)])
  then have inv: "sh_ok (owners sv) sh" by (simp add: server_ok_def sh_def)
  note facts = sh_okD [OF inv]
  show "unat (qb_bytes (sh_budget sh)) = sum_values all_bytes (sh_live sh)" "qb_bytes (sh_budget sh) \<le> kGlobalBytes"
    "unat (qb_client_bytes (sh_budget sh)) = sum_values client_bytes (sh_live sh)" "qb_client_bytes (sh_budget sh) \<le> kClientBytes"
    using facts(5-8) by (simp_all add: word_le_nat_alt unat_limits)
  show live: "map_of (sh_live sh) a \<noteq> None \<longleftrightarrow> a \<in># owners sv" for a
    using facts(2,3) owned_live [OF inv, of a]
    by (auto simp: owner_count_def count_greater_zero_iff [symmetric] simp del: count_greater_zero_iff)
  show "\<forall>q\<in>set (sv_queues sv). unat (oq_bytes q) = (\<Sum>frame\<leftarrow>oq_frames q. live_size sh (qf_bytes frame))
       \<and> oq_bytes q \<le> kSessionBytes \<and> length (oq_frames q) \<le> 64"
    using ok by (auto simp: server_ok_def queue_ok_def sh_def word_le_nat_alt unat_limits)
  show "owners sv = {#} \<longrightarrow> qb_bytes (sh_budget sh) = 0"
  proof
    assume "owners sv = {#}"
    then have "sh_live sh = []" using live by (metis empty_iff map_of_eq_empty_iff set_mset_empty)
    then have "unat (qb_bytes (sh_budget sh)) = 0" using facts(5) by simp
    then show "qb_bytes (sh_budget sh) = 0" by (simp add: unat_eq_zero)
  qed
qed

text \<open>
  (C39) However the sessions push, write, pop, clear and finish writes, the shared budget is exactly the
  size of the buffers that a queue or a write still owns, so that no subtraction wraps; it stays
  within 32 MiB, client frames within 24 MiB, every session within 2 MiB and 64 frames, and it is zero
  again when nothing is queued or being written.
\<close>

theorem outbound_accounting:
  assumes "server_reachable sv"
  shows "unat (qb_bytes (sh_budget (sv_shared sv))) = sum_values all_bytes (sh_live (sv_shared sv))
    \<and> unat (qb_client_bytes (sh_budget (sv_shared sv))) = sum_values client_bytes (sh_live (sv_shared sv))
    \<and> (\<forall>a. map_of (sh_live (sv_shared sv)) a \<noteq> None \<longleftrightarrow> a \<in># owners sv)
    \<and> qb_bytes (sh_budget (sv_shared sv)) \<le> kGlobalBytes \<and> qb_client_bytes (sh_budget (sv_shared sv)) \<le> kClientBytes
    \<and> (\<forall>q\<in>set (sv_queues sv). unat (oq_bytes q) = (\<Sum>frame\<leftarrow>oq_frames q. live_size (sv_shared sv) (qf_bytes frame))
        \<and> oq_bytes q \<le> kSessionBytes \<and> length (oq_frames q) \<le> 64)
    \<and> (owners sv = {#} \<longrightarrow> qb_bytes (sh_budget (sv_shared sv)) = 0)"
  using accounting_facts [OF assms] by blast

definition sample_server :: Server where
  "sample_server =
     (case oq_push ''frame'' False None no_shared empty_queue of
        (sh, q, accepted) \<Rightarrow> \<lparr>sv_shared = sh, sv_queues = [q], sv_writing = []\<rparr>)"

lemma sample_server_reachable: "server_reachable sample_server"
proof -
  let ?sv = "\<lparr>sv_shared = no_shared, sv_queues = [] @ [empty_queue], sv_writing = []\<rparr>"
  have "server_reachable ?sv" using server_reachable.connect [OF server_reachable.boot] by simp
  from server_reachable.pushed [OF this, of "[]" empty_queue "[]" "''frame''" False None]
  show ?thesis by (auto simp: sample_server_def split: prod.splits)
qed

theorem outbound_accounting_witness:
  "unat (qb_bytes (sh_budget (sv_shared sample_server))) = 5"
proof -
  have "sum_values all_bytes (sh_live (sv_shared sample_server)) = 5" by code_simp
  then show ?thesis using outbound_accounting [OF sample_server_reachable] by simp
qed

end
