(* ===== verification/Frame.thy ===== *)
theory Frame
  imports Storage_Bytes
begin

text \<open>
  The length-prefixed frame around one message (\<open>protocol/frame.hpp\<close>, \<open>protocol/frame.cpp\<close>): a
  twenty-byte header, the payload, and the checksum of everything before it. The buffer is filled
  in place as the code fills it; \<open>encode_frame_layout\<close> reads the result as a concatenation. Frames
  round-trip, and no frame with one changed byte is accepted.
\<close>

section \<open>Layout\<close>

text \<open>A scoped enumeration over \<open>uint16_t\<close>: any sixteen-bit value is a value of the type.\<close>

type_synonym MessageType = u16

definition Handshake_type :: MessageType where "Handshake_type = 1"
definition AppendEntries_type :: MessageType where "AppendEntries_type = 2"
definition AppendEntriesResponse_type :: MessageType where "AppendEntriesResponse_type = 3"
definition RequestVote_type :: MessageType where "RequestVote_type = 4"
definition RequestVoteResponse_type :: MessageType where "RequestVoteResponse_type = 5"
definition InstallSnapshot_type :: MessageType where "InstallSnapshot_type = 6"
definition InstallSnapshotResponse_type :: MessageType where "InstallSnapshotResponse_type = 7"
definition ProtocolError_type :: MessageType where "ProtocolError_type = 8"
definition ClientCommand_type :: MessageType where "ClientCommand_type = 9"
definition ClientResponse_type :: MessageType where "ClientResponse_type = 10"
definition StatusQuery_type :: MessageType where "StatusQuery_type = 11"
definition StatusResponse_type :: MessageType where "StatusResponse_type = 12"
definition ManagementQuery_type :: MessageType where "ManagementQuery_type = 13"
definition ManagementReply_type :: MessageType where "ManagementReply_type = 14"

definition kFrameMagic :: string where "kFrameMagic = ''CHOS''"
definition kProtocolMajor :: nat where "kProtocolMajor = 1"
definition kProtocolMinor :: nat where "kProtocolMinor = 0"
definition kFrameHeaderBytes :: nat where "kFrameHeaderBytes = 20"
definition kMaxFramePayload :: nat where "kMaxFramePayload = 1048576"

record Frame =
  frame_type :: MessageType
  frame_correlation :: u64
  frame_payload :: string

record FrameHeader =
  header_type :: MessageType
  header_correlation :: u64
  payload_length :: u32

section \<open>Operations\<close>

definition header_from :: "string \<Rightarrow> FrameHeader Result" where
  "header_from data =
     (if data ! 0 \<noteq> kFrameMagic ! 0 \<or> data ! 1 \<noteq> kFrameMagic ! 1 \<or> data ! 2 \<noteq> kFrameMagic ! 2
         \<or> data ! 3 \<noteq> kFrameMagic ! 3
      then fail ProtocolError ''frame magic is invalid''
      else if code_of (data ! 4) \<noteq> kProtocolMajor
      then fail ProtocolError ''protocol major version is unsupported''
      else let len = get_u32 data 16 in
        if unat len > kMaxFramePayload then fail ProtocolError ''frame payload exceeds 1 MiB''
        else Inr \<lparr>header_type = get_u16 data 6, header_correlation = get_u64 data 8, payload_length = len\<rparr>)"

definition encode_frame :: "Frame \<Rightarrow> string Result" where
  "encode_frame frame =
     (if length (frame_payload frame) > kMaxFramePayload
      then fail ProtocolError ''frame payload exceeds 1 MiB''
      else let
        bytes = zeros (kFrameHeaderBytes + length (frame_payload frame) + 4);
        bytes = bytes[0 := kFrameMagic ! 0];
        bytes = bytes[1 := kFrameMagic ! 1];
        bytes = bytes[2 := kFrameMagic ! 2];
        bytes = bytes[3 := kFrameMagic ! 3];
        bytes = bytes[4 := char_of kProtocolMajor];
        bytes = bytes[5 := char_of kProtocolMinor];
        bytes = write_u16 bytes 6 (frame_type frame);
        bytes = write_u64 bytes 8 (frame_correlation frame);
        bytes = write_u32 bytes 16 (of_nat (length (frame_payload frame)));
        bytes = (if frame_payload frame \<noteq> [] then put bytes kFrameHeaderBytes (frame_payload frame) else bytes);
        bytes = write_u32 bytes (length bytes - 4) (crc32 (take (length bytes - 4) bytes))
      in Inr bytes)"

definition peek_header :: "string \<Rightarrow> FrameHeader Result" where
  "peek_header data =
     (if length data < kFrameHeaderBytes then fail ProtocolError ''frame header is incomplete''
      else header_from data)"

definition decode_frame :: "string \<Rightarrow> Frame Result" where
  "decode_frame data =
     (if length data < kFrameHeaderBytes + 4 then fail ProtocolError ''frame is incomplete''
      else bindE (header_from data) (\<lambda>header.
        let total = kFrameHeaderBytes + unat (payload_length header) + 4 in
        if length data < total then fail ProtocolError ''frame is incomplete''
        else if length data \<noteq> total then fail ProtocolError ''frame length does not match its header''
        else if crc32 (take (total - 4) data) \<noteq> get_u32 data (total - 4)
        then fail ProtocolError ''frame checksum mismatch''
        else Inr \<lparr>frame_type = header_type header, frame_correlation = header_correlation header,
                  frame_payload = sub_bytes data kFrameHeaderBytes (unat (payload_length header))\<rparr>))"

lemmas frame_limits = kFrameHeaderBytes_def kMaxFramePayload_def kProtocolMajor_def kProtocolMinor_def

definition sample_frame :: Frame where
  "sample_frame = \<lparr>frame_type = StatusQuery_type, frame_correlation = 7, frame_payload = ''ping''\<rparr>"

section \<open>The layout as a concatenation\<close>

definition frame_header :: "Frame \<Rightarrow> string" where
  "frame_header f = kFrameMagic @ [char_of kProtocolMajor, char_of kProtocolMinor] @ le_bytes 2 (frame_type f)
     @ le_bytes 8 (frame_correlation f) @ le_bytes 4 (of_nat (length (frame_payload f)) :: u32)"

definition frame_body :: "Frame \<Rightarrow> string" where
  "frame_body f = frame_header f @ frame_payload f"

lemma frame_prefix:
  "(zeros (20 + n + 4))[0 := a, 1 := b, 2 := c, 3 := d, 4 := e, 5 := f] = [a, b, c, d, e, f] @ zeros (n + 18)"
  by (simp add: zeros_def numeral_eq_Suc)

lemma encode_frame_layout:
  assumes "length (frame_payload f) \<le> kMaxFramePayload"
  shows "encode_frame f = Inr (frame_body f @ le_bytes 4 (crc32 (frame_body f)))"
proof -
  let ?p = "frame_payload f" and ?len = "le_bytes 4 (of_nat (length (frame_payload f)) :: u32)"
  let ?h = "kFrameMagic @ [char_of kProtocolMajor, char_of kProtocolMinor]"
  have 1: "(zeros (kFrameHeaderBytes + length ?p + 4))[0 := kFrameMagic ! 0, 1 := kFrameMagic ! 1,
      2 := kFrameMagic ! 2, 3 := kFrameMagic ! 3, 4 := char_of kProtocolMajor, 5 := char_of kProtocolMinor]
      = ?h @ zeros (length ?p + 18)"
    unfolding kFrameHeaderBytes_def frame_prefix by (simp add: kFrameMagic_def)
  have 2: "write_u16 (?h @ zeros (length ?p + 18)) 6 (frame_type f)
      = (?h @ le_bytes 2 (frame_type f)) @ zeros (length ?p + 16)"
    unfolding write_u16_def by (subst put_zeros) (simp_all add: kFrameMagic_def add.commute)
  have 3: "write_u64 ((?h @ le_bytes 2 (frame_type f)) @ zeros (length ?p + 16)) 8 (frame_correlation f)
      = (?h @ le_bytes 2 (frame_type f) @ le_bytes 8 (frame_correlation f)) @ zeros (length ?p + 8)"
    unfolding write_u64_def by (subst put_zeros) (simp_all add: kFrameMagic_def add.commute)
  have 4: "write_u32 ((?h @ le_bytes 2 (frame_type f) @ le_bytes 8 (frame_correlation f)) @ zeros (length ?p + 8)) 16
      (of_nat (length ?p)) = (?h @ le_bytes 2 (frame_type f) @ le_bytes 8 (frame_correlation f) @ ?len) @ zeros (length ?p + 4)"
    unfolding write_u32_def by (subst put_zeros) (simp_all add: kFrameMagic_def add.commute)
  have 5: "put ((?h @ le_bytes 2 (frame_type f) @ le_bytes 8 (frame_correlation f) @ ?len) @ zeros (length ?p + 4))
      kFrameHeaderBytes ?p = frame_body f @ zeros 4"
    by (subst put_zeros) (simp_all add: kFrameMagic_def kFrameHeaderBytes_def frame_body_def frame_header_def)
  have 6: "(?h @ le_bytes 2 (frame_type f) @ le_bytes 8 (frame_correlation f) @ ?len) @ zeros (length ?p + 4)
      = frame_body f @ zeros 4" if "?p = []"
    using that by (simp add: frame_body_def frame_header_def)
  have 7: "write_u32 (frame_body f @ zeros 4) (length (frame_body f @ zeros 4) - 4) c
      = frame_body f @ le_bytes 4 c" for c
    unfolding write_u32_def by (subst put_zeros) (simp_all add: zeros_def)
  have "(if ?p \<noteq> [] then put ((?h @ le_bytes 2 (frame_type f) @ le_bytes 8 (frame_correlation f) @ ?len)
      @ zeros (length ?p + 4)) kFrameHeaderBytes ?p
      else (?h @ le_bytes 2 (frame_type f) @ le_bytes 8 (frame_correlation f) @ ?len) @ zeros (length ?p + 4))
      = frame_body f @ zeros 4"
    using 5 6 by (cases "?p = []") simp_all
  then show ?thesis
    using assms unfolding encode_frame_def Let_def 1 2 3 4 by (simp add: 7 [simplified])
qed

section \<open>Decoding what was encoded\<close>

lemma length_frame_header [simp]: "length (frame_header f) = 20"
  by (simp add: frame_header_def kFrameMagic_def)

lemma length_frame_body [simp]: "length (frame_body f) = 20 + length (frame_payload f)"
  by (simp add: frame_body_def)

lemma frame_header_fields:
  "get_u16 (frame_header f @ post) 6 = frame_type f"
  "get_u64 (frame_header f @ post) 8 = frame_correlation f"
  "get_u32 (frame_header f @ post) 16 = of_nat (length (frame_payload f))"
  using get_written(1) [of "kFrameMagic @ [char_of kProtocolMajor, char_of kProtocolMinor]" 6 "frame_type f"]
    get_written(3) [of "kFrameMagic @ [char_of kProtocolMajor, char_of kProtocolMinor] @ le_bytes 2 (frame_type f)" 8
      "frame_correlation f"]
    get_written(2) [of "kFrameMagic @ [char_of kProtocolMajor, char_of kProtocolMinor] @ le_bytes 2 (frame_type f)
      @ le_bytes 8 (frame_correlation f)" 16 "of_nat (length (frame_payload f))"]
  by (simp_all add: frame_header_def kFrameMagic_def)

lemma unat_payload_length:
  "length (frame_payload f) \<le> kMaxFramePayload \<Longrightarrow>
   unat (of_nat (length (frame_payload f)) :: u32) = length (frame_payload f)"
  by (simp add: unat_of_nat kMaxFramePayload_def)

lemma header_from_header:
  assumes "length (frame_payload f) \<le> kMaxFramePayload"
  shows "header_from (frame_header f @ post) =
    Inr \<lparr>header_type = frame_type f, header_correlation = frame_correlation f,
         payload_length = of_nat (length (frame_payload f))\<rparr>"
proof -
  have "(frame_header f @ post) ! 0 = kFrameMagic ! 0" "(frame_header f @ post) ! 1 = kFrameMagic ! 1"
    "(frame_header f @ post) ! 2 = kFrameMagic ! 2" "(frame_header f @ post) ! 3 = kFrameMagic ! 3"
    "code_of ((frame_header f @ post) ! 4) = kProtocolMajor"
    by (simp_all add: frame_header_def kFrameMagic_def kProtocolMajor_def)
  then show ?thesis
    using assms by (simp add: header_from_def Let_def frame_header_fields unat_payload_length)
qed

lemma slice_payload: "sub_bytes (frame_body f @ post) 20 (length (frame_payload f)) = frame_payload f"
  by (simp add: frame_body_def sub_bytes_append)

text \<open>
  A frame survives the wire: every frame whose payload is within the limit encodes, its header
  can be read from the first twenty bytes, and decoding the bytes gives the same type, correlation
  id and payload; a larger payload is refused with a protocol error.
\<close>

theorem frame_round_trip:
  "if length (frame_payload f) \<le> kMaxFramePayload
   then \<exists>bytes. encode_frame f = Inr bytes \<and> decode_frame bytes = Inr f
     \<and> peek_header (take kFrameHeaderBytes bytes) =
       Inr \<lparr>header_type = frame_type f, header_correlation = frame_correlation f,
            payload_length = of_nat (length (frame_payload f))\<rparr>
   else encode_frame f = fail ProtocolError ''frame payload exceeds 1 MiB''"
proof (cases "length (frame_payload f) \<le> kMaxFramePayload")
  case True
  let ?h = "\<lparr>header_type = frame_type f, header_correlation = frame_correlation f,
    payload_length = of_nat (length (frame_payload f))\<rparr> :: FrameHeader"
  let ?bytes = "frame_body f @ le_bytes 4 (crc32 (frame_body f))"
  have crc: "get_u32 ?bytes (20 + length (frame_payload f)) = crc32 (frame_body f)"
    using get_written(2) [of "frame_body f" "20 + length (frame_payload f)" "crc32 (frame_body f)" "[]"]
    by simp
  have "header_from ?bytes = Inr ?h"
    using header_from_header [OF True, of "frame_payload f @ le_bytes 4 (crc32 (frame_body f))"]
    by (simp add: frame_body_def)
  then have "decode_frame ?bytes = Inr f"
    by (simp add: decode_frame_def kFrameHeaderBytes_def unat_payload_length [OF True] crc slice_payload)
  moreover have "header_from (take kFrameHeaderBytes ?bytes) = Inr ?h"
    using header_from_header [OF True, of "[]"] by (simp add: kFrameHeaderBytes_def frame_body_def)
  ultimately show ?thesis
    using True encode_frame_layout [OF True] by (auto simp: peek_header_def kFrameHeaderBytes_def)
next
  case False
  then show ?thesis by (simp add: encode_frame_def)
qed

lemma decode_frame_sealed: "decode_frame data = Inr f \<Longrightarrow> sealed data"
  by (auto simp: decode_frame_def bindE_def Let_def sealed_def split: sum.splits if_splits)

text \<open>
  (C33) No corrupted frame is accepted: whatever single byte of an encoded frame is changed, header,
  payload or checksum, decoding the result is an error.
\<close>

theorem corrupted_frame_rejected:
  assumes "encode_frame f = Inr bytes" "i < length bytes" "b \<noteq> bytes ! i"
  shows "\<not> is_ok (decode_frame (bytes[i := b]))"
proof -
  have "bytes = frame_body f @ le_bytes 4 (crc32 (frame_body f))"
    using assms(1) encode_frame_layout [of f] by (cases "length (frame_payload f) \<le> kMaxFramePayload")
      (simp_all add: encode_frame_def)
  then have "sealed bytes" by (auto simp: sealed_iff)
  then have "\<not> sealed (bytes[i := b])" using assms(2,3) by (rule sealed_single_byte)
  then show ?thesis using decode_frame_sealed by (auto simp: is_ok_def split: sum.splits)
qed

theorem corrupted_frame_rejected_witness:
  "is_ok (encode_frame sample_frame)
   \<and> \<not> is_ok (decode_frame ((projr (encode_frame sample_frame))[21 := CHR ''o'']))"
proof -
  let ?bytes = "frame_body sample_frame @ le_bytes 4 (crc32 (frame_body sample_frame))"
  have enc: "encode_frame sample_frame = Inr ?bytes"
    by (rule encode_frame_layout) (simp add: sample_frame_def kMaxFramePayload_def)
  have "frame_body sample_frame = frame_header sample_frame @ ''ping''"
    by (simp add: frame_body_def sample_frame_def)
  then have "?bytes ! 21 = CHR ''i''" by (simp add: nth_append)
  then show ?thesis
    using corrupted_frame_rejected [OF enc, of 21 "CHR ''o''"] enc
    by (simp add: sample_frame_def)
qed

end
