(* ===== verification/Domain_Model.thy ===== *)
theory Domain_Model
  imports Domain_Types
begin

text \<open>
  Commands, events and their names: \<open>state/model.hpp\<close> and \<open>model.cpp\<close>, with the canonical one-line
  text of an event. \<open>command_ok\<close> and \<open>event_ok\<close> collect what the value classes guarantee by
  construction and what the handlers of a type expect of its payload.
\<close>

datatype CommandType =
    CreateChoreography | AddDancer | RemoveDancer | MoveDancer
  | DefineFormation | ChangeFormation | TriggerMusicCue | TriggerLightingCue

datatype EventType =
    ChoreographyCreated | DancerAdded | DancerRemoved | DancerMoved
  | FormationDefined | FormationChanged | MusicCueTriggered | LightingCueTriggered | NoOp

datatype Payload =
    CreateChoreographyPayload string StageBounds OverlapPolicy int
  | DancerPayload string Position
  | RemoveDancerPayload string
  | FormationPayload string "string list"
  | CuePayload string "string option"

record Command =
  cmd_id :: string
  cmd_choreography :: string
  cmd_type :: CommandType
  cmd_schema :: u16
  cmd_tick :: int
  cmd_payload :: Payload

record Event =
  ev_id :: string
  ev_command :: string
  ev_choreography :: string
  ev_type :: EventType
  ev_schema :: u16
  ev_tick :: int
  ev_index :: u64
  ev_term :: u64
  ev_payload :: Payload

section \<open>Names\<close>

fun command_type_name :: "CommandType \<Rightarrow> string" where
  "command_type_name CreateChoreography = ''CREATE_CHOREOGRAPHY''"
| "command_type_name AddDancer = ''ADD_DANCER''"
| "command_type_name RemoveDancer = ''REMOVE_DANCER''"
| "command_type_name MoveDancer = ''MOVE_DANCER''"
| "command_type_name DefineFormation = ''DEFINE_FORMATION''"
| "command_type_name ChangeFormation = ''CHANGE_FORMATION''"
| "command_type_name TriggerMusicCue = ''TRIGGER_MUSIC_CUE''"
| "command_type_name TriggerLightingCue = ''TRIGGER_LIGHTING_CUE''"

fun event_type_name :: "EventType \<Rightarrow> string" where
  "event_type_name ChoreographyCreated = ''CHOREOGRAPHY_CREATED''"
| "event_type_name DancerAdded = ''DANCER_ADDED''"
| "event_type_name DancerRemoved = ''DANCER_REMOVED''"
| "event_type_name DancerMoved = ''DANCER_MOVED''"
| "event_type_name FormationDefined = ''FORMATION_DEFINED''"
| "event_type_name FormationChanged = ''FORMATION_CHANGED''"
| "event_type_name MusicCueTriggered = ''MUSIC_CUE_TRIGGERED''"
| "event_type_name LightingCueTriggered = ''LIGHTING_CUE_TRIGGERED''"
| "event_type_name NoOp = ''NOOP''"

definition overlap_policy_name :: "OverlapPolicy \<Rightarrow> string" where
  "overlap_policy_name p = (if p = Allowed then ''allowed'' else ''forbidden'')"

definition parse_command_type :: "string \<Rightarrow> CommandType Result" where
  "parse_command_type name =
     (if name = ''CREATE_CHOREOGRAPHY'' then Inr CreateChoreography
      else if name = ''ADD_DANCER'' then Inr AddDancer
      else if name = ''REMOVE_DANCER'' then Inr RemoveDancer
      else if name = ''MOVE_DANCER'' then Inr MoveDancer
      else if name = ''DEFINE_FORMATION'' then Inr DefineFormation
      else if name = ''CHANGE_FORMATION'' then Inr ChangeFormation
      else if name = ''TRIGGER_MUSIC_CUE'' then Inr TriggerMusicCue
      else if name = ''TRIGGER_LIGHTING_CUE'' then Inr TriggerLightingCue
      else fail UnsupportedType ''unknown command type'')"

definition parse_event_type :: "string \<Rightarrow> EventType Result" where
  "parse_event_type name =
     (if name = ''CHOREOGRAPHY_CREATED'' then Inr ChoreographyCreated
      else if name = ''DANCER_ADDED'' then Inr DancerAdded
      else if name = ''DANCER_REMOVED'' then Inr DancerRemoved
      else if name = ''DANCER_MOVED'' then Inr DancerMoved
      else if name = ''FORMATION_DEFINED'' then Inr FormationDefined
      else if name = ''FORMATION_CHANGED'' then Inr FormationChanged
      else if name = ''MUSIC_CUE_TRIGGERED'' then Inr MusicCueTriggered
      else if name = ''LIGHTING_CUE_TRIGGERED'' then Inr LightingCueTriggered
      else if name = ''NOOP'' then Inr NoOp
      else fail UnsupportedType ''unknown event type'')"

definition parse_overlap_policy :: "string \<Rightarrow> OverlapPolicy Result" where
  "parse_overlap_policy name =
     (if name = ''allowed'' then Inr Allowed
      else if name = ''forbidden'' then Inr Forbidden
      else fail UnsupportedType ''unknown overlap policy'')"

fun event_type_for :: "CommandType \<Rightarrow> EventType" where
  "event_type_for CreateChoreography = ChoreographyCreated"
| "event_type_for AddDancer = DancerAdded"
| "event_type_for RemoveDancer = DancerRemoved"
| "event_type_for MoveDancer = DancerMoved"
| "event_type_for DefineFormation = FormationDefined"
| "event_type_for ChangeFormation = FormationChanged"
| "event_type_for TriggerMusicCue = MusicCueTriggered"
| "event_type_for TriggerLightingCue = LightingCueTriggered"

interpretation command_names: round_trip "\<lambda>_. True" command_type_name parse_command_type
proof unfold_locales
  show "parse_command_type (command_type_name t) = Inr t" for t
    by (cases t) (simp_all add: parse_command_type_def)
qed

interpretation event_names: round_trip "\<lambda>_. True" event_type_name parse_event_type
proof unfold_locales
  show "parse_event_type (event_type_name t) = Inr t" for t
    by (cases t) (simp_all add: parse_event_type_def)
qed

interpretation overlap_names: round_trip "\<lambda>_. True" overlap_policy_name parse_overlap_policy
proof unfold_locales
  show "parse_overlap_policy (overlap_policy_name p) = Inr p" for p
    by (cases p) (simp_all add: parse_overlap_policy_def overlap_policy_name_def)
qed

lemma event_type_for_inject [simp]: "event_type_for a = event_type_for b \<longleftrightarrow> a = b"
  by (cases a; cases b) simp_all

lemma event_type_for_not_noop [simp]: "event_type_for t \<noteq> NoOp"
  by (cases t) simp_all

section \<open>The canonical event text\<close>

fun write_members :: "string list \<Rightarrow> string" where
  "write_members [] = []"
| "write_members [m] = m"
| "write_members (m # n # ms) = m @ '','' @ write_members (n # ms)"

definition show_u64 :: "u64 \<Rightarrow> string" where
  "show_u64 w = show_nat (unat w)"

definition show_u16 :: "u16 \<Rightarrow> string" where
  "show_u16 w = show_nat (unat w)"

fun payload_text :: "Payload \<Rightarrow> string" where
  "payload_text (CreateChoreographyPayload c stage overlap travel) =
     '';width='' @ show_int (width stage) @ '';depth='' @ show_int (depth stage) @
     '';overlap='' @ overlap_policy_name overlap @ '';travel='' @ show_int travel"
| "payload_text (DancerPayload d p) =
     '';dancer='' @ d @ '';x='' @ show_int (pos_x p) @ '';y='' @ show_int (pos_y p)"
| "payload_text (RemoveDancerPayload d) = '';dancer='' @ d"
| "payload_text (FormationPayload f ms) = '';formation='' @ f @ '';members='' @ write_members ms"
| "payload_text (CuePayload c dep) =
     '';cue='' @ c @ '';depends='' @ (case dep of None \<Rightarrow> [] | Some d \<Rightarrow> d)"

definition canonical_event :: "Event \<Rightarrow> string" where
  "canonical_event e =
     ''schema='' @ show_u16 (ev_schema e) @ '';type='' @ event_type_name (ev_type e) @
     '';event='' @ ev_id e @ '';cmd='' @ ev_command e @ '';choreo='' @ ev_choreography e @
     '';tick='' @ show_int (ev_tick e) @ '';index='' @ show_u64 (ev_index e) @
     '';term='' @ show_u64 (ev_term e) @
     (if ev_type e = NoOp then [] else payload_text (ev_payload e))"

section \<open>Well-formed commands and events\<close>

fun payload_values_ok :: "Payload \<Rightarrow> bool" where
  "payload_values_ok (CreateChoreographyPayload c stage overlap travel) \<longleftrightarrow>
     id_ok c \<and> bounds_ok stage \<and> in_i32 travel"
| "payload_values_ok (DancerPayload d p) \<longleftrightarrow> id_ok d \<and> position_ok p"
| "payload_values_ok (RemoveDancerPayload d) \<longleftrightarrow> id_ok d"
| "payload_values_ok (FormationPayload f ms) \<longleftrightarrow> id_ok f \<and> list_all id_ok ms"
| "payload_values_ok (CuePayload c dep) \<longleftrightarrow> id_ok c \<and> pred_option id_ok dep"

text \<open>The payload an event type carries; a no-op carries the placeholder that \<open>parse_event\<close>
  starts from, and a create payload names the choreography of its envelope.\<close>

definition placeholder_payload :: "string \<Rightarrow> Payload" where
  "placeholder_payload choreo =
     CreateChoreographyPayload choreo \<lparr>width = 1, depth = 1\<rparr> Forbidden 0"

fun payload_fits :: "string \<Rightarrow> EventType \<Rightarrow> Payload \<Rightarrow> bool" where
  "payload_fits c NoOp p \<longleftrightarrow> p = placeholder_payload c"
| "payload_fits c ChoreographyCreated (CreateChoreographyPayload c' s o' t) \<longleftrightarrow> c' = c"
| "payload_fits c DancerAdded (DancerPayload d p) \<longleftrightarrow> True"
| "payload_fits c DancerMoved (DancerPayload d p) \<longleftrightarrow> True"
| "payload_fits c DancerRemoved (RemoveDancerPayload d) \<longleftrightarrow> True"
| "payload_fits c FormationDefined (FormationPayload f ms) \<longleftrightarrow> True"
| "payload_fits c FormationChanged (FormationPayload f ms) \<longleftrightarrow> True"
| "payload_fits c MusicCueTriggered (CuePayload q d) \<longleftrightarrow> True"
| "payload_fits c LightingCueTriggered (CuePayload q d) \<longleftrightarrow> True"
| "payload_fits c _ _ \<longleftrightarrow> False"

definition event_ok :: "Event \<Rightarrow> bool" where
  "event_ok e \<longleftrightarrow>
     id_ok (ev_id e) \<and> id_ok (ev_command e) \<and> id_ok (ev_choreography e) \<and> tick_ok (ev_tick e) \<and>
     ev_term e \<noteq> 0 \<and> payload_values_ok (ev_payload e) \<and>
     payload_fits (ev_choreography e) (ev_type e) (ev_payload e)"

definition command_ok :: "Command \<Rightarrow> bool" where
  "command_ok c \<longleftrightarrow>
     id_ok (cmd_id c) \<and> id_ok (cmd_choreography c) \<and> tick_ok (cmd_tick c) \<and>
     payload_values_ok (cmd_payload c) \<and>
     payload_fits (cmd_choreography c) (event_type_for (cmd_type c)) (cmd_payload c)"

end
