(* ===== verification/Event_Text.thy ===== *)
theory Event_Text
  imports Domain_Model
begin

text \<open>
  The two text parsers: \<open>parse_event\<close> of \<open>state/store.cpp\<close>, which reads the lines of the event
  log back, and \<open>protocol/command_codec.cpp\<close>, which prints and parses the commands a client or a
  log entry carries. Both formats are a list of \<open>key=value\<close> fields separated by semicolons, and
  both round trip on well-formed values.
\<close>

section \<open>Fields\<close>

abbreviation quoted_eq :: string where
  "quoted_eq \<equiv> [CHR 0x27, CHR ''='', CHR 0x27]"

definition add_field :: "Error \<Rightarrow> (string, string) smap \<Rightarrow> string \<Rightarrow> (string, string) smap Result" where
  "add_field missing flds token =
     (if token = [] then Inr flds
      else if CHR ''='' \<notin> set token then Inl missing
      else Inr (sm_insert (takeWhile (\<lambda>c. c \<noteq> CHR ''='') token)
                  (tl (dropWhile (\<lambda>c. c \<noteq> CHR ''='') token)) flds))"

definition parse_fields :: "string \<Rightarrow> (string, string) smap Result" where
  "parse_fields line =
     foldE (add_field (Error StoreError (''event record is missing '' @ quoted_eq))) [] (getline_split CHR '';'' line)"

definition require_field :: "(string, string) smap \<Rightarrow> string \<Rightarrow> string Result" where
  "require_field flds key =
     (case map_of flds key of
        None \<Rightarrow> fail StoreError (''event record missing field '' @ key)
      | Some v \<Rightarrow> Inr v)"

definition parse_i64 :: "(string, string) smap \<Rightarrow> string \<Rightarrow> int Result" where
  "parse_i64 flds key =
     bindE (require_field flds key) (\<lambda>raw.
       case stoll raw of Some i \<Rightarrow> Inr i | None \<Rightarrow> fail StoreError (''invalid integer field '' @ key))"

definition parse_u64 :: "(string, string) smap \<Rightarrow> string \<Rightarrow> u64 Result" where
  "parse_u64 flds key =
     bindE (require_field flds key) (\<lambda>raw.
       case stoull raw of Some w \<Rightarrow> Inr w | None \<Rightarrow> fail StoreError (''invalid unsigned field '' @ key))"

definition parse_members :: "string \<Rightarrow> string list Result" where
  "parse_members raw =
     (if raw = [] then Inr []
      else foldE (\<lambda>ms item. bindE (parse_id item) (\<lambda>i. Inr (ms @ [i]))) [] (getline_split CHR '','' raw))"

section \<open>Parsing an event line\<close>

definition parse_create_event :: "(string, string) smap \<Rightarrow> string \<Rightarrow> Payload Result" where
  "parse_create_event flds choreo =
     (let w = parse_i64 flds ''width''; d = parse_i64 flds ''depth'';
          overlap_raw = require_field flds ''overlap''; travel = parse_i64 flds ''travel''
      in if \<not> is_ok w \<or> \<not> is_ok d \<or> \<not> is_ok overlap_raw \<or> \<not> is_ok travel then
           fail StoreError ''create event is missing stage fields''
         else
           let stage = stage_from_mm (wrap_i32 (projr w)) (wrap_i32 (projr d));
               overlap = parse_overlap_policy (projr overlap_raw)
           in if \<not> is_ok stage \<or> \<not> is_ok overlap then
                fail StoreError ''create event has invalid stage fields''
              else Inr (CreateChoreographyPayload choreo (projr stage) (projr overlap)
                          (wrap_i32 (projr travel))))"

definition parse_dancer_event :: "(string, string) smap \<Rightarrow> Payload Result" where
  "parse_dancer_event flds =
     (let dancer_raw = require_field flds ''dancer'';
          x = parse_i64 flds ''x''; y = parse_i64 flds ''y''
      in if \<not> is_ok dancer_raw \<or> \<not> is_ok x \<or> \<not> is_ok y then
           fail StoreError ''dancer event is missing fields''
         else
           let dancer = parse_id (projr dancer_raw);
               position = position_from_mm (wrap_i32 (projr x)) (wrap_i32 (projr y))
           in if \<not> is_ok dancer \<or> \<not> is_ok position then
                fail StoreError ''dancer event has invalid fields''
              else Inr (DancerPayload (projr dancer) (projr position)))"

definition parse_removed_event :: "(string, string) smap \<Rightarrow> Payload Result" where
  "parse_removed_event flds =
     bindE (require_field flds ''dancer'') (\<lambda>raw.
     bindE (parse_id raw) (\<lambda>dancer. Inr (RemoveDancerPayload dancer)))"

definition parse_formation_event :: "(string, string) smap \<Rightarrow> Payload Result" where
  "parse_formation_event flds =
     (let formation_raw = require_field flds ''formation'';
          members_raw = require_field flds ''members''
      in if \<not> is_ok formation_raw \<or> \<not> is_ok members_raw then
           fail StoreError ''formation event is missing fields''
         else
           bindE (parse_id (projr formation_raw)) (\<lambda>formation.
           bindE (parse_members (projr members_raw)) (\<lambda>members.
           Inr (FormationPayload formation members))))"

definition parse_depends :: "(string, string) smap \<Rightarrow> string option Result" where
  "parse_depends flds =
     (case map_of flds ''depends'' of
        None \<Rightarrow> Inr None
      | Some raw \<Rightarrow>
          if raw = [] then Inr None else bindE (parse_id raw) (\<lambda>dep. Inr (Some dep)))"

definition parse_cue_event :: "(string, string) smap \<Rightarrow> Payload Result" where
  "parse_cue_event flds =
     bindE (require_field flds ''cue'') (\<lambda>raw.
     bindE (parse_id raw) (\<lambda>cue.
     bindE (parse_depends flds) (\<lambda>depends. Inr (CuePayload cue depends))))"

fun parse_event_payload :: "(string, string) smap \<Rightarrow> string \<Rightarrow> EventType \<Rightarrow> Payload Result" where
  "parse_event_payload flds choreo ChoreographyCreated = parse_create_event flds choreo"
| "parse_event_payload flds choreo DancerAdded = parse_dancer_event flds"
| "parse_event_payload flds choreo DancerMoved = parse_dancer_event flds"
| "parse_event_payload flds choreo DancerRemoved = parse_removed_event flds"
| "parse_event_payload flds choreo FormationDefined = parse_formation_event flds"
| "parse_event_payload flds choreo FormationChanged = parse_formation_event flds"
| "parse_event_payload flds choreo MusicCueTriggered = parse_cue_event flds"
| "parse_event_payload flds choreo LightingCueTriggered = parse_cue_event flds"
| "parse_event_payload flds choreo NoOp = Inr (placeholder_payload choreo)"

definition parse_event :: "string \<Rightarrow> Event Result" where
  "parse_event line =
     bindE (parse_fields line) (\<lambda>flds.
       let schema_raw = parse_u64 flds ''schema''; type_raw = require_field flds ''type'';
           event_raw = require_field flds ''event''; cmd_raw = require_field flds ''cmd'';
           choreo_raw = require_field flds ''choreo''; tick_raw = parse_i64 flds ''tick'';
           index_raw = parse_u64 flds ''index''; term_raw = parse_u64 flds ''term''
       in if \<not> is_ok schema_raw \<or> \<not> is_ok type_raw \<or> \<not> is_ok event_raw \<or> \<not> is_ok cmd_raw \<or>
             \<not> is_ok choreo_raw \<or> \<not> is_ok tick_raw \<or> \<not> is_ok index_raw \<or> \<not> is_ok term_raw then
            fail StoreError ''event record is missing required envelope fields''
          else
            let type = parse_event_type (projr type_raw); event_id = parse_id (projr event_raw);
                command_id = parse_id (projr cmd_raw); choreography_id = parse_id (projr choreo_raw);
                tick = from_ticks (projr tick_raw); index = parse_log_index (projr index_raw);
                term = parse_term (projr term_raw)
            in if \<not> is_ok type \<or> \<not> is_ok event_id \<or> \<not> is_ok command_id \<or> \<not> is_ok choreography_id \<or>
                  \<not> is_ok tick \<or> \<not> is_ok index \<or> \<not> is_ok term then
                 fail StoreError ''event envelope contains invalid values''
               else
                 bindE (parse_event_payload flds (projr choreography_id) (projr type)) (\<lambda>payload.
                 Inr \<lparr>ev_id = projr event_id, ev_command = projr command_id,
                       ev_choreography = projr choreography_id, ev_type = projr type,
                       ev_schema = ucast (projr schema_raw), ev_tick = projr tick,
                       ev_index = projr index, ev_term = projr term, ev_payload = payload\<rparr>))"

section \<open>Commands\<close>

definition fields_from :: "string \<Rightarrow> (string, string) smap Result" where
  "fields_from src =
     foldE (add_field (Error ProtocolError (''command field is missing '' @ quoted_eq))) [] (getline_split CHR '';'' src)"

definition required :: "(string, string) smap \<Rightarrow> string \<Rightarrow> string Result" where
  "required flds key =
     (case map_of flds key of
        None \<Rightarrow> fail ProtocolError (''command missing '' @ key)
      | Some v \<Rightarrow> Inr v)"

definition required_i64 :: "(string, string) smap \<Rightarrow> string \<Rightarrow> int Result" where
  "required_i64 flds key =
     bindE (required flds key) (\<lambda>raw.
       case from_chars_i64 raw of
         Some i \<Rightarrow> Inr i
       | None \<Rightarrow> fail ProtocolError (''invalid integer '' @ key))"

definition required_i32 :: "(string, string) smap \<Rightarrow> string \<Rightarrow> int Result" where
  "required_i32 flds key =
     bindE (required_i64 flds key) (\<lambda>i.
       if i < - (2 ^ 31) \<or> 2 ^ 31 - 1 < i then fail ProtocolError (''integer out of range '' @ key)
       else Inr i)"

definition members_of :: "string list \<Rightarrow> string" where
  "members_of ms = foldl (\<lambda>t m. (if t \<noteq> [] then t @ '','' else t) @ m) [] ms"

fun command_payload_text :: "Payload \<Rightarrow> string" where
  "command_payload_text (CreateChoreographyPayload c stage overlap travel) =
     '';width='' @ show_int (width stage) @ '';depth='' @ show_int (depth stage) @
     '';overlap='' @ overlap_policy_name overlap @ '';travel='' @ show_int travel"
| "command_payload_text (DancerPayload d p) =
     '';dancer='' @ d @ '';x='' @ show_int (pos_x p) @ '';y='' @ show_int (pos_y p)"
| "command_payload_text (RemoveDancerPayload d) = '';dancer='' @ d"
| "command_payload_text (FormationPayload f ms) = '';formation='' @ f @ '';members='' @ members_of ms"
| "command_payload_text (CuePayload c dep) =
     '';cue='' @ c @ '';depends='' @ (case dep of None \<Rightarrow> [] | Some d \<Rightarrow> d)"

definition canonical_command :: "Command \<Rightarrow> string" where
  "canonical_command c =
     ''schema='' @ show_u16 (cmd_schema c) @ '';type='' @ command_type_name (cmd_type c) @
     '';cmd='' @ cmd_id c @ '';choreo='' @ cmd_choreography c @ '';tick='' @ show_int (cmd_tick c) @
     command_payload_text (cmd_payload c)"

definition parse_create_command :: "(string, string) smap \<Rightarrow> string \<Rightarrow> Payload Result" where
  "parse_create_command flds choreo =
     (let w = required_i32 flds ''width''; d = required_i32 flds ''depth'';
          travel = required_i32 flds ''travel''; overlap_name = required flds ''overlap''
      in if \<not> is_ok w \<or> \<not> is_ok d \<or> \<not> is_ok travel \<or> \<not> is_ok overlap_name then
           fail ProtocolError ''create command is incomplete''
         else
           let stage = stage_from_mm (projr w) (projr d);
               overlap = parse_overlap_policy (projr overlap_name)
           in if \<not> is_ok stage \<or> \<not> is_ok overlap then
                fail ProtocolError ''create command stage is invalid''
              else Inr (CreateChoreographyPayload choreo (projr stage) (projr overlap) (projr travel)))"

definition parse_dancer_command :: "(string, string) smap \<Rightarrow> Payload Result" where
  "parse_dancer_command flds =
     (let dancer = required flds ''dancer'';
          x = required_i32 flds ''x''; y = required_i32 flds ''y''
      in if \<not> is_ok dancer \<or> \<not> is_ok x \<or> \<not> is_ok y then
           fail ProtocolError ''dancer command is incomplete''
         else
           let i = parse_id (projr dancer); position = position_from_mm (projr x) (projr y)
           in if \<not> is_ok i \<or> \<not> is_ok position then fail ProtocolError ''dancer command is invalid''
              else Inr (DancerPayload (projr i) (projr position)))"

definition parse_remove_command :: "(string, string) smap \<Rightarrow> Payload Result" where
  "parse_remove_command flds =
     bindE (required flds ''dancer'') (\<lambda>raw.
     bindE (parse_id raw) (\<lambda>i. Inr (RemoveDancerPayload i)))"

definition parse_formation_command :: "(string, string) smap \<Rightarrow> Payload Result" where
  "parse_formation_command flds =
     (let formation = required flds ''formation''; members_raw = required flds ''members''
      in if \<not> is_ok formation \<or> \<not> is_ok members_raw then
           fail ProtocolError ''formation command is incomplete''
         else
           bindE (parse_id (projr formation)) (\<lambda>i.
           bindE (foldE (\<lambda>ms item. bindE (parse_id item) (\<lambda>m. Inr (ms @ [m]))) []
                    (getline_split CHR '','' (projr members_raw))) (\<lambda>members.
           Inr (FormationPayload i members))))"

definition parse_cue_command :: "(string, string) smap \<Rightarrow> Payload Result" where
  "parse_cue_command flds =
     bindE (required flds ''cue'') (\<lambda>raw.
     bindE (parse_id raw) (\<lambda>i.
     bindE (parse_depends flds) (\<lambda>depends. Inr (CuePayload i depends))))"

fun parse_command_payload :: "(string, string) smap \<Rightarrow> string \<Rightarrow> CommandType \<Rightarrow> Payload Result" where
  "parse_command_payload flds choreo CreateChoreography = parse_create_command flds choreo"
| "parse_command_payload flds choreo AddDancer = parse_dancer_command flds"
| "parse_command_payload flds choreo MoveDancer = parse_dancer_command flds"
| "parse_command_payload flds choreo RemoveDancer = parse_remove_command flds"
| "parse_command_payload flds choreo DefineFormation = parse_formation_command flds"
| "parse_command_payload flds choreo ChangeFormation = parse_formation_command flds"
| "parse_command_payload flds choreo TriggerMusicCue = parse_cue_command flds"
| "parse_command_payload flds choreo TriggerLightingCue = parse_cue_command flds"

definition parse_command :: "string \<Rightarrow> Command Result" where
  "parse_command src =
     bindE (fields_from src) (\<lambda>flds.
       let schema = required_i64 flds ''schema''; type_name = required flds ''type'';
           command_id = required flds ''cmd''; choreography = required flds ''choreo'';
           tick = required_i64 flds ''tick''
       in if \<not> is_ok schema \<or> \<not> is_ok type_name \<or> \<not> is_ok command_id \<or> \<not> is_ok choreography \<or>
             \<not> is_ok tick then
            fail ProtocolError ''command envelope is incomplete''
          else if projr schema \<noteq> uint kCurrentSchemaVersion then
            fail UnsupportedVersion ''command schema version is unsupported''
          else
            let parsed_type = parse_command_type (projr type_name);
                parsed_id = parse_id (projr command_id);
                parsed_show = parse_id (projr choreography);
                parsed_tick = from_ticks (projr tick)
            in if \<not> is_ok parsed_type \<or> \<not> is_ok parsed_id \<or> \<not> is_ok parsed_show \<or> \<not> is_ok parsed_tick then
                 fail ProtocolError ''command envelope is invalid''
               else
                 bindE (parse_command_payload flds (projr parsed_show) (projr parsed_type)) (\<lambda>payload.
                 Inr \<lparr>cmd_id = projr parsed_id, cmd_choreography = projr parsed_show,
                       cmd_type = projr parsed_type, cmd_schema = word_of_int (projr schema),
                       cmd_tick = projr parsed_tick, cmd_payload = payload\<rparr>))"

section \<open>Reading printed fields back\<close>

definition render_field :: "string \<times> string \<Rightarrow> string" where
  "render_field f = fst f @ CHR ''='' # snd f"

definition field_ok :: "string \<times> string \<Rightarrow> bool" where
  "field_ok f \<longleftrightarrow> CHR '';'' \<notin> set (fst f) \<and> CHR ''='' \<notin> set (fst f) \<and> CHR '';'' \<notin> set (snd f)"

lemma add_rendered: "field_ok f \<Longrightarrow> add_field err m (render_field f) = Inr (sm_insert (fst f) (snd f) m)"
  by (simp add: add_field_def render_field_def field_ok_def takeWhile_neq)

lemma foldE_add_rendered:
  "list_all field_ok fs \<Longrightarrow> foldE (add_field err) m (map render_field fs) = Inr (sm_merge m fs)"
  by (induction fs arbitrary: m) (simp_all add: add_rendered sm_merge_def)

lemma split_rendered:
  assumes "list_all field_ok fs"
  shows "getline_split CHR '';'' (join CHR '';'' (map render_field fs)) = map render_field fs"
  by (rule getline_split_join) (use assms in \<open>auto simp: list_all_iff field_ok_def render_field_def\<close>)

lemma fields_of_rendered:
  assumes "list_all field_ok fs"
  shows "parse_fields (join CHR '';'' (map render_field fs)) = Inr (sm_merge [] fs)"
    and "fields_from (join CHR '';'' (map render_field fs)) = Inr (sm_merge [] fs)"
  using assms by (simp_all add: parse_fields_def fields_from_def split_rendered foldE_add_rendered)

lemma find_rendered [simp]: "map_of (sm_merge [] fs) k = map_of fs k"
  by (simp add: find_merge)

text \<open>The fields of a payload, an event and a command, in the order they are printed.\<close>

fun payload_fields :: "Payload \<Rightarrow> (string \<times> string) list" where
  "payload_fields (CreateChoreographyPayload c stage overlap travel) =
     [(''width'', show_int (width stage)), (''depth'', show_int (depth stage)),
      (''overlap'', overlap_policy_name overlap), (''travel'', show_int travel)]"
| "payload_fields (DancerPayload d p) =
     [(''dancer'', d), (''x'', show_int (pos_x p)), (''y'', show_int (pos_y p))]"
| "payload_fields (RemoveDancerPayload d) = [(''dancer'', d)]"
| "payload_fields (FormationPayload f ms) = [(''formation'', f), (''members'', join CHR '','' ms)]"
| "payload_fields (CuePayload c dep) =
     [(''cue'', c), (''depends'', case dep of None \<Rightarrow> [] | Some d \<Rightarrow> d)]"

definition event_fields :: "Event \<Rightarrow> (string \<times> string) list" where
  "event_fields e =
     [(''schema'', show_u16 (ev_schema e)), (''type'', event_type_name (ev_type e)),
      (''event'', ev_id e), (''cmd'', ev_command e), (''choreo'', ev_choreography e),
      (''tick'', show_int (ev_tick e)), (''index'', show_u64 (ev_index e)),
      (''term'', show_u64 (ev_term e))] @
     (if ev_type e = NoOp then [] else payload_fields (ev_payload e))"

definition command_fields :: "Command \<Rightarrow> (string \<times> string) list" where
  "command_fields c =
     [(''schema'', show_u16 (cmd_schema c)), (''type'', command_type_name (cmd_type c)),
      (''cmd'', cmd_id c), (''choreo'', cmd_choreography c), (''tick'', show_int (cmd_tick c))] @
     payload_fields (cmd_payload c)"


lemma write_members_join: "write_members ms = join CHR '','' ms"
  by (induction ms rule: write_members.induct) simp_all

lemma join_prefix: "join d ((m @ d # a) # ms) = m @ d # join d (a # ms)"
  by (cases ms) simp_all

lemma members_of_join: "list_all id_ok ms \<Longrightarrow> members_of ms = join CHR '','' ms"
proof -
  let ?step = "\<lambda>t m. (if t \<noteq> [] then t @ '','' else t) @ (m :: string)"
  have later: "foldl ?step t (m # ms) = t @ CHR '','' # join CHR '','' (m # ms)"
    if "t \<noteq> []" for t m ms
    using that by (induction ms arbitrary: t m) (simp_all only: foldl.simps, simp_all add: join_prefix)
  assume ok: "list_all id_ok ms"
  show ?thesis
  proof (cases ms)
    case (Cons m ns)
    then have "m \<noteq> []" using ok by auto
    moreover have "members_of ms = foldl ?step m ns" by (simp add: members_of_def Cons)
    ultimately show ?thesis
      using later [of m] by (cases ns) (simp_all add: Cons del: foldl_Cons)
  qed (simp add: members_of_def)
qed

lemma canonical_event_fields: "canonical_event e = join CHR '';'' (map render_field (event_fields e))"
  by (cases "ev_payload e")
    (simp_all add: canonical_event_def event_fields_def render_field_def write_members_join)

lemma canonical_command_fields:
  "command_ok c \<Longrightarrow> canonical_command c = join CHR '';'' (map render_field (command_fields c))"
  by (cases "cmd_payload c")
    (simp_all add: canonical_command_def command_fields_def render_field_def members_of_join command_ok_def)

section \<open>Round trips\<close>

text \<open>No printed value contains a semicolon.\<close>

lemma no_semicolon [simp]:
  "CHR '';'' \<notin> set (show_int i)" "CHR '';'' \<notin> set (show_u16 v)" "CHR '';'' \<notin> set (show_u64 w)"
  "CHR '';'' \<notin> set (event_type_name t)" "CHR '';'' \<notin> set (command_type_name u)"
  "CHR '';'' \<notin> set (overlap_policy_name p)"
  by (auto simp: show_u16_def show_u64_def overlap_policy_name_def
      dest: show_int_chars show_nat_digits digit_not_special)
    (cases t; simp; fail | cases u; simp)+

lemma join_free: "c \<noteq> d \<Longrightarrow> \<forall>t\<in>set ts. c \<notin> set t \<Longrightarrow> c \<notin> set (join d ts)"
  by (induction d ts rule: join.induct) auto

lemma join_ids_free: "list_all id_ok ms \<Longrightarrow> CHR '';'' \<notin> set (join CHR '','' ms)"
  by (rule join_free) (auto simp: list_all_iff id_ok_free)

lemma payload_fields_ok: "payload_values_ok p \<Longrightarrow> list_all field_ok (payload_fields p)"
  by (cases p) (auto simp: field_ok_def id_ok_free dest: join_ids_free split: option.splits)

lemma event_fields_ok: "event_ok e \<Longrightarrow> list_all field_ok (event_fields e)"
  by (simp add: event_ok_def event_fields_def payload_fields_ok) (simp add: field_ok_def id_ok_free)

lemma command_fields_ok: "command_ok c \<Longrightarrow> list_all field_ok (command_fields c)"
  by (simp add: command_ok_def command_fields_def payload_fields_ok) (simp add: field_ok_def id_ok_free)

lemma collect_members:
  "list_all id_ok ms \<Longrightarrow>
   foldE (\<lambda>ms item. bindE (parse_id item) (\<lambda>i. Inr (ms @ [i]))) acc ms = Inr (acc @ ms)"
  by (induction ms arbitrary: acc) simp_all

lemma split_members:
  "list_all id_ok ms \<Longrightarrow> getline_split CHR '','' (join CHR '','' ms) = ms"
  by (rule getline_split_join) (auto simp: list_all_iff id_ok_free)

lemma parse_members_join [simp]: "list_all id_ok ms \<Longrightarrow> parse_members (join CHR '','' ms) = Inr ms"
proof (cases ms)
  case (Cons m ns)
  assume ok: "list_all id_ok ms"
  then have "join CHR '','' ms \<noteq> []" by (cases ns) (auto simp: Cons)
  then show ?thesis using ok by (simp add: parse_members_def split_members collect_members)
qed (simp add: parse_members_def)

lemmas field_readers =
  parse_i64_def parse_u64_def require_field_def required_i32_def required_i64_def required_def
  parse_depends_def

lemma bounds_i32: "bounds_ok b \<Longrightarrow> in_i32 (width b) \<and> in_i32 (depth b)"
  by (simp add: bounds_ok_def)

lemma position_i32: "position_ok p \<Longrightarrow> in_i32 (pos_x p) \<and> in_i32 (pos_y p)"
  by (simp add: position_ok_def)

lemma in_i32_i64: "in_i32 i \<Longrightarrow> in_i64 i"
  by simp

lemma i32_readers:
  assumes "map_of flds k = Some (show_int i)" "in_i32 i"
  shows "parse_i64 flds k = Inr i" "required_i32 flds k = Inr i"
  using assms in_i32_i64 [OF assms(2)] by (auto simp: field_readers)


lemmas names_back [simp] = overlap_names.dec_enc event_names.dec_enc command_names.dec_enc

lemma parse_event_payload_back:
  assumes "payload_values_ok p" "payload_fits c t p"
    and "t \<noteq> NoOp \<Longrightarrow> \<forall>f\<in>set (payload_fields p). map_of flds (fst f) = Some (snd f)"
  shows "parse_event_payload flds c t = Inr p"
proof (cases p)
  case (CreateChoreographyPayload c' b ov travel)
  then show ?thesis using assms bounds_i32 [of b]
    by (cases t) (auto simp: parse_create_event_def i32_readers require_field_def Let_def)
next
  case (DancerPayload d q)
  then show ?thesis using assms position_i32 [of q]
    by (cases t) (auto simp: placeholder_payload_def parse_dancer_event_def i32_readers require_field_def Let_def)
next
  case (RemoveDancerPayload d)
  then show ?thesis using assms
    by (cases t) (auto simp: placeholder_payload_def parse_removed_event_def require_field_def)
next
  case (FormationPayload f ms)
  then show ?thesis using assms
    by (cases t) (auto simp: placeholder_payload_def parse_formation_event_def require_field_def Let_def)
next
  case (CuePayload q dep)
  then show ?thesis using assms
    by (cases t; cases dep) (auto simp: placeholder_payload_def parse_cue_event_def require_field_def parse_depends_def)
qed

lemma parse_command_payload_back:
  assumes "payload_values_ok p" "payload_fits c (event_type_for t) p"
    and "\<forall>f\<in>set (payload_fields p). map_of flds (fst f) = Some (snd f)"
  shows "parse_command_payload flds c t = Inr p"
proof (cases p)
  case (CreateChoreographyPayload c' b ov travel)
  then show ?thesis using assms bounds_i32 [of b]
    by (cases t) (auto simp: parse_create_command_def i32_readers required_def Let_def)
next
  case (DancerPayload d q)
  then show ?thesis using assms position_i32 [of q]
    by (cases t) (auto simp: parse_dancer_command_def i32_readers required_def Let_def)
next
  case (RemoveDancerPayload d)
  then show ?thesis using assms
    by (cases t) (auto simp: parse_remove_command_def required_def)
next
  case (FormationPayload f ms)
  then show ?thesis using assms
    by (cases t) (auto simp: parse_formation_command_def required_def Let_def split_members collect_members)
next
  case (CuePayload q dep)
  then show ?thesis using assms
    by (cases t; cases dep) (auto simp: parse_cue_command_def required_def parse_depends_def)
qed

lemma payload_fields_found:
  assumes "fst ` set (payload_fields p) \<inter> fst ` set pre = {}"
  shows "\<forall>f\<in>set (payload_fields p). map_of (pre @ payload_fields p) (fst f) = Some (snd f)"
proof -
  have "distinct (map fst (payload_fields p))" by (cases p) simp_all
  then show ?thesis
    using assms by (auto simp: map_add_Some_iff map_of_eq_None_iff)
qed


lemma parse_canonical_event:
  assumes ok: "event_ok e"
  shows "parse_event (canonical_event e) = Inr e"
proof -
  let ?fs = "event_fields e"
  have fields: "parse_fields (canonical_event e) = Inr (sm_merge [] ?fs)"
    by (simp add: canonical_event_fields fields_of_rendered event_fields_ok [OF ok])
  have payload: "parse_event_payload (sm_merge [] ?fs) (ev_choreography e) (ev_type e) = Inr (ev_payload e)"
  proof (rule parse_event_payload_back)
    assume "ev_type e \<noteq> NoOp"
    then show "\<forall>f\<in>set (payload_fields (ev_payload e)). map_of (sm_merge [] ?fs) (fst f) = Some (snd f)"
      unfolding find_rendered event_fields_def
      by (simp only: if_False, intro payload_fields_found) (cases "ev_payload e"; simp)
  qed (use ok in \<open>simp_all add: event_ok_def\<close>)
  have env: "map_of ?fs ''schema'' = Some (show_u16 (ev_schema e))"
    "map_of ?fs ''type'' = Some (event_type_name (ev_type e))"
    "map_of ?fs ''event'' = Some (ev_id e)" "map_of ?fs ''cmd'' = Some (ev_command e)"
    "map_of ?fs ''choreo'' = Some (ev_choreography e)" "map_of ?fs ''tick'' = Some (show_int (ev_tick e))"
    "map_of ?fs ''index'' = Some (show_u64 (ev_index e))" "map_of ?fs ''term'' = Some (show_u64 (ev_term e))"
    by (simp_all add: event_fields_def)
  have schema: "stoull (show_u16 (ev_schema e)) = Some (ucast (ev_schema e))"
    using unsigned_less [of "ev_schema e", where 'a = nat] by (simp add: show_u16_def)
  have narrow: "ucast (ucast (ev_schema e) :: u64) = ev_schema e"
    by (rule bit_word_eqI) (auto simp: bit_ucast_iff dest: bit_imp_le_length)
  show ?thesis
    using ok payload schema narrow
    by (simp add: parse_event_def fields env parse_u64_def parse_i64_def require_field_def Let_def
        event_ok_def tick_ok_def show_u64_def parse_log_index_def parse_term_def from_ticks_def)
qed

lemma parse_canonical_command:
  assumes ok: "command_ok c" and v: "cmd_schema c = kCurrentSchemaVersion"
  shows "parse_command (canonical_command c) = Inr c"
proof -
  let ?fs = "command_fields c"
  have fields: "fields_from (canonical_command c) = Inr (sm_merge [] ?fs)"
    by (simp add: canonical_command_fields [OF ok] fields_of_rendered command_fields_ok [OF ok])
  have payload: "parse_command_payload (sm_merge [] ?fs) (cmd_choreography c) (cmd_type c) = Inr (cmd_payload c)"
  proof (rule parse_command_payload_back)
    show "\<forall>f\<in>set (payload_fields (cmd_payload c)). map_of (sm_merge [] ?fs) (fst f) = Some (snd f)"
      unfolding find_rendered command_fields_def
      by (intro payload_fields_found) (cases "cmd_payload c"; simp)
  qed (use ok in \<open>simp_all add: command_ok_def\<close>)
  have env: "map_of ?fs ''schema'' = Some (show_u16 (cmd_schema c))"
    "map_of ?fs ''type'' = Some (command_type_name (cmd_type c))"
    "map_of ?fs ''cmd'' = Some (cmd_id c)" "map_of ?fs ''choreo'' = Some (cmd_choreography c)"
    "map_of ?fs ''tick'' = Some (show_int (cmd_tick c))"
    by (simp_all add: command_fields_def)
  have schema: "from_chars_i64 (show_u16 (cmd_schema c)) = Some 1"
    using from_chars_show_int [of 1] by (simp add: v show_u16_def show_int_def)
  show ?thesis
    using ok payload schema v
    by (simp add: parse_command_def fields env required_i64_def required_def Let_def
        command_ok_def tick_ok_def from_ticks_def)
qed

interpretation event_lines: round_trip event_ok canonical_event parse_event
  by unfold_locales (rule parse_canonical_event)

interpretation command_lines:
  round_trip "\<lambda>c. command_ok c \<and> cmd_schema c = kCurrentSchemaVersion" canonical_command parse_command
  by unfold_locales (simp add: parse_canonical_command)

section \<open>What the parsers accept\<close>

lemma wrap_i32_range [simp]: "- 2147483648 \<le> wrap_i32 i" "wrap_i32 i < 2147483648"
  by (simp_all add: wrap_i32_def)

lemma collect_ids:
  assumes "foldE (\<lambda>ms item. bindE (parse_id item) (\<lambda>i. Inr (ms @ [i]))) acc items = Inr ns" "list_all id_ok acc"
  shows "list_all id_ok ns"
  using assms by (induction items arbitrary: acc) (auto simp: bindE_Inr_iff parse_id_Inr_iff)

lemma parse_members_ids: "parse_members raw = Inr ms \<Longrightarrow> list_all id_ok ms"
  by (auto simp: parse_members_def split: if_splits intro: collect_ids)

lemma parse_i64_range: "parse_i64 flds k = Inr i \<Longrightarrow> in_i64 i"
  by (auto simp: parse_i64_def bindE_Inr_iff stoll_def Let_def split: option.splits if_splits bind_splits)

lemma parse_depends_ids: "parse_depends flds = Inr dep \<Longrightarrow> pred_option id_ok dep"
  by (cases dep) (auto simp: parse_depends_def bindE_Inr_iff parse_id_Inr_iff split: option.splits if_splits)

lemma factory_ok:
  "stage_from_mm w d = Inr b \<Longrightarrow> bounds_ok b" "position_from_mm x y = Inr q \<Longrightarrow> position_ok q"
  using stage_from_mm_Inr_iff position_from_mm_Inr_iff by blast+

lemma bounds_ok_unit [simp]: "bounds_ok \<lparr>width = 1, depth = 1\<rparr>"
  by (simp add: bounds_ok_def)

lemma parse_event_payload_valid:
  assumes "parse_event_payload flds c t = Inr p" "id_ok c"
  shows "payload_values_ok p \<and> payload_fits c t p"
  using assms
  by (cases t; auto simp: parse_create_event_def parse_dancer_event_def parse_removed_event_def
      parse_formation_event_def parse_cue_event_def placeholder_payload_def Let_def is_ok_iff
      bindE_Inr_iff parse_id_Inr_iff intro: factory_ok dest: parse_members_ids parse_depends_ids
      split: if_splits)

lemma parse_event_valid: "parse_event line = Inr e \<Longrightarrow> event_ok e"
  by (auto simp: parse_event_def Let_def bindE_Inr_iff is_ok_iff event_ok_def parse_id_Inr_iff
      parse_term_def from_ticks_def tick_ok_def
      dest!: parse_event_payload_valid dest: parse_i64_range split: if_splits)


lemma required_i32_range: "required_i32 flds k = Inr i \<Longrightarrow> - 2147483648 \<le> i \<and> i < 2147483648"
  by (auto simp: required_i32_def bindE_Inr_iff split: if_splits)

lemma required_i64_range: "required_i64 flds k = Inr i \<Longrightarrow> in_i64 i"
  by (auto simp: required_i64_def bindE_Inr_iff from_chars_i64_def Let_def
      split: option.splits if_splits list.splits)

lemma parse_command_payload_valid:
  assumes "parse_command_payload flds c t = Inr p" "id_ok c"
  shows "payload_values_ok p \<and> payload_fits c (event_type_for t) p"
  using assms
  by (cases t; auto simp: parse_create_command_def parse_dancer_command_def parse_remove_command_def
      parse_formation_command_def parse_cue_command_def Let_def is_ok_iff bindE_Inr_iff parse_id_Inr_iff
      intro: factory_ok dest: required_i32_range parse_depends_ids collect_ids split: if_splits)

lemma parse_command_valid:
  "parse_command src = Inr c \<Longrightarrow> command_ok c \<and> cmd_schema c = kCurrentSchemaVersion"
  by (auto simp: parse_command_def Let_def bindE_Inr_iff is_ok_iff command_ok_def parse_id_Inr_iff
      from_ticks_def tick_ok_def
      dest!: parse_command_payload_valid dest: required_i64_range split: if_splits)

text \<open>
  (C31) The event log text round trips: every well-formed event is read back from its canonical
  line exactly, so distinct events have distinct lines, and the events that some line parses to
  are exactly the well-formed ones.
\<close>

theorem event_line_round_trip:
  assumes "event_ok e"
  shows "parse_event (canonical_event e) = Inr e \<and>
    (\<forall>e'. event_ok e' \<longrightarrow> canonical_event e' = canonical_event e \<longrightarrow> e' = e) \<and>
    (\<forall>line e'. parse_event line = Inr e' \<longrightarrow> event_ok e')"
  using assms event_lines.dec_enc event_lines.enc_inject parse_event_valid by blast

definition sample_event :: Event where
  "sample_event =
     \<lparr>ev_id = ''cmd-7'', ev_command = ''cmd-7'', ev_choreography = ''swan'', ev_type = DancerMoved,
      ev_schema = 1, ev_tick = 4320, ev_index = 3, ev_term = 2,
      ev_payload = DancerPayload ''alice'' \<lparr>pos_x = 1500, pos_y = 2000\<rparr>\<rparr>"

lemma sample_event_ok: "event_ok sample_event"
  by (simp add: sample_event_def event_ok_def id_ok_def tick_ok_def position_ok_def
      is_allowed_id_char_def is_alnum_def is_digit_def)

theorem event_line_round_trip_witness:
  "event_ok sample_event \<and> parse_event (canonical_event sample_event) = Inr sample_event"
  using event_line_round_trip [OF sample_event_ok] sample_event_ok by blast

text \<open>
  The command text round trips: every well-formed command of the current schema version is
  parsed back from what \<open>canonical_command\<close> prints, and the parser accepts nothing else: a parsed
  command is well-formed and of the current version.
\<close>

theorem command_text_round_trip:
  assumes "command_ok c" "cmd_schema c = kCurrentSchemaVersion"
  shows "parse_command (canonical_command c) = Inr c \<and>
    (\<forall>src c'. parse_command src = Inr c' \<longrightarrow> command_ok c' \<and> cmd_schema c' = kCurrentSchemaVersion)"
  using assms parse_canonical_command parse_command_valid by blast

definition sample_command :: Command where
  "sample_command =
     \<lparr>cmd_id = ''cmd-7'', cmd_choreography = ''swan'', cmd_type = DefineFormation, cmd_schema = 1,
      cmd_tick = 4320, cmd_payload = FormationPayload ''front'' [''alice'', ''bob'']\<rparr>"

lemma sample_command_ok: "command_ok sample_command" "cmd_schema sample_command = 1"
  by (simp_all add: sample_command_def command_ok_def id_ok_def tick_ok_def
      is_allowed_id_char_def is_alnum_def is_digit_def)

theorem command_text_round_trip_witness:
  "command_ok sample_command \<and> parse_command (canonical_command sample_command) = Inr sample_command"
  using command_text_round_trip [OF sample_command_ok] sample_command_ok by blast

end
