(* ===== verification/Protobuf.thy ===== *)
theory Protobuf
  imports Storage_Bytes
begin

text \<open>
  The protobuf wire format of \<open>protocol/codec.cpp\<close>: the writers, the \<open>Reader\<close> and the field loop
  every decoder of that file runs. A writer returns the bytes it appends to its output. The reader
  is the string of bytes it has still to read, so that advancing \<open>offset\<close> is dropping a prefix.
\<close>

section \<open>Writers\<close>

definition kVarint :: nat where "kVarint = 0"
definition kLength :: nat where "kLength = 2"

lemma word_shift_less: "128 \<le> (v :: u64) \<Longrightarrow> unat (drop_bit 7 v) < unat v"
proof -
  assume "128 \<le> v"
  then have "128 \<le> unat v" by (simp add: word_le_nat_alt)
  moreover have "unat (drop_bit 7 v) = unat v div 128" by (simp add: drop_bit_eq_div unat_div)
  ultimately show ?thesis by simp
qed

function write_varint :: "u64 \<Rightarrow> string" where
  "write_varint value =
     (if 0x80 \<le> value
      then char_of (unat ((value AND 0x7f) OR 0x80)) # write_varint (drop_bit 7 value)
      else [char_of (unat value)])"
  by auto
termination by (relation "measure unat") (simp_all add: word_shift_less)

declare write_varint.simps [simp del]

definition write_key :: "nat \<Rightarrow> nat \<Rightarrow> string" where
  "write_key field wire = write_varint (push_bit 3 (of_nat field) OR of_nat wire)"

definition write_uint :: "nat \<Rightarrow> u64 \<Rightarrow> string" where
  "write_uint field value = (if value = 0 then [] else write_key field kVarint @ write_varint value)"

definition write_bool :: "nat \<Rightarrow> bool \<Rightarrow> string" where
  "write_bool field value = (if \<not> value then [] else write_key field kVarint @ [char_of (1 :: nat)])"

definition write_bytes :: "nat \<Rightarrow> string \<Rightarrow> string" where
  "write_bytes field value =
     (if value = [] then []
      else write_key field kLength @ write_varint (of_nat (length value)) @ value)"

section \<open>The reader\<close>

fun varint_from :: "nat \<Rightarrow> u64 \<Rightarrow> string \<Rightarrow> (u64 \<times> string) Result" where
  "varint_from shift value bytes =
     (if 63 < shift then fail ProtocolError ''protobuf varint exceeds ten bytes''
      else case bytes of
        [] \<Rightarrow> fail ProtocolError ''protobuf varint is truncated''
      | byte # rest \<Rightarrow>
          if shift = 63 \<and> 1 < code_of byte then fail ProtocolError ''protobuf varint overflows uint64''
          else let value = value OR push_bit shift (of_nat (code_of byte AND 0x7f)) in
            if code_of byte AND 0x80 = 0 then Inr (value, rest) else varint_from (shift + 7) value rest)"

declare varint_from.simps [simp del]

definition varint :: "string \<Rightarrow> (u64 \<times> string) Result" where
  "varint bytes = varint_from 0 0 bytes"

definition skip_or_read :: "nat \<Rightarrow> bool \<Rightarrow> string \<Rightarrow> (string \<times> string) Result" where
  "skip_or_read wire read bytes =
     (if wire = kVarint then bindE (varint bytes) (\<lambda>(value, rest). Inr ([], rest))
      else if wire = kLength then bindE (varint bytes) (\<lambda>(len, rest).
        if length rest < unat len then fail ProtocolError ''protobuf length exceeds payload''
        else Inr (if read then take (unat len) rest else [], drop (unat len) rest))
      else if wire = 1 then
        (if length bytes < 8 then fail ProtocolError ''protobuf fixed64 is truncated''
         else Inr ([], drop 8 bytes))
      else if wire = 5 then
        (if length bytes < 4 then fail ProtocolError ''protobuf fixed32 is truncated''
         else Inr ([], drop 4 bytes))
      else fail ProtocolError ''protobuf wire type is unsupported'')"

lemma varint_from_shorter: "varint_from shift acc bytes = Inr (v, rest) \<Longrightarrow> length rest < length bytes"
proof (induction bytes arbitrary: shift acc)
  case Nil
  then show ?case by (simp add: varint_from.simps split: if_splits)
next
  case (Cons b bytes)
  show ?case
    using Cons.prems Cons.IH [of "shift + 7"]
    by (subst (asm) varint_from.simps) (fastforce simp: Let_def split: if_splits)
qed

lemma varint_shorter: "varint bytes = Inr (v, rest) \<Longrightarrow> length rest < length bytes"
  unfolding varint_def by (rule varint_from_shorter)

lemma skip_or_read_shorter: "skip_or_read wire read bytes = Inr (s, rest) \<Longrightarrow> length rest \<le> length bytes"
  by (auto simp: skip_or_read_def bindE_Inr_iff split: if_splits dest: varint_shorter)

section \<open>The field loop\<close>

text \<open>
  What a decoder does with a field: read a varint or a length-delimited value and store it, or skip
  the field. A store may fail, as the version, page-size and event checks do.
\<close>

datatype 'm action = is_Uint: Uint (on_uint: "u64 \<Rightarrow> 'm Result") | is_Bytes: Bytes (on_bytes: "string \<Rightarrow> 'm Result") | Skip

text \<open>
  \<open>narrow\<close> is the conversion of the field number: most decoders store it in an \<open>int\<close>, the two
  management decoders keep it in 64 bits.
\<close>

definition narrow_int :: "u64 \<Rightarrow> int" where
  "narrow_int field = wrap_i32 (uint field)"

definition keep_u64 :: "u64 \<Rightarrow> int" where
  "keep_u64 field = uint field"

function decode_loop :: "(u64 \<Rightarrow> int) \<Rightarrow> (int \<Rightarrow> nat \<Rightarrow> 'm \<Rightarrow> 'm action) \<Rightarrow> 'm \<Rightarrow> string \<Rightarrow> 'm Result" where
  "decode_loop narrow handle message bytes =
     (if bytes = [] then Inr message
      else bindE (varint bytes) (\<lambda>(key, rest).
        let field = narrow (drop_bit 3 key); wire = unat (key AND 7) in
        case handle field wire message of
          Uint store \<Rightarrow> bindE (varint rest) (\<lambda>(value, rest').
            bindE (store value) (\<lambda>message'. decode_loop narrow handle message' rest'))
        | Bytes store \<Rightarrow> bindE (skip_or_read wire True rest) (\<lambda>(value, rest').
            bindE (store value) (\<lambda>message'. decode_loop narrow handle message' rest'))
        | Skip \<Rightarrow> bindE (skip_or_read wire False rest) (\<lambda>(_, rest').
            decode_loop narrow handle message rest')))"
  by pat_completeness auto
termination
  by (relation "measure (\<lambda>(_, _, _, bytes). length bytes)")
    (auto dest!: varint_shorter skip_or_read_shorter)

declare decode_loop.simps [simp del]

section \<open>Varints read back\<close>

lemma masks: "(127 :: u64) = mask 7" "(7 :: u64) = mask 3"
  by (simp_all add: mask_eq_exp_minus_1)

lemma unat_and_numeral:
  "unat v AND 127 = unat (v AND 127)" "unat v AND 128 = unat (v AND 128)" for v :: u64
  by (simp_all add: unsigned_and_eq)

lemma bit_and_127: "bit (v AND 127 :: u64) k \<longleftrightarrow> k < 7 \<and> bit v k"
  unfolding masks by (auto simp: bit_and_iff bit_mask_iff dest: bit_imp_le_length)

lemma bit_128: "bit (128 :: u64) k \<longleftrightarrow> k = 7"
  using bit_exp_iff [where 'a = u64, of 7 k] by auto

lemma split_low_bits: "push_bit s v = push_bit s (v AND 127) OR push_bit (s + 7) (drop_bit 7 v)" for v :: u64
proof (rule bit_word_eqI)
  fix n assume n: "n < LENGTH(64)"
  have "bit (push_bit s (v AND 127)) n \<longleftrightarrow> s \<le> n \<and> n - s < 7 \<and> bit v (n - s)"
    unfolding bit_push_bit_iff bit_and_127 using n by auto
  moreover have "bit (push_bit (s + 7) (drop_bit 7 v)) n \<longleftrightarrow> s + 7 \<le> n \<and> bit v (n - s)"
    using n by (auto simp: bit_push_bit_iff bit_drop_bit_eq)
  ultimately show "bit (push_bit s v) n = bit (push_bit s (v AND 127) OR push_bit (s + 7) (drop_bit 7 v)) n"
    unfolding bit_or_iff bit_push_bit_iff [of _ v] using n by auto
qed

lemma varint_from_write:
  assumes "shift \<le> 63" "unat v < 2 ^ (64 - shift)"
  shows "varint_from shift acc (write_varint v @ rest) = Inr (acc OR push_bit shift v, rest)"
  using assms
proof (induction v arbitrary: shift acc rule: write_varint.induct)
  case (1 v)
  show ?case
  proof (cases "0x80 \<le> v")
    case False
    then have v: "unat v < 128" by (simp add: word_le_nat_alt)
    then have code: "unat v mod 256 = unat v" by simp
    have "unat (take_bit 7 v) = unat v" using v by (simp add: unsigned_take_bit_eq take_bit_nat_eq_self)
    then have "take_bit 7 v = v" by (rule unsigned_word_eqI)
    then have small: "k < 7" if "bit v k" for k using that by (metis bit_take_bit_iff)
    have "v AND 127 = v" by (rule bit_word_eqI) (auto simp only: bit_and_127 dest: small)
    moreover have "v AND 128 = 0" by (rule bit_word_eqI) (auto simp only: bit_and_iff bit_128 bit_0_eq dest!: small)
    ultimately have low: "unat v AND 127 = unat v" "unat v AND 128 = 0" by (simp_all add: unat_and_numeral)
    have "\<not> (shift = 63 \<and> 1 < unat v)" using 1(3) by auto
    then show ?thesis
      using False 1(2) by (simp add: write_varint.simps [of v] varint_from.simps [of shift] code low Let_def)
  next
    case True
    then have v: "128 \<le> unat v" by (simp add: word_le_nat_alt)
    let ?b = "(v AND 0x7f) OR 0x80"
    have code: "unat ?b mod 256 = unat ?b"
    proof -
      have "take_bit 8 ?b = ?b"
        by (rule bit_word_eqI) (auto simp: bit_take_bit_iff bit_or_iff bit_and_127 bit_128)
      moreover have "unat (take_bit 8 ?b) = take_bit 8 (unat ?b)" by (rule unsigned_take_bit_eq)
      ultimately have "take_bit 8 (unat ?b) = unat ?b" by argo
      then show ?thesis by (simp add: take_bit_eq_mod)
    qed
    have "?b AND 127 = v AND 127"
      by (rule bit_word_eqI) (auto simp only: bit_and_127 bit_or_iff bit_128)
    moreover have "?b AND 128 = 128"
      by (rule bit_word_eqI) (auto simp only: bit_and_iff bit_or_iff bit_128)
    ultimately have low: "unat ?b AND 127 = unat (v AND 127)" "unat ?b AND 128 = 128"
      by (simp_all add: unat_and_numeral)
    have shift: "shift + 7 \<le> 63"
    proof (rule ccontr)
      assume "\<not> shift + 7 \<le> 63"
      then have "(2::nat) ^ (64 - shift) \<le> 2 ^ 7" by (intro power_increasing) simp_all
      then show False using v 1(3) by simp
    qed
    have "unat (drop_bit 7 v) = unat v div 2 ^ 7" by (simp add: drop_bit_eq_div unat_div)
    also have "\<dots> < 2 ^ (64 - (shift + 7))"
    proof (rule less_mult_imp_div_less)
      have "(64 - (shift + 7)) + 7 = 64 - shift" using shift by simp
      then have "(2 :: nat) ^ (64 - (shift + 7)) * 2 ^ 7 = 2 ^ (64 - shift)" by (metis power_add)
      then show "unat v < 2 ^ (64 - (shift + 7)) * 2 ^ 7" using 1(3) by simp
    qed
    finally have rest: "varint_from (shift + 7) a (write_varint (drop_bit 7 v) @ rest) =
        Inr (a OR push_bit (shift + 7) (drop_bit 7 v), rest)" for a
      using 1(1) [OF True shift] by blast
    have "varint_from shift acc (write_varint v @ rest) =
        varint_from (shift + 7) (acc OR push_bit shift (of_nat (unat (v AND 127)))) (write_varint (drop_bit 7 v) @ rest)"
      using True shift by (simp add: write_varint.simps [of v] varint_from.simps [of shift] code low Let_def
          del: push_bit_and of_nat_unat)
    also have "\<dots> = Inr ((acc OR push_bit shift (v AND 127)) OR push_bit (shift + 7) (drop_bit 7 v), rest)"
      unfolding rest by simp
    also have "\<dots> = Inr (acc OR push_bit shift v, rest)"
      unfolding or.assoc split_low_bits [of shift v, symmetric] ..
    finally show ?thesis .
  qed
qed

lemma varint_write [simp]: "varint (write_varint v @ rest) = Inr (v, rest)"
proof -
  have "unat v < 2 ^ LENGTH(64)" by (rule unsigned_less)
  then show ?thesis using varint_from_write [of 0 v 0 rest] by (simp add: varint_def)
qed

lemma write_varint_nonempty [simp]: "write_varint v \<noteq> []"
  by (subst write_varint.simps) simp

lemma write_varint_length: "unat v < 2 ^ (7 * Suc n) \<Longrightarrow> length (write_varint v) \<le> Suc n"
proof (induction n arbitrary: v)
  case 0
  then show ?case by (subst write_varint.simps) (simp add: word_le_nat_alt)
next
  case (Suc n)
  have "unat (drop_bit 7 v) = unat v div 2 ^ 7" by (simp add: drop_bit_eq_div unat_div)
  also have "\<dots> < 2 ^ (7 * Suc n)"
    using Suc.prems by (intro less_mult_imp_div_less) (simp only: power_add [symmetric], simp)
  finally have "length (write_varint (drop_bit 7 v)) \<le> Suc n" by (rule Suc.IH)
  then show ?case by (subst write_varint.simps) simp
qed

lemma write_varint_ten: "length (write_varint v) \<le> 10"
proof -
  have "unat v < 2 ^ LENGTH(64)" by (rule unsigned_less)
  then have "unat v < 2 ^ (7 * Suc 9)" by simp
  then show ?thesis using write_varint_length [of v 9] by simp
qed

lemma varint_from_consumes:
  assumes "shift = 7 * k" "k \<le> 9"
  shows "case varint_from shift acc bytes of Inl e \<Rightarrow> code e = ProtocolError
    | Inr (v, rest) \<Rightarrow> \<exists>used. bytes = used @ rest \<and> 0 < length used \<and> length used \<le> 10 - k"
  using assms
proof (induction bytes arbitrary: shift acc k)
  case Nil
  then show ?case by (simp add: varint_from.simps)
next
  case (Cons b bytes)
  let ?acc = "acc OR push_bit shift (of_nat (code_of b AND 0x7f))"
  have short: "code_of b AND 128 = 0" if "code_of b \<le> 1"
    using that by (cases "code_of b" rule: nat.exhaust) auto
  have later: "case varint_from (shift + 7) ?acc bytes of Inl e \<Rightarrow> code e = ProtocolError
    | Inr (v, rest) \<Rightarrow> \<exists>used. bytes = used @ rest \<and> 0 < length used \<and> length used \<le> 10 - Suc k" if "k < 9"
    using that Cons.prems by (intro Cons.IH) simp_all
  have unfold: "varint_from shift acc (b # bytes) =
      (if shift = 63 \<and> 1 < code_of b then fail ProtocolError ''protobuf varint overflows uint64''
       else if code_of b AND 0x80 = 0 then Inr (?acc, bytes) else varint_from (shift + 7) ?acc bytes)"
    using Cons.prems by (subst varint_from.simps) (simp add: Let_def)
  consider (over) "shift = 63 \<and> 1 < code_of b" | (last) "code_of b AND 0x80 = 0" "\<not> (shift = 63 \<and> 1 < code_of b)"
    | (more) "k < 9" "code_of b AND 0x80 \<noteq> 0" using short Cons.prems by fastforce
  then show ?case
  proof cases
    case last
    then show ?thesis unfolding unfold using Cons.prems by (auto intro!: exI [of _ "[b]"])
  next
    case more
    then have same: "varint_from shift acc (b # bytes) = varint_from (shift + 7) ?acc bytes"
      unfolding unfold using Cons.prems by simp
    show ?thesis
    proof (cases "varint_from (shift + 7) ?acc bytes")
      case (Inl e)
      then show ?thesis using same later [OF more(1)] by simp
    next
      case (Inr p)
      then obtain v rest used where "p = (v, rest)" "bytes = used @ rest" "length used \<le> 10 - Suc k"
        using later [OF more(1)] by (cases p) auto
      then show ?thesis using same Inr more(1) by (auto intro!: exI [of _ "b # used"])
    qed
  next
    case over
    then show ?thesis unfolding unfold by simp
  qed
qed

text \<open>
  Varints round-trip and are short: reading what the writer appended returns the value and
  leaves exactly the bytes that followed, for every 64-bit value, and the writer emits at most ten
  bytes. On arbitrary bytes the reader either reports a protocol error or consumes a prefix of
  between one and ten bytes.
\<close>

theorem varint_round_trip:
  "varint (write_varint v @ rest) = Inr (v, rest) \<and> length (write_varint v) \<le> 10
   \<and> (case varint bytes of Inl e \<Rightarrow> code e = ProtocolError
      | Inr (v', rest') \<Rightarrow> \<exists>used. bytes = used @ rest' \<and> 0 < length used \<and> length used \<le> 10)"
  using varint_from_consumes [where shift = 0 and k = 0 and acc = 0 and bytes = bytes] write_varint_ten [of v]
  by (simp only: varint_def [of bytes] varint_write diff_zero simp_thms)

lemma write_bytes_length: "length (write_bytes field s) \<le> length s + 20"
  using write_varint_ten [of "push_bit 3 (of_nat field) OR of_nat kLength"] write_varint_ten [of "of_nat (length s)"]
  by (simp add: write_bytes_def write_key_def)

section \<open>Fields read back\<close>

definition tag_ok :: "nat \<Rightarrow> bool" where
  "tag_ok field \<longleftrightarrow> 0 < field \<and> field < 2 ^ 28"

definition exact_on_small :: "(u64 \<Rightarrow> int) \<Rightarrow> bool" where
  "exact_on_small narrow \<longleftrightarrow> (\<forall>field < 2 ^ 28. narrow (of_nat field) = int field)"

lemma narrow_exact [simp]: "exact_on_small narrow_int" "exact_on_small keep_u64"
  by (simp_all add: exact_on_small_def narrow_int_def keep_u64_def uint_nat unat_of_nat)

lemma key_parts:
  assumes "field < 2 ^ 28" "wire < 8"
  defines "key \<equiv> push_bit 3 (of_nat field) OR of_nat wire :: u64"
  shows "drop_bit 3 key = of_nat field" "unat (key AND 7) = wire"
proof -
  have wire: "take_bit 3 (of_nat wire) = (of_nat wire :: u64)"
    using assms(2) by (simp add: take_bit_of_nat take_bit_nat_eq_self)
  have wire_bit: "j < 3" if "bit (of_nat wire :: u64) j" for j
    using that wire by (metis bit_take_bit_iff)
  have field: "take_bit 28 (of_nat field) = (of_nat field :: u64)"
    using assms(1) by (simp add: take_bit_of_nat take_bit_nat_eq_self)
  have field_bit: "j < 28" if "bit (of_nat field :: u64) j" for j
    using that field by (metis bit_take_bit_iff)
  show "drop_bit 3 key = of_nat field"
  proof (rule bit_word_eqI)
    fix n assume "n < LENGTH(64)"
    have "\<not> bit (of_nat wire :: u64) (3 + n)" using wire_bit [of "3 + n"] by auto
    moreover have "bit (push_bit 3 (of_nat field) :: u64) (3 + n) \<longleftrightarrow> bit (of_nat field :: u64) n"
      unfolding bit_push_bit_iff using field_bit [of n] by auto
    ultimately show "bit (drop_bit 3 key) n = bit (of_nat field :: u64) n"
      unfolding key_def bit_drop_bit_eq o_def bit_or_iff by simp
  qed
  have "key AND 7 = of_nat wire"
    unfolding key_def masks by (rule bit_word_eqI)
      (auto simp only: bit_and_iff bit_or_iff bit_push_bit_iff bit_mask_iff possible_bit_word dest: wire_bit)
  then show "unat (key AND 7) = wire" using assms(2) by (simp add: unat_of_nat)
qed

lemma decode_key:
  assumes "exact_on_small narrow" "tag_ok field" "wire < 8"
  shows "decode_loop narrow handle message (write_key field wire @ rest) =
     (case handle (int field) wire message of
        Uint store \<Rightarrow> bindE (varint rest) (\<lambda>(value, rest').
          bindE (store value) (\<lambda>message'. decode_loop narrow handle message' rest'))
      | Bytes store \<Rightarrow> bindE (skip_or_read wire True rest) (\<lambda>(value, rest').
          bindE (store value) (\<lambda>message'. decode_loop narrow handle message' rest'))
      | Skip \<Rightarrow> bindE (skip_or_read wire False rest) (\<lambda>(_, rest').
          decode_loop narrow handle message rest'))"
proof -
  have small: "field < 2 ^ 28" using assms by (simp add: tag_ok_def)
  then have "narrow (of_nat field) = int field"
    using assms by (simp add: exact_on_small_def)
  moreover obtain key where "write_key field wire = write_varint key" "drop_bit 3 key = of_nat field"
      "unat (key AND 7) = wire"
    using key_parts [OF small assms(3)] write_key_def by blast
  ultimately show ?thesis
    by (subst decode_loop.simps) (simp add: Let_def split: action.split)
qed

lemma decode_uint:
  assumes "exact_on_small narrow" "tag_ok field" "is_Uint (handle (int field) 0 message)"
    "value = 0 \<Longrightarrow> on_uint (handle (int field) 0 message) 0 = Inr message"
  shows "decode_loop narrow handle message (write_uint field value @ rest) =
    bindE (on_uint (handle (int field) 0 message) value) (\<lambda>message'. decode_loop narrow handle message' rest)"
  using assms by (cases "handle (int field) 0 message") (simp_all add: write_uint_def decode_key kVarint_def)

lemma write_bool_uint: "write_bool field b = write_uint field (if b then 1 else 0)"
  by (simp add: write_bool_def write_uint_def write_varint.simps [of 1] word_le_nat_alt)

lemma decode_bytes:
  assumes "exact_on_small narrow" "tag_ok field" "is_Bytes (handle (int field) 2 message)" "length value < 2 ^ 64"
    "value = [] \<Longrightarrow> on_bytes (handle (int field) 2 message) [] = Inr message"
  shows "decode_loop narrow handle message (write_bytes field value @ rest) =
    bindE (on_bytes (handle (int field) 2 message) value) (\<lambda>message'. decode_loop narrow handle message' rest)"
  using assms by (cases "handle (int field) 2 message")
    (simp_all add: write_bytes_def decode_key kLength_def kVarint_def skip_or_read_def unat_of_nat)

lemma decode_nil [simp]: "decode_loop narrow handle message [] = Inr message"
  by (simp add: decode_loop.simps)

end
