(* ===== verification/Wire_Messages.thy ===== *)
theory Wire_Messages
  imports Event_Text Protobuf
begin

text \<open>
  The messages of \<open>protocol/messages.hpp\<close> and their encoders and decoders in \<open>protocol/codec.cpp\<close>.
  A decoder is the field loop of \<^verbatim>\<open>Protobuf\<close> run with the decoder's own field table, which keeps the
  conditions and the order of the code's branches. The round trips say exactly what comes back,
  including the one field whose default is not zero: a term or major version of zero is left out by
  the writer and read as one.
\<close>

section \<open>Messages\<close>

record Handshake =
  hs_node_id :: string
  hs_major :: u32
  hs_minor :: u32

record AppendEntries_wire =
  ae_term :: u64
  ae_leader_id :: string
  ae_prev_log_index :: u64
  ae_prev_log_term :: u64
  ae_entries :: "Event list"
  ae_leader_commit :: u64

record AppendEntriesResponse =
  ar_term :: u64
  ar_follower_id :: string
  ar_success :: bool
  ar_match_index :: u64
  ar_hint_index :: u64

record RequestVote_wire =
  rv_term :: u64
  rv_candidate_id :: string
  rv_last_log_index :: u64
  rv_last_log_term :: u64

record RequestVoteResponse =
  vr_term :: u64
  vr_voter_id :: string
  vr_vote_granted :: bool

record InstallSnapshot =
  is_term :: u64
  is_leader_id :: string
  is_last_included_index :: u64
  is_last_included_term :: u64
  is_state_hash :: string
  is_payload :: string
  is_offset :: u64
  is_more :: bool

record InstallSnapshotResponse =
  ir_term :: u64
  ir_follower_id :: string
  ir_success :: bool
  ir_next_offset :: u64

record ProtocolError_wire =
  pe_code :: string
  pe_detail :: string

record ClientCommand =
  cc_canonical :: string

record ClientResponse =
  cr_ok :: bool
  cr_duplicate :: bool
  cr_error_code :: string
  cr_error_message :: string
  cr_leader_id :: string
  cr_index :: u64
  cr_event_canonical :: string
  cr_state_hash :: string

record StatusResponse =
  sr_node_id :: string
  sr_leader_id :: string
  sr_role :: string
  sr_term :: u64
  sr_commit_index :: u64
  sr_last_log_index :: u64
  sr_state_hash :: string
  sr_canonical_state :: string

record ManagementQuery =
  mq_operation :: string
  mq_after_index :: u64
  mq_page_size :: u32
  mq_peer_id :: string
  mq_delay_ms :: u32
  mq_expected_state_hash :: string

record ManagementReply =
  mr_error_code :: string
  mr_error_message :: string
  mr_events :: "string list"
  mr_next_after_index :: u64
  mr_has_more :: bool
  mr_role_changes :: u64
  mr_elections_started :: u64
  mr_votes_granted :: u64
  mr_step_downs :: u64
  mr_messages_dropped_oversize :: u64
  mr_snapshot_chunks_sent :: u64
  mr_transport_frames_sent :: u64
  mr_transport_frames_received :: u64
  mr_transport_dropped :: u64
  mr_snapshot_index :: u64
  mr_snapshot_state_hash :: string
  mr_recovery_report :: string
  mr_state_chunk :: string
  mr_state_size :: u64

section \<open>Encoders\<close>

definition encode_handshake :: "Handshake \<Rightarrow> string Result" where
  "encode_handshake message = Inr (
     write_bytes 1 (hs_node_id message)
     @ write_uint 2 (ucast (hs_major message))
     @ write_uint 3 (ucast (hs_minor message)))"

definition encode_append_entries :: "AppendEntries_wire \<Rightarrow> string Result" where
  "encode_append_entries message = Inr (
     write_uint 1 (ae_term message)
     @ write_bytes 2 (ae_leader_id message)
     @ write_uint 3 (ae_prev_log_index message)
     @ write_uint 4 (ae_prev_log_term message)
     @ concat (map (\<lambda>event. write_bytes 5 (write_bytes 1 (canonical_event event))) (ae_entries message))
     @ write_uint 6 (ae_leader_commit message))"

definition encode_append_response :: "AppendEntriesResponse \<Rightarrow> string Result" where
  "encode_append_response message = Inr (
     write_uint 1 (ar_term message)
     @ write_bytes 2 (ar_follower_id message)
     @ write_bool 3 (ar_success message)
     @ write_uint 4 (ar_match_index message)
     @ write_uint 5 (ar_hint_index message))"

definition encode_request_vote :: "RequestVote_wire \<Rightarrow> string Result" where
  "encode_request_vote message = Inr (
     write_uint 1 (rv_term message)
     @ write_bytes 2 (rv_candidate_id message)
     @ write_uint 3 (rv_last_log_index message)
     @ write_uint 4 (rv_last_log_term message))"

definition encode_vote_response :: "RequestVoteResponse \<Rightarrow> string Result" where
  "encode_vote_response message = Inr (
     write_uint 1 (vr_term message)
     @ write_bytes 2 (vr_voter_id message)
     @ write_bool 3 (vr_vote_granted message))"

definition encode_install_snapshot :: "InstallSnapshot \<Rightarrow> string Result" where
  "encode_install_snapshot message = Inr (
     write_uint 1 (is_term message)
     @ write_bytes 2 (is_leader_id message)
     @ write_uint 3 (is_last_included_index message)
     @ write_uint 4 (is_last_included_term message)
     @ write_bytes 5 (is_state_hash message)
     @ write_bytes 6 (is_payload message)
     @ write_uint 7 (is_offset message)
     @ write_bool 8 (is_more message))"

definition encode_snapshot_response :: "InstallSnapshotResponse \<Rightarrow> string Result" where
  "encode_snapshot_response message = Inr (
     write_uint 1 (ir_term message)
     @ write_bytes 2 (ir_follower_id message)
     @ write_bool 3 (ir_success message)
     @ write_uint 4 (ir_next_offset message))"

definition encode_protocol_error :: "ProtocolError_wire \<Rightarrow> string Result" where
  "encode_protocol_error message = Inr (write_bytes 1 (pe_code message) @ write_bytes 2 (pe_detail message))"

definition encode_client_command :: "ClientCommand \<Rightarrow> string Result" where
  "encode_client_command message = Inr (write_bytes 1 (cc_canonical message))"

definition encode_client_response :: "ClientResponse \<Rightarrow> string Result" where
  "encode_client_response message = Inr (
     write_bool 1 (cr_ok message)
     @ write_bool 2 (cr_duplicate message)
     @ write_bytes 3 (cr_error_code message)
     @ write_bytes 4 (cr_error_message message)
     @ write_bytes 5 (cr_leader_id message)
     @ write_uint 6 (cr_index message)
     @ write_bytes 7 (cr_event_canonical message)
     @ write_bytes 8 (cr_state_hash message))"

definition encode_status_query :: "string Result" where
  "encode_status_query = Inr []"

definition encode_status_response :: "StatusResponse \<Rightarrow> string Result" where
  "encode_status_response message = Inr (
     write_bytes 1 (sr_node_id message)
     @ write_bytes 2 (sr_leader_id message)
     @ write_bytes 3 (sr_role message)
     @ write_uint 4 (sr_term message)
     @ write_uint 5 (sr_commit_index message)
     @ write_uint 6 (sr_last_log_index message)
     @ write_bytes 7 (sr_state_hash message)
     @ write_bytes 8 (sr_canonical_state message))"

definition encode_management_query :: "ManagementQuery \<Rightarrow> string Result" where
  "encode_management_query message = Inr (
     write_bytes 1 (mq_operation message)
     @ write_uint 2 (mq_after_index message)
     @ write_uint 3 (ucast (mq_page_size message))
     @ write_bytes 4 (mq_peer_id message)
     @ write_uint 5 (ucast (mq_delay_ms message))
     @ write_bytes 6 (mq_expected_state_hash message))"

definition encode_management_reply :: "ManagementReply \<Rightarrow> string Result" where
  "encode_management_reply message = Inr (
     write_bytes 1 (mr_error_code message)
     @ write_bytes 2 (mr_error_message message)
     @ concat (map (write_bytes 3) (mr_events message))
     @ write_uint 4 (mr_next_after_index message)
     @ write_bool 5 (mr_has_more message)
     @ write_uint 6 (mr_role_changes message)
     @ write_uint 7 (mr_elections_started message)
     @ write_uint 8 (mr_votes_granted message)
     @ write_uint 9 (mr_step_downs message)
     @ write_uint 10 (mr_messages_dropped_oversize message)
     @ write_uint 11 (mr_snapshot_chunks_sent message)
     @ write_uint 12 (mr_transport_frames_sent message)
     @ write_uint 13 (mr_transport_frames_received message)
     @ write_uint 14 (mr_transport_dropped message)
     @ write_uint 15 (mr_snapshot_index message)
     @ write_bytes 16 (mr_snapshot_state_hash message)
     @ write_bytes 17 (mr_recovery_report message)
     @ write_bytes 18 (mr_state_chunk message)
     @ write_uint 19 (mr_state_size message))"

section \<open>Decoders\<close>

definition handshake_field :: "int \<Rightarrow> nat \<Rightarrow> Handshake \<Rightarrow> Handshake action" where
  "handshake_field field wire message =
     (if field = 1 \<and> wire = kLength then Bytes (\<lambda>v. Inr (message\<lparr>hs_node_id := v\<rparr>))
      else if (field = 2 \<or> field = 3) \<and> wire = kVarint then Uint (\<lambda>v.
        if 4294967295 < v then fail ProtocolError ''handshake version exceeds uint32''
        else if field = 2 then Inr (message\<lparr>hs_major := ucast v\<rparr>)
        else Inr (message\<lparr>hs_minor := ucast v\<rparr>))
      else Skip)"

definition decode_handshake :: "string \<Rightarrow> Handshake Result" where
  "decode_handshake bytes = decode_loop narrow_int handshake_field
     \<lparr>hs_node_id = [], hs_major = 1, hs_minor = 0\<rparr> bytes"

definition event_record_field :: "int \<Rightarrow> nat \<Rightarrow> string \<Rightarrow> string action" where
  "event_record_field field wire canonical =
     (if field = 1 \<and> wire = kLength then Bytes (\<lambda>v. Inr v) else Skip)"

definition append_entries_field :: "int \<Rightarrow> nat \<Rightarrow> AppendEntries_wire \<Rightarrow> AppendEntries_wire action" where
  "append_entries_field field wire message =
     (if (field = 1 \<or> field = 3 \<or> field = 4 \<or> field = 6) \<and> wire = kVarint then Uint (\<lambda>v.
        if field = 1 then Inr (message\<lparr>ae_term := v\<rparr>)
        else if field = 3 then Inr (message\<lparr>ae_prev_log_index := v\<rparr>)
        else if field = 4 then Inr (message\<lparr>ae_prev_log_term := v\<rparr>)
        else Inr (message\<lparr>ae_leader_commit := v\<rparr>))
      else if field = 2 \<and> wire = kLength then Bytes (\<lambda>v. Inr (message\<lparr>ae_leader_id := v\<rparr>))
      else if field = 5 \<and> wire = kLength then Bytes (\<lambda>record.
        bindE (decode_loop narrow_int event_record_field [] record) (\<lambda>canonical.
        bindE (parse_event canonical) (\<lambda>event.
        Inr (message\<lparr>ae_entries := ae_entries message @ [event]\<rparr>))))
      else Skip)"

definition decode_append_entries :: "string \<Rightarrow> AppendEntries_wire Result" where
  "decode_append_entries bytes = decode_loop narrow_int append_entries_field
     \<lparr>ae_term = 1, ae_leader_id = [], ae_prev_log_index = 0, ae_prev_log_term = 0, ae_entries = [],
      ae_leader_commit = 0\<rparr> bytes"

definition append_response_field :: "int \<Rightarrow> nat \<Rightarrow> AppendEntriesResponse \<Rightarrow> AppendEntriesResponse action" where
  "append_response_field field wire message =
     (if wire = kVarint \<and> (field = 1 \<or> field = 3 \<or> field = 4 \<or> field = 5) then Uint (\<lambda>v.
        if field = 1 then Inr (message\<lparr>ar_term := v\<rparr>)
        else if field = 3 then Inr (message\<lparr>ar_success := v \<noteq> 0\<rparr>)
        else if field = 4 then Inr (message\<lparr>ar_match_index := v\<rparr>)
        else Inr (message\<lparr>ar_hint_index := v\<rparr>))
      else if field = 2 \<and> wire = kLength then Bytes (\<lambda>v. Inr (message\<lparr>ar_follower_id := v\<rparr>))
      else Skip)"

definition decode_append_response :: "string \<Rightarrow> AppendEntriesResponse Result" where
  "decode_append_response bytes = decode_loop narrow_int append_response_field
     \<lparr>ar_term = 1, ar_follower_id = [], ar_success = False, ar_match_index = 0, ar_hint_index = 0\<rparr> bytes"

definition request_vote_field :: "int \<Rightarrow> nat \<Rightarrow> RequestVote_wire \<Rightarrow> RequestVote_wire action" where
  "request_vote_field field wire message =
     (if wire = kVarint \<and> field \<noteq> 2 then Uint (\<lambda>v.
        if field = 1 then Inr (message\<lparr>rv_term := v\<rparr>)
        else if field = 3 then Inr (message\<lparr>rv_last_log_index := v\<rparr>)
        else if field = 4 then Inr (message\<lparr>rv_last_log_term := v\<rparr>)
        else Inr message)
      else if field = 2 \<and> wire = kLength then Bytes (\<lambda>v. Inr (message\<lparr>rv_candidate_id := v\<rparr>))
      else Skip)"

definition decode_request_vote :: "string \<Rightarrow> RequestVote_wire Result" where
  "decode_request_vote bytes = decode_loop narrow_int request_vote_field
     \<lparr>rv_term = 1, rv_candidate_id = [], rv_last_log_index = 0, rv_last_log_term = 0\<rparr> bytes"

definition vote_response_field :: "int \<Rightarrow> nat \<Rightarrow> RequestVoteResponse \<Rightarrow> RequestVoteResponse action" where
  "vote_response_field field wire message =
     (if wire = kVarint \<and> field \<noteq> 2 then Uint (\<lambda>v.
        if field = 1 then Inr (message\<lparr>vr_term := v\<rparr>)
        else if field = 3 then Inr (message\<lparr>vr_vote_granted := v \<noteq> 0\<rparr>)
        else Inr message)
      else if field = 2 \<and> wire = kLength then Bytes (\<lambda>v. Inr (message\<lparr>vr_voter_id := v\<rparr>))
      else Skip)"

definition decode_vote_response :: "string \<Rightarrow> RequestVoteResponse Result" where
  "decode_vote_response bytes = decode_loop narrow_int vote_response_field
     \<lparr>vr_term = 1, vr_voter_id = [], vr_vote_granted = False\<rparr> bytes"

definition install_snapshot_field :: "int \<Rightarrow> nat \<Rightarrow> InstallSnapshot \<Rightarrow> InstallSnapshot action" where
  "install_snapshot_field field wire message =
     (if wire = kVarint \<and> (field = 1 \<or> field = 3 \<or> field = 4 \<or> field = 7 \<or> field = 8) then Uint (\<lambda>v.
        if field = 1 then Inr (message\<lparr>is_term := v\<rparr>)
        else if field = 3 then Inr (message\<lparr>is_last_included_index := v\<rparr>)
        else if field = 4 then Inr (message\<lparr>is_last_included_term := v\<rparr>)
        else if field = 7 then Inr (message\<lparr>is_offset := v\<rparr>)
        else Inr (message\<lparr>is_more := v \<noteq> 0\<rparr>))
      else if wire = kLength \<and> (field = 2 \<or> field = 5 \<or> field = 6) then Bytes (\<lambda>v.
        if field = 2 then Inr (message\<lparr>is_leader_id := v\<rparr>)
        else if field = 5 then Inr (message\<lparr>is_state_hash := v\<rparr>)
        else Inr (message\<lparr>is_payload := v\<rparr>))
      else Skip)"

definition decode_install_snapshot :: "string \<Rightarrow> InstallSnapshot Result" where
  "decode_install_snapshot bytes = decode_loop narrow_int install_snapshot_field
     \<lparr>is_term = 1, is_leader_id = [], is_last_included_index = 0, is_last_included_term = 0,
      is_state_hash = [], is_payload = [], is_offset = 0, is_more = False\<rparr> bytes"

definition snapshot_response_field :: "int \<Rightarrow> nat \<Rightarrow> InstallSnapshotResponse \<Rightarrow> InstallSnapshotResponse action" where
  "snapshot_response_field field wire message =
     (if wire = kVarint \<and> field \<noteq> 2 then Uint (\<lambda>v.
        if field = 1 then Inr (message\<lparr>ir_term := v\<rparr>)
        else if field = 3 then Inr (message\<lparr>ir_success := v \<noteq> 0\<rparr>)
        else if field = 4 then Inr (message\<lparr>ir_next_offset := v\<rparr>)
        else Inr message)
      else if field = 2 \<and> wire = kLength then Bytes (\<lambda>v. Inr (message\<lparr>ir_follower_id := v\<rparr>))
      else Skip)"

definition decode_snapshot_response :: "string \<Rightarrow> InstallSnapshotResponse Result" where
  "decode_snapshot_response bytes = decode_loop narrow_int snapshot_response_field
     \<lparr>ir_term = 1, ir_follower_id = [], ir_success = False, ir_next_offset = 0\<rparr> bytes"

definition protocol_error_field :: "int \<Rightarrow> nat \<Rightarrow> ProtocolError_wire \<Rightarrow> ProtocolError_wire action" where
  "protocol_error_field field wire message =
     (if wire = kLength \<and> (field = 1 \<or> field = 2) then Bytes (\<lambda>v.
        if field = 1 then Inr (message\<lparr>pe_code := v\<rparr>) else Inr (message\<lparr>pe_detail := v\<rparr>))
      else Skip)"

definition decode_protocol_error :: "string \<Rightarrow> ProtocolError_wire Result" where
  "decode_protocol_error bytes = decode_loop narrow_int protocol_error_field
     \<lparr>pe_code = [], pe_detail = []\<rparr> bytes"

definition client_command_field :: "int \<Rightarrow> nat \<Rightarrow> ClientCommand \<Rightarrow> ClientCommand action" where
  "client_command_field field wire message =
     (if field = 1 \<and> wire = kLength then Bytes (\<lambda>v. Inr (message\<lparr>cc_canonical := v\<rparr>)) else Skip)"

definition decode_client_command :: "string \<Rightarrow> ClientCommand Result" where
  "decode_client_command bytes = decode_loop narrow_int client_command_field \<lparr>cc_canonical = []\<rparr> bytes"

definition client_response_field :: "int \<Rightarrow> nat \<Rightarrow> ClientResponse \<Rightarrow> ClientResponse action" where
  "client_response_field field wire message =
     (if wire = kVarint \<and> (field = 1 \<or> field = 2 \<or> field = 6) then Uint (\<lambda>v.
        if field = 1 then Inr (message\<lparr>cr_ok := v \<noteq> 0\<rparr>)
        else if field = 2 then Inr (message\<lparr>cr_duplicate := v \<noteq> 0\<rparr>)
        else Inr (message\<lparr>cr_index := v\<rparr>))
      else if wire = kLength \<and> 3 \<le> field \<and> field \<le> 8 \<and> field \<noteq> 6 then Bytes (\<lambda>v.
        if field = 3 then Inr (message\<lparr>cr_error_code := v\<rparr>)
        else if field = 4 then Inr (message\<lparr>cr_error_message := v\<rparr>)
        else if field = 5 then Inr (message\<lparr>cr_leader_id := v\<rparr>)
        else if field = 7 then Inr (message\<lparr>cr_event_canonical := v\<rparr>)
        else Inr (message\<lparr>cr_state_hash := v\<rparr>))
      else Skip)"

definition decode_client_response :: "string \<Rightarrow> ClientResponse Result" where
  "decode_client_response bytes = decode_loop narrow_int client_response_field
     \<lparr>cr_ok = False, cr_duplicate = False, cr_error_code = [], cr_error_message = [],
      cr_leader_id = [], cr_index = 0, cr_event_canonical = [], cr_state_hash = []\<rparr> bytes"

definition status_response_field :: "int \<Rightarrow> nat \<Rightarrow> StatusResponse \<Rightarrow> StatusResponse action" where
  "status_response_field field wire message =
     (if wire = kVarint \<and> (field = 4 \<or> field = 5 \<or> field = 6) then Uint (\<lambda>v.
        if field = 4 then Inr (message\<lparr>sr_term := v\<rparr>)
        else if field = 5 then Inr (message\<lparr>sr_commit_index := v\<rparr>)
        else Inr (message\<lparr>sr_last_log_index := v\<rparr>))
      else if wire = kLength \<and> (field = 1 \<or> field = 2 \<or> field = 3 \<or> field = 7 \<or> field = 8) then Bytes (\<lambda>v.
        if field = 1 then Inr (message\<lparr>sr_node_id := v\<rparr>)
        else if field = 2 then Inr (message\<lparr>sr_leader_id := v\<rparr>)
        else if field = 3 then Inr (message\<lparr>sr_role := v\<rparr>)
        else if field = 7 then Inr (message\<lparr>sr_state_hash := v\<rparr>)
        else Inr (message\<lparr>sr_canonical_state := v\<rparr>))
      else Skip)"

definition decode_status_response :: "string \<Rightarrow> StatusResponse Result" where
  "decode_status_response bytes = decode_loop narrow_int status_response_field
     \<lparr>sr_node_id = [], sr_leader_id = [], sr_role = [], sr_term = 1, sr_commit_index = 0,
      sr_last_log_index = 0, sr_state_hash = [], sr_canonical_state = []\<rparr> bytes"

definition management_query_field :: "int \<Rightarrow> nat \<Rightarrow> ManagementQuery \<Rightarrow> ManagementQuery action" where
  "management_query_field field wire message =
     (if (field = 1 \<or> field = 4 \<or> field = 6) \<and> wire = kLength then Bytes (\<lambda>v.
        if field = 1 then Inr (message\<lparr>mq_operation := v\<rparr>)
        else if field = 6 then Inr (message\<lparr>mq_expected_state_hash := v\<rparr>)
        else Inr (message\<lparr>mq_peer_id := v\<rparr>))
      else if (field = 2 \<or> field = 3 \<or> field = 5) \<and> wire = kVarint then Uint (\<lambda>v.
        if field = 2 then Inr (message\<lparr>mq_after_index := v\<rparr>)
        else if field = 5 then
          (if 5000 < v then fail ProtocolError ''management delay exceeds 5000 ms''
           else Inr (message\<lparr>mq_delay_ms := ucast v\<rparr>))
        else
          (if 128 < v then fail ProtocolError ''management page size exceeds 128''
           else Inr (message\<lparr>mq_page_size := ucast v\<rparr>)))
      else Skip)"

definition decode_management_query :: "string \<Rightarrow> ManagementQuery Result" where
  "decode_management_query bytes = decode_loop keep_u64 management_query_field
     \<lparr>mq_operation = [], mq_after_index = 0, mq_page_size = 0, mq_peer_id = [], mq_delay_ms = 0,
      mq_expected_state_hash = []\<rparr> bytes"

definition management_reply_field :: "int \<Rightarrow> nat \<Rightarrow> ManagementReply \<Rightarrow> ManagementReply action" where
  "management_reply_field field wire message =
     (if (field = 1 \<or> field = 2 \<or> field = 3 \<or> field = 16 \<or> field = 17 \<or> field = 18) \<and> wire = kLength
      then Bytes (\<lambda>v.
        if field = 1 then Inr (message\<lparr>mr_error_code := v\<rparr>)
        else if field = 2 then Inr (message\<lparr>mr_error_message := v\<rparr>)
        else if field = 3 then Inr (message\<lparr>mr_events := mr_events message @ [v]\<rparr>)
        else if field = 16 then Inr (message\<lparr>mr_snapshot_state_hash := v\<rparr>)
        else if field = 17 then Inr (message\<lparr>mr_recovery_report := v\<rparr>)
        else if field = 18 then Inr (message\<lparr>mr_state_chunk := v\<rparr>)
        else Inr message)
      else if (4 \<le> field \<and> field \<le> 15 \<or> field = 19) \<and> wire = kVarint then Uint (\<lambda>v.
        if field = 4 then Inr (message\<lparr>mr_next_after_index := v\<rparr>)
        else if field = 5 then Inr (message\<lparr>mr_has_more := v \<noteq> 0\<rparr>)
        else if field = 6 then Inr (message\<lparr>mr_role_changes := v\<rparr>)
        else if field = 7 then Inr (message\<lparr>mr_elections_started := v\<rparr>)
        else if field = 8 then Inr (message\<lparr>mr_votes_granted := v\<rparr>)
        else if field = 9 then Inr (message\<lparr>mr_step_downs := v\<rparr>)
        else if field = 10 then Inr (message\<lparr>mr_messages_dropped_oversize := v\<rparr>)
        else if field = 11 then Inr (message\<lparr>mr_snapshot_chunks_sent := v\<rparr>)
        else if field = 12 then Inr (message\<lparr>mr_transport_frames_sent := v\<rparr>)
        else if field = 13 then Inr (message\<lparr>mr_transport_frames_received := v\<rparr>)
        else if field = 14 then Inr (message\<lparr>mr_transport_dropped := v\<rparr>)
        else if field = 15 then Inr (message\<lparr>mr_snapshot_index := v\<rparr>)
        else if field = 19 then Inr (message\<lparr>mr_state_size := v\<rparr>)
        else Inr message)
      else Skip)"

definition decode_management_reply :: "string \<Rightarrow> ManagementReply Result" where
  "decode_management_reply bytes = decode_loop keep_u64 management_reply_field
     \<lparr>mr_error_code = [], mr_error_message = [], mr_events = [], mr_next_after_index = 0,
      mr_has_more = False, mr_role_changes = 0, mr_elections_started = 0, mr_votes_granted = 0,
      mr_step_downs = 0, mr_messages_dropped_oversize = 0, mr_snapshot_chunks_sent = 0,
      mr_transport_frames_sent = 0, mr_transport_frames_received = 0, mr_transport_dropped = 0,
      mr_snapshot_index = 0, mr_snapshot_state_hash = [], mr_recovery_report = [],
      mr_state_chunk = [], mr_state_size = 0\<rparr> bytes"

end
