(* ===== verification/Wire_Round_Trip.thy ===== *)
theory Wire_Round_Trip
  imports Wire_Messages
begin

text \<open>
  What the decoders of \<open>protocol/codec.cpp\<close> return on what its encoders wrote, for every message, and
  that fields a decoder does not know are skipped.
\<close>

section \<open>Stepping through an encoded message\<close>

definition fits :: "string \<Rightarrow> bool" where
  "fits s \<longleftrightarrow> length s < 2 ^ 64"

text \<open>What a field whose default is one holds after a round trip: the writer leaves zero out.\<close>

definition default_one :: "'a::len word \<Rightarrow> 'a word" where
  "default_one v = (if v = 0 then 1 else v)"

lemma write_uint_0 [simp]: "write_uint field 0 = []"
  by (simp add: write_uint_def)

lemma tag_ok_numeral [simp]: "tag_ok (Suc 0)" "tag_ok (numeral n) \<longleftrightarrow> numeral n < (2 ^ 28 :: nat)"
  by (simp_all add: tag_ok_def)

lemma decode_bool:
  assumes "exact_on_small narrow" "tag_ok field" "is_Uint (handle (int field) 0 message)"
    "\<not> b \<Longrightarrow> on_uint (handle (int field) 0 message) 0 = Inr message"
  shows "decode_loop narrow handle message (write_bool field b @ rest) =
    bindE (on_uint (handle (int field) 0 message) (of_bool b)) (\<lambda>message'. decode_loop narrow handle message' rest)"
  using assms decode_uint [of narrow field handle message "of_bool b" rest]
  by (cases b) (simp_all add: write_bool_uint)

lemma decode_nonzero:
  assumes "exact_on_small narrow" "tag_ok field" "value \<noteq> 0" "is_Uint (handle (int field) 0 message)"
  shows "decode_loop narrow handle message (write_uint field value @ rest) =
    bindE (on_uint (handle (int field) 0 message) value) (\<lambda>message'. decode_loop narrow handle message' rest)"
  using assms by (intro decode_uint) simp_all

lemma decode_nonempty:
  assumes "exact_on_small narrow" "tag_ok field" "value \<noteq> []" "length value < 2 ^ 64"
    "is_Bytes (handle (int field) 2 message)"
  shows "decode_loop narrow handle message (write_bytes field value @ rest) =
    bindE (on_bytes (handle (int field) 2 message) value) (\<lambda>message'. decode_loop narrow handle message' rest)"
  using assms by (intro decode_bytes) simp_all

text \<open>The continuation of a step is simplified only once its message is known.\<close>

lemma bindE_weak_cong: "x = y \<Longrightarrow> bindE x f = bindE y f"
  by simp

lemma decode_last:
  assumes "exact_on_small narrow" "tag_ok field"
  shows "is_Uint (handle (int field) 0 message) \<Longrightarrow>
      (v = 0 \<Longrightarrow> on_uint (handle (int field) 0 message) 0 = Inr message) \<Longrightarrow>
      decode_loop narrow handle message (write_uint field v) = on_uint (handle (int field) 0 message) v"
    and "is_Uint (handle (int field) 0 message) \<Longrightarrow>
      (\<not> b \<Longrightarrow> on_uint (handle (int field) 0 message) 0 = Inr message) \<Longrightarrow>
      decode_loop narrow handle message (write_bool field b) = on_uint (handle (int field) 0 message) (of_bool b)"
    and "is_Bytes (handle (int field) 2 message) \<Longrightarrow> length s < 2 ^ 64 \<Longrightarrow>
      (s = [] \<Longrightarrow> on_bytes (handle (int field) 2 message) [] = Inr message) \<Longrightarrow>
      decode_loop narrow handle message (write_bytes field s) = on_bytes (handle (int field) 2 message) s"
  using decode_uint [OF assms, of handle message v "[]"] decode_bool [OF assms, of handle message b "[]"]
    decode_bytes [OF assms, of handle message s "[]"]
  by (simp_all add: bindE_def split: sum.splits)

lemma ucast_u32:
  "ucast (ucast (x :: u32) :: u64) = x" "(ucast x :: u64) = 0 \<longleftrightarrow> x = 0"
  "(ucast x :: u64) \<le> 4294967295" "(ucast x :: u64) \<le> 128 \<longleftrightarrow> unat x \<le> 128"
  "(ucast x :: u64) \<le> 5000 \<longleftrightarrow> unat x \<le> 5000"
proof -
  have "unat x < 2 ^ LENGTH(32)" by (rule unsigned_less)
  then have small: "unat x < 2 ^ 32" by simp
  then have "take_bit 64 (unat x) = unat x" by (intro take_bit_nat_eq_self) simp
  then have nat: "unat (ucast x :: u64) = unat x" by (simp add: unsigned_ucast_eq)
  show "ucast (ucast x :: u64) = x" by (rule bit_word_eqI) (simp add: bit_ucast_iff)
  show "(ucast x :: u64) = 0 \<longleftrightarrow> x = 0" by (metis nat unsigned_0 unsigned_eq_0_iff)
  show "(ucast x :: u64) \<le> 4294967295" using small by (simp add: word_le_nat_alt nat)
  show "(ucast x :: u64) \<le> 128 \<longleftrightarrow> unat x \<le> 128" "(ucast x :: u64) \<le> 5000 \<longleftrightarrow> unat x \<le> 5000"
    by (simp_all add: word_le_nat_alt nat)
qed

lemmas field_steps = decode_uint decode_nonzero decode_bool decode_bytes decode_nonempty decode_last fits_def default_one_def ucast_u32 not_less
  kVarint_def kLength_def

section \<open>Messages without repeated fields\<close>

lemma decode_handshake_encode:
  assumes "fits (hs_node_id m)"
  shows "bindE (encode_handshake m) decode_handshake = Inr (m\<lparr>hs_major := default_one (hs_major m)\<rparr>)"
  using assms by (cases m; cases "hs_major m = 0")
    (simp_all add: encode_handshake_def decode_handshake_def handshake_field_def field_steps cong: bindE_weak_cong)

lemma decode_append_response_encode:
  assumes "fits (ar_follower_id m)"
  shows "bindE (encode_append_response m) decode_append_response = Inr (m\<lparr>ar_term := default_one (ar_term m)\<rparr>)"
  using assms by (cases m; cases "ar_term m = 0")
    (simp_all add: encode_append_response_def decode_append_response_def append_response_field_def field_steps cong: bindE_weak_cong)

lemma decode_request_vote_encode:
  assumes "fits (rv_candidate_id m)"
  shows "bindE (encode_request_vote m) decode_request_vote = Inr (m\<lparr>rv_term := default_one (rv_term m)\<rparr>)"
  using assms by (cases m; cases "rv_term m = 0")
    (simp_all add: encode_request_vote_def decode_request_vote_def request_vote_field_def field_steps cong: bindE_weak_cong)

lemma decode_vote_response_encode:
  assumes "fits (vr_voter_id m)"
  shows "bindE (encode_vote_response m) decode_vote_response = Inr (m\<lparr>vr_term := default_one (vr_term m)\<rparr>)"
  using assms by (cases m; cases "vr_term m = 0")
    (simp_all add: encode_vote_response_def decode_vote_response_def vote_response_field_def field_steps cong: bindE_weak_cong)

lemma decode_install_snapshot_encode:
  assumes "fits (is_leader_id m)" "fits (is_state_hash m)" "fits (is_payload m)"
  shows "bindE (encode_install_snapshot m) decode_install_snapshot = Inr (m\<lparr>is_term := default_one (is_term m)\<rparr>)"
  using assms by (cases m; cases "is_term m = 0")
    (simp_all add: encode_install_snapshot_def decode_install_snapshot_def install_snapshot_field_def field_steps cong: bindE_weak_cong)

lemma decode_snapshot_response_encode:
  assumes "fits (ir_follower_id m)"
  shows "bindE (encode_snapshot_response m) decode_snapshot_response = Inr (m\<lparr>ir_term := default_one (ir_term m)\<rparr>)"
  using assms by (cases m; cases "ir_term m = 0")
    (simp_all add: encode_snapshot_response_def decode_snapshot_response_def snapshot_response_field_def field_steps cong: bindE_weak_cong)

lemma decode_protocol_error_encode:
  assumes "fits (pe_code m)" "fits (pe_detail m)"
  shows "bindE (encode_protocol_error m) decode_protocol_error = Inr m"
  using assms by (cases m)
    (simp add: encode_protocol_error_def decode_protocol_error_def protocol_error_field_def field_steps cong: bindE_weak_cong)

lemma decode_client_command_encode:
  assumes "fits (cc_canonical m)"
  shows "bindE (encode_client_command m) decode_client_command = Inr m"
  using assms by (cases m)
    (simp add: encode_client_command_def decode_client_command_def client_command_field_def field_steps cong: bindE_weak_cong)

lemma decode_client_response_encode:
  assumes "fits (cr_error_code m)" "fits (cr_error_message m)" "fits (cr_leader_id m)"
    "fits (cr_event_canonical m)" "fits (cr_state_hash m)"
  shows "bindE (encode_client_response m) decode_client_response = Inr m"
  using assms by (cases m)
    (simp add: encode_client_response_def decode_client_response_def client_response_field_def field_steps cong: bindE_weak_cong)

lemma decode_status_response_encode:
  assumes "fits (sr_node_id m)" "fits (sr_leader_id m)" "fits (sr_role m)" "fits (sr_state_hash m)"
    "fits (sr_canonical_state m)"
  shows "bindE (encode_status_response m) decode_status_response = Inr (m\<lparr>sr_term := default_one (sr_term m)\<rparr>)"
  using assms by (cases m; cases "sr_term m = 0")
    (simp_all add: encode_status_response_def decode_status_response_def status_response_field_def field_steps cong: bindE_weak_cong)

lemma decode_management_query_encode:
  assumes "fits (mq_operation m)" "fits (mq_peer_id m)" "fits (mq_expected_state_hash m)"
    "unat (mq_page_size m) \<le> 128" "unat (mq_delay_ms m) \<le> 5000"
  shows "bindE (encode_management_query m) decode_management_query = Inr m"
  using assms by (cases m)
    (simp add: encode_management_query_def decode_management_query_def management_query_field_def field_steps cong: bindE_weak_cong)

section \<open>Messages with repeated fields\<close>

definition entry_fits :: "Event \<Rightarrow> bool" where
  "entry_fits e \<longleftrightarrow> event_ok e \<and> fits (write_bytes 1 (canonical_event e))"

lemma decode_entry:
  assumes "entry_fits e"
  shows "decode_loop narrow_int append_entries_field m (write_bytes 5 (write_bytes 1 (canonical_event e)) @ rest) =
    decode_loop narrow_int append_entries_field (m\<lparr>ae_entries := ae_entries m @ [e]\<rparr>) rest"
proof -
  let ?entry = "write_bytes 1 (canonical_event e)"
  have "canonical_event e \<noteq> []" by (simp add: canonical_event_def)
  then have "?entry \<noteq> []" "length (canonical_event e) \<le> length ?entry" by (auto simp: write_bytes_def write_key_def)
  then have "decode_loop narrow_int event_record_field [] ?entry = Inr (canonical_event e)"
    using assms by (simp add: entry_fits_def event_record_field_def field_steps cong: bindE_weak_cong)
  then show ?thesis
    using assms \<open>?entry \<noteq> []\<close>
    by (simp add: entry_fits_def append_entries_field_def field_steps parse_canonical_event cong: bindE_weak_cong)
qed

lemma decode_entries:
  "list_all entry_fits es \<Longrightarrow>
   decode_loop narrow_int append_entries_field m
     (concat (map (\<lambda>e. write_bytes 5 (write_bytes 1 (canonical_event e))) es) @ rest) =
   decode_loop narrow_int append_entries_field (m\<lparr>ae_entries := ae_entries m @ es\<rparr>) rest"
  by (induction es arbitrary: m) (simp_all add: decode_entry [unfolded One_nat_def])

lemma decode_append_entries_encode:
  assumes "fits (ae_leader_id m)" "list_all entry_fits (ae_entries m)"
  shows "bindE (encode_append_entries m) decode_append_entries = Inr (m\<lparr>ae_term := default_one (ae_term m)\<rparr>)"
  using assms by (cases m; cases "ae_term m = 0")
    (simp_all add: encode_append_entries_def decode_append_entries_def append_entries_field_def field_steps
      decode_entries [unfolded One_nat_def] cong: bindE_weak_cong)

lemma decode_reply_events:
  "list_all (\<lambda>s. s \<noteq> [] \<and> fits s) es \<Longrightarrow>
   decode_loop keep_u64 management_reply_field m (concat (map (write_bytes 3) es) @ rest) =
   decode_loop keep_u64 management_reply_field (m\<lparr>mr_events := mr_events m @ es\<rparr>) rest"
  by (induction es arbitrary: m) (simp_all add: management_reply_field_def field_steps cong: bindE_weak_cong)

lemma decode_management_reply_encode:
  assumes "list_all fits [mr_error_code m, mr_error_message m, mr_snapshot_state_hash m, mr_recovery_report m, mr_state_chunk m]"
    "list_all (\<lambda>s. s \<noteq> [] \<and> fits s) (mr_events m)"
  shows "bindE (encode_management_reply m) decode_management_reply = Inr m"
  using assms by (cases m)
    (simp add: encode_management_reply_def decode_management_reply_def management_reply_field_def field_steps
      decode_reply_events cong: bindE_weak_cong)

section \<open>Sample messages\<close>

lemma fits_short: "length s \<le> 1000 \<Longrightarrow> fits s"
  by (simp add: fits_def)

lemma sample_entry_fits: "entry_fits sample_event"
proof -
  have "length (canonical_event sample_event) \<le> 200"
    by (simp add: canonical_event_def sample_event_def show_int_def show_u16_def show_u64_def show_nat.simps)
  then have "length (write_bytes 1 (canonical_event sample_event)) \<le> 1000"
    using write_bytes_length [of 1 "canonical_event sample_event"] by linarith
  then show ?thesis by (simp add: entry_fits_def sample_event_ok fits_short)
qed

definition sample_handshake :: Handshake where
  "sample_handshake = \<lparr>hs_node_id = ''n1'', hs_major = 1, hs_minor = 0\<rparr>"

definition sample_append_wire :: AppendEntries_wire where
  "sample_append_wire = \<lparr>ae_term = 2, ae_leader_id = ''n1'', ae_prev_log_index = 2, ae_prev_log_term = 1,
     ae_entries = [sample_event], ae_leader_commit = 2\<rparr>"

definition sample_install :: InstallSnapshot where
  "sample_install = \<lparr>is_term = 3, is_leader_id = ''n1'', is_last_included_index = 9, is_last_included_term = 2,
     is_state_hash = ''h'', is_payload = ''snapshot-state 3'', is_offset = 0, is_more = True\<rparr>"

definition sample_response :: ClientResponse where
  "sample_response = \<lparr>cr_ok = True, cr_duplicate = False, cr_error_code = [], cr_error_message = [],
     cr_leader_id = ''n2'', cr_index = 300, cr_event_canonical = ''e'', cr_state_hash = ''h''\<rparr>"

definition sample_status :: StatusResponse where
  "sample_status = \<lparr>sr_node_id = ''n1'', sr_leader_id = ''n2'', sr_role = ''follower'', sr_term = 4,
     sr_commit_index = 7, sr_last_log_index = 8, sr_state_hash = ''h'', sr_canonical_state = ''c''\<rparr>"

definition sample_query :: ManagementQuery where
  "sample_query = \<lparr>mq_operation = ''events'', mq_after_index = 5, mq_page_size = 128, mq_peer_id = [],
     mq_delay_ms = 5000, mq_expected_state_hash = []\<rparr>"

definition sample_reply :: ManagementReply where
  "sample_reply = \<lparr>mr_error_code = [], mr_error_message = [], mr_events = [''e1'', ''e2''],
     mr_next_after_index = 7, mr_has_more = True, mr_role_changes = 1, mr_elections_started = 2,
     mr_votes_granted = 3, mr_step_downs = 0, mr_messages_dropped_oversize = 0, mr_snapshot_chunks_sent = 4,
     mr_transport_frames_sent = 500, mr_transport_frames_received = 600, mr_transport_dropped = 0,
     mr_snapshot_index = 5, mr_snapshot_state_hash = ''h'', mr_recovery_report = [], mr_state_chunk = [],
     mr_state_size = 0\<rparr>"

section \<open>The messages nodes exchange\<close>

definition handshake_fits :: "Handshake \<Rightarrow> bool" where
  "handshake_fits m \<longleftrightarrow> fits (hs_node_id m)"

definition append_entries_fits :: "AppendEntries_wire \<Rightarrow> bool" where
  "append_entries_fits m \<longleftrightarrow> fits (ae_leader_id m) \<and> list_all entry_fits (ae_entries m)"

definition install_snapshot_fits :: "InstallSnapshot \<Rightarrow> bool" where
  "install_snapshot_fits m \<longleftrightarrow> fits (is_leader_id m) \<and> fits (is_state_hash m) \<and> fits (is_payload m)"

definition client_response_fits :: "ClientResponse \<Rightarrow> bool" where
  "client_response_fits m \<longleftrightarrow>
     list_all fits [cr_error_code m, cr_error_message m, cr_leader_id m, cr_event_canonical m, cr_state_hash m]"

definition status_response_fits :: "StatusResponse \<Rightarrow> bool" where
  "status_response_fits m \<longleftrightarrow>
     list_all fits [sr_node_id m, sr_leader_id m, sr_role m, sr_state_hash m, sr_canonical_state m]"

definition management_query_fits :: "ManagementQuery \<Rightarrow> bool" where
  "management_query_fits m \<longleftrightarrow> list_all fits [mq_operation m, mq_peer_id m, mq_expected_state_hash m]
     \<and> unat (mq_page_size m) \<le> 128 \<and> unat (mq_delay_ms m) \<le> 5000"

definition management_reply_fits :: "ManagementReply \<Rightarrow> bool" where
  "management_reply_fits m \<longleftrightarrow>
     list_all fits [mr_error_code m, mr_error_message m, mr_snapshot_state_hash m, mr_recovery_report m, mr_state_chunk m]
     \<and> list_all (\<lambda>s. s \<noteq> [] \<and> fits s) (mr_events m)"

interpretation append_requests: round_trip "\<lambda>m. append_entries_fits m \<and> ae_term m \<noteq> 0" encode_append_entries
  "\<lambda>bytes. bindE bytes decode_append_entries"
  by unfold_locales (simp add: append_entries_fits_def decode_append_entries_encode default_one_def)

interpretation vote_requests: round_trip "\<lambda>m. fits (rv_candidate_id m) \<and> rv_term m \<noteq> 0" encode_request_vote
  "\<lambda>bytes. bindE bytes decode_request_vote"
  by unfold_locales (simp add: decode_request_vote_encode default_one_def)

interpretation vote_responses: round_trip "\<lambda>m. fits (vr_voter_id m) \<and> vr_term m \<noteq> 0" encode_vote_response
  "\<lambda>bytes. bindE bytes decode_vote_response"
  by unfold_locales (simp add: decode_vote_response_encode default_one_def)

interpretation append_responses: round_trip "\<lambda>m. fits (ar_follower_id m) \<and> ar_term m \<noteq> 0" encode_append_response
  "\<lambda>bytes. bindE bytes decode_append_response"
  by unfold_locales (simp add: decode_append_response_encode default_one_def)

interpretation client_responses: round_trip client_response_fits encode_client_response
  "\<lambda>bytes. bindE bytes decode_client_response"
  by unfold_locales (simp add: client_response_fits_def decode_client_response_encode)

interpretation management_replies: round_trip management_reply_fits encode_management_reply
  "\<lambda>bytes. bindE bytes decode_management_reply"
  by unfold_locales (simp add: management_reply_fits_def decode_management_reply_encode)

text \<open>
  (C32) Every message of the replication protocol survives encoding: handshake, append, vote and
  snapshot requests and their responses decode to the message that was encoded, with the entries of
  an append in order and each one parsed back to the same event. The one deviation is exact: a term
  or major version of zero, which the writer leaves out, reads back as one.
\<close>

theorem replication_messages_round_trip:
  "(handshake_fits h \<longrightarrow> bindE (encode_handshake h) decode_handshake = Inr (h\<lparr>hs_major := default_one (hs_major h)\<rparr>))
   \<and> (append_entries_fits ae \<longrightarrow>
       bindE (encode_append_entries ae) decode_append_entries = Inr (ae\<lparr>ae_term := default_one (ae_term ae)\<rparr>))
   \<and> (fits (ar_follower_id ar) \<longrightarrow>
       bindE (encode_append_response ar) decode_append_response = Inr (ar\<lparr>ar_term := default_one (ar_term ar)\<rparr>))
   \<and> (fits (rv_candidate_id rv) \<longrightarrow>
       bindE (encode_request_vote rv) decode_request_vote = Inr (rv\<lparr>rv_term := default_one (rv_term rv)\<rparr>))
   \<and> (fits (vr_voter_id vr) \<longrightarrow>
       bindE (encode_vote_response vr) decode_vote_response = Inr (vr\<lparr>vr_term := default_one (vr_term vr)\<rparr>))
   \<and> (install_snapshot_fits is \<longrightarrow>
       bindE (encode_install_snapshot is) decode_install_snapshot = Inr (is\<lparr>is_term := default_one (is_term is)\<rparr>))
   \<and> (fits (ir_follower_id ir) \<longrightarrow>
       bindE (encode_snapshot_response ir) decode_snapshot_response = Inr (ir\<lparr>ir_term := default_one (ir_term ir)\<rparr>))"
  by (simp add: handshake_fits_def append_entries_fits_def install_snapshot_fits_def
      decode_handshake_encode decode_append_entries_encode decode_append_response_encode
      decode_request_vote_encode decode_vote_response_encode decode_install_snapshot_encode
      decode_snapshot_response_encode)

theorem replication_messages_round_trip_witness:
  "bindE (encode_handshake sample_handshake) decode_handshake = Inr sample_handshake
   \<and> bindE (encode_append_entries sample_append_wire) decode_append_entries = Inr sample_append_wire
   \<and> bindE (encode_append_response \<lparr>ar_term = 0, ar_follower_id = ''n2'', ar_success = True, ar_match_index = 3, ar_hint_index = 0\<rparr>)
       decode_append_response = Inr \<lparr>ar_term = 1, ar_follower_id = ''n2'', ar_success = True, ar_match_index = 3, ar_hint_index = 0\<rparr>
   \<and> bindE (encode_install_snapshot sample_install) decode_install_snapshot = Inr sample_install"
  using replication_messages_round_trip [of sample_handshake sample_append_wire
      "\<lparr>ar_term = 0, ar_follower_id = ''n2'', ar_success = True, ar_match_index = 3, ar_hint_index = 0\<rparr>"
      "\<lparr>rv_term = 2, rv_candidate_id = ''n3'', rv_last_log_index = 4, rv_last_log_term = 1\<rparr>"
      "\<lparr>vr_term = 2, vr_voter_id = ''n1'', vr_vote_granted = True\<rparr>" sample_install
      "\<lparr>ir_term = 3, ir_follower_id = ''n2'', ir_success = True, ir_next_offset = 16\<rparr>"]
  by (simp add: handshake_fits_def append_entries_fits_def install_snapshot_fits_def fits_short default_one_def
      sample_handshake_def sample_append_wire_def sample_install_def sample_entry_fits)

text \<open>
  The messages of clients and operators survive encoding as well: error replies, commands,
  command responses, status responses, management queries within the page and delay limits, and
  management replies whose listed events are not empty decode to the message that was encoded.
\<close>

theorem client_messages_round_trip:
  "(fits (pe_code pe) \<and> fits (pe_detail pe) \<longrightarrow> bindE (encode_protocol_error pe) decode_protocol_error = Inr pe)
   \<and> (fits (cc_canonical cc) \<longrightarrow> bindE (encode_client_command cc) decode_client_command = Inr cc)
   \<and> (client_response_fits cr \<longrightarrow> bindE (encode_client_response cr) decode_client_response = Inr cr)
   \<and> (status_response_fits sr \<longrightarrow>
       bindE (encode_status_response sr) decode_status_response = Inr (sr\<lparr>sr_term := default_one (sr_term sr)\<rparr>))
   \<and> (management_query_fits mq \<longrightarrow> bindE (encode_management_query mq) decode_management_query = Inr mq)
   \<and> (management_reply_fits mr \<longrightarrow> bindE (encode_management_reply mr) decode_management_reply = Inr mr)"
  by (simp add: client_response_fits_def status_response_fits_def management_query_fits_def
      management_reply_fits_def decode_protocol_error_encode decode_client_command_encode
      decode_client_response_encode decode_status_response_encode decode_management_query_encode
      decode_management_reply_encode)

theorem client_messages_round_trip_witness:
  "bindE (encode_client_response sample_response) decode_client_response = Inr sample_response
   \<and> bindE (encode_status_response sample_status) decode_status_response = Inr sample_status
   \<and> bindE (encode_management_query sample_query) decode_management_query = Inr sample_query
   \<and> bindE (encode_management_reply sample_reply) decode_management_reply = Inr sample_reply"
  using client_messages_round_trip [of "\<lparr>pe_code = ''NotLeader'', pe_detail = ''n2''\<rparr>" "\<lparr>cc_canonical = ''c''\<rparr>"
      sample_response sample_status sample_query sample_reply]
  by (simp add: client_response_fits_def status_response_fits_def management_query_fits_def
      management_reply_fits_def fits_short default_one_def sample_response_def sample_status_def
      sample_query_def sample_reply_def)

text \<open>
  Two consequences of the wire format that the interfaces above it do not state. A handshake that
  announces major version zero is indistinguishable from one that announces version one, and a field
  number is reduced to 32 bits before it is compared, so that number $2^{32}+1$ is read as one.
\<close>

lemma major_zero_reads_as_one:
  "bindE (encode_handshake \<lparr>hs_node_id = ''n9'', hs_major = 0, hs_minor = 0\<rparr>) decode_handshake
   = Inr \<lparr>hs_node_id = ''n9'', hs_major = 1, hs_minor = 0\<rparr>"
  by (simp add: decode_handshake_encode fits_short default_one_def)

lemma field_number_truncated:
  assumes "fits s"
  shows "decode_client_command (write_varint (push_bit 3 (2 ^ 32 + 1) OR 2) @ write_varint (of_nat (length s)) @ s)
    = Inr \<lparr>cc_canonical = s\<rparr>"
  using assms unfolding decode_client_command_def
  by (subst decode_loop.simps)
    (simp add: Let_def narrow_int_def wrap_i32_def client_command_field_def kLength_def kVarint_def
      skip_or_read_def fits_def unat_of_nat)

lemma empty_event_dropped:
  "bindE (encode_management_reply (sample_reply\<lparr>mr_events := [[]]\<rparr>)) decode_management_reply
   = Inr (sample_reply\<lparr>mr_events := []\<rparr>)"
proof -
  have "encode_management_reply (sample_reply\<lparr>mr_events := [[]]\<rparr>) = encode_management_reply (sample_reply\<lparr>mr_events := []\<rparr>)"
    by (simp add: encode_management_reply_def write_bytes_def [of 3])
  moreover have "management_reply_fits (sample_reply\<lparr>mr_events := []\<rparr>)"
    by (simp add: management_reply_fits_def fits_short sample_reply_def)
  ultimately show ?thesis using management_replies.dec_enc by metis
qed

section \<open>Fields a decoder does not know\<close>

lemma decode_skip_bytes:
  assumes "exact_on_small narrow" "tag_ok field" "handle (int field) 2 message = Skip" "fits s"
  shows "decode_loop narrow handle message (write_bytes field s @ rest) = decode_loop narrow handle message rest"
  using assms by (simp add: write_bytes_def decode_key kLength_def kVarint_def skip_or_read_def fits_def unat_of_nat)

lemma decode_skip_uint:
  assumes "exact_on_small narrow" "tag_ok field"
    "handle (int field) 0 message = Skip \<or> handle (int field) 0 message = Uint (\<lambda>v. Inr message)"
  shows "decode_loop narrow handle message (write_uint field v @ rest) = decode_loop narrow handle message rest"
  using assms by (auto simp: write_uint_def decode_key kVarint_def skip_or_read_def)

text \<open>
  Decoders are forward compatible: length-delimited and integer fields with numbers no message
  uses, as a newer version of the protocol might send, are skipped by every decoder of the file,
  whatever bytes follow them.
\<close>

theorem unknown_fields_skipped:
  assumes "20 \<le> f" "f < 2 ^ 28" "20 \<le> g" "g < 2 ^ 28" "fits s"
  shows "let unknown = write_bytes f s @ write_uint g v in
    decode_handshake (unknown @ bytes) = decode_handshake bytes
    \<and> decode_append_entries (unknown @ bytes) = decode_append_entries bytes
    \<and> decode_append_response (unknown @ bytes) = decode_append_response bytes
    \<and> decode_request_vote (unknown @ bytes) = decode_request_vote bytes
    \<and> decode_vote_response (unknown @ bytes) = decode_vote_response bytes
    \<and> decode_install_snapshot (unknown @ bytes) = decode_install_snapshot bytes
    \<and> decode_snapshot_response (unknown @ bytes) = decode_snapshot_response bytes
    \<and> decode_protocol_error (unknown @ bytes) = decode_protocol_error bytes
    \<and> decode_client_command (unknown @ bytes) = decode_client_command bytes
    \<and> decode_client_response (unknown @ bytes) = decode_client_response bytes
    \<and> decode_status_response (unknown @ bytes) = decode_status_response bytes
    \<and> decode_management_query (unknown @ bytes) = decode_management_query bytes
    \<and> decode_management_reply (unknown @ bytes) = decode_management_reply bytes"
proof -
  have f: "tag_ok f" "int f \<ge> 20" and g: "tag_ok g" "int g \<ge> 20" using assms by (simp_all add: tag_ok_def)
  show ?thesis
    unfolding Let_def append_assoc decode_handshake_def decode_append_entries_def decode_append_response_def decode_request_vote_def decode_vote_response_def decode_install_snapshot_def decode_snapshot_response_def
      decode_protocol_error_def decode_client_command_def decode_client_response_def decode_status_response_def decode_management_query_def decode_management_reply_def
    using f g assms(5)
    by (simp add: decode_skip_bytes decode_skip_uint kVarint_def kLength_def handshake_field_def append_entries_field_def append_response_field_def request_vote_field_def vote_response_field_def
      install_snapshot_field_def snapshot_response_field_def protocol_error_field_def client_command_field_def client_response_field_def status_response_field_def management_query_field_def management_reply_field_def)
qed

theorem unknown_fields_skipped_witness:
  "decode_client_command (write_bytes 30 ''new'' @ write_uint 31 9 @ write_bytes 1 ''c'') = Inr \<lparr>cc_canonical = ''c''\<rparr>"
  using unknown_fields_skipped [of 30 31 "''new''" 9 "write_bytes 1 ''c''"]
    decode_client_command_encode [of "\<lparr>cc_canonical = ''c''\<rparr>"]
  by (simp add: Let_def fits_short encode_client_command_def)

end
