(* ===== verification/Machine.thy ===== *)
theory Machine
  imports Event_Text
begin

unbundle bit_operations_syntax

text \<open>
  The choreography state machine of \<open>state/machine.hpp\<close> and \<open>machine.cpp\<close>: validation of commands
  (\<open>propose\<close>), application of committed events, replay, retry receipts and the in-memory engine.
  A function that mutates a state by reference returns the new state; where the source returns an
  error before its first write, the result carries no state and the caller keeps the old one.
  The snapshot text and the state hash are in \<open>Snapshot_Text\<close>.
\<close>

record DancerState =
  ds_position :: Position
  ds_active :: bool

record FormationState =
  fs_members :: "string list"

record CueState =
  cs_tick :: int
  cs_depends :: "string option"

record EventReceipt =
  rc_index :: u64
  rc_term :: u64
  rc_fingerprint :: u64

record ChoreographyState =
  st_created :: bool
  st_id :: "string option"
  st_stage :: "StageBounds option"
  st_overlap :: OverlapPolicy
  st_max_travel :: int
  st_last_applied :: u64
  st_term :: u64
  st_dancers :: "(string, DancerState) smap"
  st_formations :: "(string, FormationState) smap"
  st_music :: "(string, CueState) smap"
  st_lighting :: "(string, CueState) smap"
  st_applied_events :: "(string, string) smap"
  st_applied_commands :: "(string, string) smap"
  st_receipts :: "(string, EventReceipt) smap"

record SubmitResult =
  sr_event :: Event
  sr_duplicate :: bool

datatype IndexRule = Contiguous | Monotonic

definition initial_state :: ChoreographyState where
  "initial_state =
     \<lparr>st_created = False, st_id = None, st_stage = None, st_overlap = Forbidden, st_max_travel = 0,
      st_last_applied = 0, st_term = 1, st_dancers = [], st_formations = [], st_music = [],
      st_lighting = [], st_applied_events = [], st_applied_commands = [], st_receipts = []\<rparr>"

section \<open>Fingerprints and receipts\<close>

abbreviation kFnvOffset :: u64 where "kFnvOffset \<equiv> 14695981039346656037"
abbreviation kFnvPrime :: u64 where "kFnvPrime \<equiv> 1099511628211"

definition fnv1a :: "string \<Rightarrow> u64" where
  "fnv1a bytes = foldl (\<lambda>hash byte. (hash XOR of_nat (code_of byte)) * kFnvPrime) kFnvOffset bytes"

definition unique_sorted :: "string list \<Rightarrow> string list" where
  "unique_sorted members = unique_sorted_list members"

definition normalize_payload :: "Payload \<Rightarrow> Payload" where
  "normalize_payload p =
     (case p of FormationPayload f ms \<Rightarrow> FormationPayload f (unique_sorted ms) | _ \<Rightarrow> p)"

definition normalize_command :: "Command \<Rightarrow> Command" where
  "normalize_command c = c\<lparr>cmd_payload := normalize_payload (cmd_payload c)\<rparr>"

definition command_fingerprint :: "Command \<Rightarrow> u64" where
  "command_fingerprint c = fnv1a (canonical_command (normalize_command c))"

fun command_type_of :: "EventType \<Rightarrow> CommandType option" where
  "command_type_of ChoreographyCreated = Some CreateChoreography"
| "command_type_of DancerAdded = Some AddDancer"
| "command_type_of DancerRemoved = Some RemoveDancer"
| "command_type_of DancerMoved = Some MoveDancer"
| "command_type_of FormationDefined = Some DefineFormation"
| "command_type_of FormationChanged = Some ChangeFormation"
| "command_type_of MusicCueTriggered = Some TriggerMusicCue"
| "command_type_of LightingCueTriggered = Some TriggerLightingCue"
| "command_type_of NoOp = None"

definition command_from_event :: "Event \<Rightarrow> Command option" where
  "command_from_event e =
     map_option (\<lambda>t. \<lparr>cmd_id = ev_command e, cmd_choreography = ev_choreography e, cmd_type = t,
       cmd_schema = ev_schema e, cmd_tick = ev_tick e, cmd_payload = ev_payload e\<rparr>)
       (command_type_of (ev_type e))"

definition receipt_from_event :: "Event \<Rightarrow> EventReceipt" where
  "receipt_from_event e =
     \<lparr>rc_index = ev_index e, rc_term = ev_term e,
      rc_fingerprint = (case command_from_event e of Some c \<Rightarrow> command_fingerprint c | None \<Rightarrow> 0)\<rparr>"

section \<open>Queries and validation\<close>

definition unsupported_schema :: "u16 \<Rightarrow> Error" where
  "unsupported_schema version = Error UnsupportedVersion (''unsupported schema version '' @ show_u16 version)"

definition domain_copy :: "ChoreographyState \<Rightarrow> ChoreographyState" where
  "domain_copy s = s\<lparr>st_applied_events := [], st_applied_commands := [], st_receipts := []\<rparr>"

definition find_dancer :: "ChoreographyState \<Rightarrow> string \<Rightarrow> DancerState option" where
  "find_dancer s d = map_of (st_dancers s) d"

definition mark_occupied :: "ChoreographyState \<Rightarrow> Position \<Rightarrow> string option \<Rightarrow> bool" where
  "mark_occupied s p except \<longleftrightarrow>
     list_ex (\<lambda>(i, d). ds_active d \<and> except \<noteq> Some i \<and> ds_position d = p) (st_dancers s)"

definition require_created :: "ChoreographyState \<Rightarrow> StageBounds Result" where
  "require_created s =
     (if \<not> st_created s \<or> st_id s = None \<or> st_stage s = None then
        fail ChoreographyNotFound ''choreography has not been created''
      else Inr (the (st_stage s)))"

definition require_schema :: "u16 \<Rightarrow> unit Result" where
  "require_schema version =
     (if version \<noteq> kCurrentSchemaVersion then Inl (unsupported_schema version) else Inr ())"

definition validate_member :: "ChoreographyState \<Rightarrow> unit \<Rightarrow> string \<Rightarrow> unit Result" where
  "validate_member s u member =
     (case find_dancer s member of
        None \<Rightarrow> fail DancerNotFound (''formation references unknown dancer '' @ member)
      | Some d \<Rightarrow>
          if \<not> ds_active d then fail DancerInactive (''formation references inactive dancer '' @ member)
          else Inr ())"

definition validate_formation_members :: "ChoreographyState \<Rightarrow> string list \<Rightarrow> unit Result" where
  "validate_formation_members s members =
     (if members = [] then fail InvalidFormation ''formation must contain at least one dancer''
      else foldE (validate_member s) () members)"

definition find_cue :: "ChoreographyState \<Rightarrow> string \<Rightarrow> CueState option" where
  "find_cue s c =
     (case map_of (st_music s) c of Some q \<Rightarrow> Some q | None \<Rightarrow> map_of (st_lighting s) c)"

definition validate_cue_dependency :: "ChoreographyState \<Rightarrow> string option \<Rightarrow> int \<Rightarrow> unit Result" where
  "validate_cue_dependency s depends tick =
     (case depends of
        None \<Rightarrow> Inr ()
      | Some d \<Rightarrow>
          (case find_cue s d of
             None \<Rightarrow> fail CueDependencyUnmet (''cue depends on missing cue '' @ d)
           | Some q \<Rightarrow>
               if tick < cs_tick q then fail CueDependencyUnmet ''cue occurs before its dependency''
               else Inr ()))"

definition make_event :: "Command \<Rightarrow> u64 \<Rightarrow> u64 \<Rightarrow> Payload \<Rightarrow> Event Result" where
  "make_event c index term payload =
     bindE (parse_id (cmd_id c)) (\<lambda>event_id.
     Inr \<lparr>ev_id = event_id, ev_command = cmd_id c, ev_choreography = cmd_choreography c,
           ev_type = event_type_for (cmd_type c), ev_schema = cmd_schema c, ev_tick = cmd_tick c,
           ev_index = index, ev_term = term, ev_payload = payload\<rparr>)"

section \<open>Applying one event\<close>

definition apply_create ::
  "ChoreographyState \<Rightarrow> Event \<Rightarrow> string \<Rightarrow> StageBounds \<Rightarrow> OverlapPolicy \<Rightarrow> int \<Rightarrow> ChoreographyState Result"
where
  "apply_create s e choreo stage overlap travel =
     (if st_created s then fail ChoreographyExists ''choreography already exists''
      else if travel < 0 then fail InvalidTravel ''maximum travel must be non-negative''
      else Inr (s\<lparr>st_created := True, st_id := Some choreo, st_stage := Some stage,
                  st_overlap := overlap, st_max_travel := travel, st_term := ev_term e\<rparr>))"

definition apply_add :: "ChoreographyState \<Rightarrow> string \<Rightarrow> Position \<Rightarrow> ChoreographyState Result" where
  "apply_add s d p =
     bindE (require_created s) (\<lambda>stage.
       if find_dancer s d \<noteq> None then fail DancerExists ''dancer already exists''
       else if \<not> contains stage p then fail OutOfBounds ''dancer is outside the stage''
       else if st_overlap s = Forbidden \<and> mark_occupied s p None then
         fail PositionOccupied ''mark is already occupied''
       else Inr (s\<lparr>st_dancers := sm_insert d \<lparr>ds_position = p, ds_active = True\<rparr> (st_dancers s)\<rparr>))"

definition apply_remove :: "ChoreographyState \<Rightarrow> string \<Rightarrow> ChoreographyState Result" where
  "apply_remove s d =
     bindE (require_created s) (\<lambda>_.
       case find_dancer s d of
         None \<Rightarrow> fail DancerNotFound ''dancer does not exist''
       | Some ds \<Rightarrow>
           if \<not> ds_active ds then fail DancerInactive ''dancer is already removed''
           else Inr (s\<lparr>st_dancers := sm_modify d (\<lambda>x. x\<lparr>ds_active := False\<rparr>) (st_dancers s)\<rparr>))"

definition apply_move :: "ChoreographyState \<Rightarrow> string \<Rightarrow> Position \<Rightarrow> ChoreographyState Result" where
  "apply_move s d p =
     bindE (require_created s) (\<lambda>stage.
       case find_dancer s d of
         None \<Rightarrow> fail DancerNotFound ''dancer does not exist''
       | Some ds \<Rightarrow>
           if \<not> ds_active ds then fail DancerInactive ''removed dancers cannot move''
           else if \<not> contains stage p then fail OutOfBounds ''move is outside the stage''
           else if \<not> travel_within_limit (ds_position ds) p (st_max_travel s) then
             fail TravelTooFar ''move exceeds the configured travel limit''
           else if st_overlap s = Forbidden \<and> mark_occupied s p (Some d) then
             fail PositionOccupied ''mark is already occupied''
           else Inr (s\<lparr>st_dancers := sm_modify d (\<lambda>x. x\<lparr>ds_position := p\<rparr>) (st_dancers s)\<rparr>))"

definition apply_formation ::
  "ChoreographyState \<Rightarrow> EventType \<Rightarrow> string \<Rightarrow> string list \<Rightarrow> ChoreographyState Result"
where
  "apply_formation s type f raw =
     bindE (require_created s) (\<lambda>_.
     let members = unique_sorted raw in
     bindE (validate_formation_members s members) (\<lambda>_.
     let exists = map_of (st_formations s) f \<noteq> None in
       if type = FormationDefined \<and> exists then fail FormationExists ''formation already exists''
       else if type = FormationChanged \<and> \<not> exists then
         fail FormationNotFound ''formation does not exist''
       else Inr (s\<lparr>st_formations := sm_assign f \<lparr>fs_members = members\<rparr> (st_formations s)\<rparr>)))"

definition apply_cue ::
  "ChoreographyState \<Rightarrow> (string, CueState) smap \<Rightarrow> string \<Rightarrow> string option \<Rightarrow> int \<Rightarrow>
   (string, CueState) smap Result"
where
  "apply_cue s cues c depends tick =
     (if find_cue s c \<noteq> None then fail CueExists ''cue already exists''
      else bindE (validate_cue_dependency s depends tick) (\<lambda>_.
        Inr (sm_insert c \<lparr>cs_tick = tick, cs_depends = depends\<rparr> cues)))"

definition apply_music :: "ChoreographyState \<Rightarrow> string \<Rightarrow> string option \<Rightarrow> int \<Rightarrow> ChoreographyState Result" where
  "apply_music s c depends tick =
     bindE (require_created s) (\<lambda>_.
     bindE (apply_cue s (st_music s) c depends tick) (\<lambda>cues. Inr (s\<lparr>st_music := cues\<rparr>)))"

definition apply_lighting :: "ChoreographyState \<Rightarrow> string \<Rightarrow> string option \<Rightarrow> int \<Rightarrow> ChoreographyState Result" where
  "apply_lighting s c depends tick =
     bindE (require_created s) (\<lambda>_.
     bindE (apply_cue s (st_lighting s) c depends tick) (\<lambda>cues. Inr (s\<lparr>st_lighting := cues\<rparr>)))"

text \<open>The switch over the event type; a payload of the wrong kind is an unhandled event.\<close>

definition apply_payload :: "ChoreographyState \<Rightarrow> Event \<Rightarrow> ChoreographyState Result" where
  "apply_payload s e =
     (case (ev_type e, ev_payload e) of
        (ChoreographyCreated, CreateChoreographyPayload c stage ov travel) \<Rightarrow> apply_create s e c stage ov travel
      | (DancerAdded, DancerPayload d p) \<Rightarrow> apply_add s d p
      | (DancerRemoved, RemoveDancerPayload d) \<Rightarrow> apply_remove s d
      | (DancerMoved, DancerPayload d p) \<Rightarrow> apply_move s d p
      | (FormationDefined, FormationPayload f ms) \<Rightarrow> apply_formation s FormationDefined f ms
      | (FormationChanged, FormationPayload f ms) \<Rightarrow> apply_formation s FormationChanged f ms
      | (MusicCueTriggered, CuePayload c dep) \<Rightarrow> apply_music s c dep (ev_tick e)
      | (LightingCueTriggered, CuePayload c dep) \<Rightarrow> apply_lighting s c dep (ev_tick e)
      | (NoOp, _) \<Rightarrow> Inr s
      | _ \<Rightarrow> fail UnsupportedType ''unhandled event type'')"

definition existing_event :: "ChoreographyState \<Rightarrow> Event \<Rightarrow> bool Result" where
  "existing_event s e =
     (case map_of (st_applied_events s) (ev_id e) of
        Some seen \<Rightarrow>
          if seen = canonical_event e then Inr True
          else fail ConflictingEvent ''event id was reused with different content''
      | None \<Rightarrow>
          (case map_of (st_receipts s) (ev_command e) of
             Some r \<Rightarrow>
               (case command_from_event e of
                  Some original \<Rightarrow>
                    if rc_index r = ev_index e \<and> rc_term r = ev_term e \<and>
                       rc_fingerprint r = command_fingerprint original then Inr True
                    else fail ConflictingEvent ''committed command id was reused with different event content''
                | None \<Rightarrow>
                    fail ConflictingEvent ''committed command id was reused with different event content'')
           | None \<Rightarrow>
               if map_of (st_applied_commands s) (ev_command e) \<noteq> None then
                 fail ConflictingEvent ''legacy committed command id was replayed without an outcome receipt''
               else Inr False))"

definition record_event :: "ChoreographyState \<Rightarrow> ChoreographyState \<Rightarrow> Event \<Rightarrow> ChoreographyState" where
  "record_event s candidate e =
     s\<lparr>st_created := st_created candidate, st_id := st_id candidate, st_stage := st_stage candidate,
       st_overlap := st_overlap candidate, st_max_travel := st_max_travel candidate,
       st_dancers := st_dancers candidate, st_formations := st_formations candidate,
       st_music := st_music candidate, st_lighting := st_lighting candidate,
       st_last_applied := ev_index e, st_term := ev_term e,
       st_applied_events := sm_insert (ev_id e) (canonical_event e) (st_applied_events s),
       st_applied_commands := sm_insert (ev_command e) (ev_id e) (st_applied_commands s),
       st_receipts := (if ev_type e \<noteq> NoOp
                       then sm_assign (ev_command e) (receipt_from_event e) (st_receipts s)
                       else st_receipts s)\<rparr>"

definition apply_against ::
  "ChoreographyState \<Rightarrow> Event \<Rightarrow> IndexRule \<Rightarrow> ChoreographyState option \<Rightarrow> ChoreographyState Result"
where
  "apply_against s e rule baseline =
     bindE (require_schema (ev_schema e)) (\<lambda>_.
     bindE (existing_event s e) (\<lambda>seen.
       if seen then Inr s
       else
         bindE (case baseline of None \<Rightarrow> Inr False | Some b \<Rightarrow> existing_event b e) (\<lambda>prior.
           if prior then Inr s
           else if rule = Contiguous \<and> ev_index e \<noteq> next_log_index (st_last_applied s) then
             fail IndexGap ''event index is not contiguous''
           else if rule = Monotonic \<and> \<not> st_last_applied s < ev_index e then
             fail IndexGap ''event index must increase during filtered replay''
           else
             bindE (apply_payload (domain_copy s) e) (\<lambda>candidate. Inr (record_event s candidate e)))))"

definition apply_state :: "ChoreographyState \<Rightarrow> Event \<Rightarrow> IndexRule \<Rightarrow> ChoreographyState Result" where
  "apply_state s e rule = apply_against s e rule None"

section \<open>Proposing, replaying and retrying\<close>

definition propose :: "ChoreographyState \<Rightarrow> Command \<Rightarrow> Event Result" where
  "propose s c =
     bindE (require_schema (cmd_schema c)) (\<lambda>_.
       if map_of (st_applied_commands s) (cmd_id c) \<noteq> None \<or> map_of (st_receipts s) (cmd_id c) \<noteq> None then
         fail DuplicateCommand ''command id has already been accepted''
       else
         bindE (if cmd_type c \<noteq> CreateChoreography then
                  bindE (require_created s) (\<lambda>_.
                    if cmd_choreography c \<noteq> the (st_id s) then
                      fail ChoreographyNotFound ''command targets a different choreography''
                    else Inr ())
                else if st_created s then fail ChoreographyExists ''choreography already exists''
                else Inr ()) (\<lambda>_.
         bindE (make_event c (next_log_index (st_last_applied s)) (st_term s)
                  (normalize_payload (cmd_payload c))) (\<lambda>tentative.
         bindE (apply_state (domain_copy s) tentative Contiguous) (\<lambda>_. Inr tentative))))"

definition through :: "int option \<Rightarrow> u64 option \<Rightarrow> Event \<Rightarrow> bool" where
  "through through_tick through_index e \<longleftrightarrow>
     \<not> (case through_tick of None \<Rightarrow> False | Some t \<Rightarrow> t < ev_tick e) \<and>
     \<not> (case through_index of None \<Rightarrow> False | Some i \<Rightarrow> i < ev_index e)"

definition replay :: "Event list \<Rightarrow> int option \<Rightarrow> u64 option \<Rightarrow> ChoreographyState Result" where
  "replay events through_tick through_index =
     foldE (\<lambda>s e. if \<not> through through_tick through_index e then Inr s
                  else apply_state s e
                    (if through_tick \<noteq> None \<or> through_index \<noteq> None then Monotonic else Contiguous))
       initial_state events"

definition resolve_receipt :: "ChoreographyState \<Rightarrow> Command \<Rightarrow> Event Result" where
  "resolve_receipt s c =
     (case map_of (st_receipts s) (cmd_id c) of
        None \<Rightarrow> fail OutcomeUnavailable ''committed legacy command has no recoverable receipt''
      | Some r \<Rightarrow>
          if command_fingerprint c \<noteq> rc_fingerprint r then
            fail CommandConflict ''operation id reused with different command''
          else
            bindE (parse_id (cmd_id c)) (\<lambda>event_id.
            bindE (parse_log_index (rc_index r)) (\<lambda>index.
            bindE (parse_term (rc_term r)) (\<lambda>term.
            Inr \<lparr>ev_id = event_id, ev_command = cmd_id c, ev_choreography = cmd_choreography c,
                  ev_type = event_type_for (cmd_type c), ev_schema = cmd_schema c,
                  ev_tick = cmd_tick c, ev_index = index, ev_term = term,
                  ev_payload = cmd_payload (normalize_command c)\<rparr>))))"

section \<open>The engine\<close>

text \<open>\<open>std::lower_bound\<close>: the binary search over the range \<open>[first, first + len)\<close>.\<close>

function lower_bound :: "('a \<Rightarrow> bool) \<Rightarrow> 'a list \<Rightarrow> nat \<Rightarrow> nat \<Rightarrow> nat" where
  "lower_bound below xs first len =
     (if len = 0 then first
      else let half = len div 2; middle = first + half in
        if below (xs ! middle) then lower_bound below xs (middle + 1) (len - half - 1)
        else lower_bound below xs first half)"
  by pat_completeness auto
termination
  by (relation "measure (\<lambda>(p, xs, first, len). len)") auto

declare lower_bound.simps [simp del]

record Engine =
  en_state :: ChoreographyState
  en_events :: "Event list"

definition empty_engine :: Engine where
  "empty_engine = \<lparr>en_state = initial_state, en_events = []\<rparr>"

definition apply_committed :: "Engine \<Rightarrow> Event \<Rightarrow> Engine Result" where
  "apply_committed en e =
     bindE (apply_state (en_state en) e Contiguous) (\<lambda>s.
     Inr (en\<lparr>en_state := s, en_events := en_events en @ [e]\<rparr>))"

definition submit :: "Engine \<Rightarrow> Command \<Rightarrow> (Engine \<times> SubmitResult) Result" where
  "submit en c =
     (if map_of (st_applied_commands (en_state en)) (cmd_id c) \<noteq> None \<or>
         map_of (st_receipts (en_state en)) (cmd_id c) \<noteq> None then
        bindE (resolve_receipt (en_state en) c) (\<lambda>e.
        Inr (en, \<lparr>sr_event = e, sr_duplicate = True\<rparr>))
      else
        bindE (propose (en_state en) c) (\<lambda>proposed.
        bindE (apply_committed en proposed) (\<lambda>en'.
        Inr (en', \<lparr>sr_event = proposed, sr_duplicate = False\<rparr>))))"

fun retain_events ::
  "u64 \<Rightarrow> (string, EventReceipt) smap \<Rightarrow> (string \<times> string) list \<Rightarrow> (string, string) smap \<Rightarrow>
   ((string \<times> string) list \<times> (string, string) smap) Result"
where
  "retain_events anchor receipts [] commands = Inr ([], commands)"
| "retain_events anchor receipts (entry # rest) commands =
     bindE (parse_event (snd entry)) (\<lambda>e.
       if anchor \<le> ev_index e then
         bindE (retain_events anchor receipts rest commands) (\<lambda>(kept, commands').
         Inr (entry # kept, commands'))
       else
         retain_events anchor receipts rest
           (if ev_type e = NoOp \<or> map_of receipts (ev_command e) \<noteq> None
            then sm_erase (ev_command e) commands else commands))"

definition retain_state_history_from :: "ChoreographyState \<Rightarrow> u64 \<Rightarrow> ChoreographyState Result" where
  "retain_state_history_from s anchor =
     bindE (retain_events anchor (st_receipts s) (st_applied_events s) (st_applied_commands s))
       (\<lambda>(kept, commands).
       Inr (s\<lparr>st_applied_events := kept,
              st_applied_commands := filter (\<lambda>entry.
                \<not> (case map_of (st_receipts s) (fst entry) of
                     None \<Rightarrow> False | Some r \<Rightarrow> rc_index r < anchor)) commands\<rparr>))"

definition prepare_committed :: "Engine \<Rightarrow> Event list \<Rightarrow> Engine Result" where
  "prepare_committed en batch =
     foldE (\<lambda>staged e.
       bindE (apply_against (en_state staged) e Contiguous (Some (en_state en))) (\<lambda>s.
       Inr \<lparr>en_state = s, en_events = en_events staged @ [e]\<rparr>))
       \<lparr>en_state = domain_copy (en_state en), en_events = []\<rparr> batch"

definition publish_committed :: "Engine \<Rightarrow> Engine \<Rightarrow> Engine" where
  "publish_committed en staged =
     \<lparr>en_state = (en_state staged)
        \<lparr>st_applied_events := sm_merge (st_applied_events (en_state en)) (st_applied_events (en_state staged)),
         st_applied_commands := sm_merge (st_applied_commands (en_state en)) (st_applied_commands (en_state staged)),
         st_receipts := sm_merge (st_receipts (en_state en)) (st_receipts (en_state staged))\<rparr>,
      en_events = en_events en @ en_events staged\<rparr>"

definition retain_history_from :: "Engine \<Rightarrow> u64 \<Rightarrow> Engine Result" where
  "retain_history_from en anchor =
     bindE (retain_state_history_from (en_state en) anchor) (\<lambda>s.
     Inr \<lparr>en_state = s,
           en_events = drop (lower_bound (\<lambda>e. ev_index e < anchor) (en_events en) 0 (length (en_events en)))
             (en_events en)\<rparr>)"

definition restore :: "ChoreographyState \<Rightarrow> Event list \<Rightarrow> Engine" where
  "restore s history =
     \<lparr>en_state = s\<lparr>st_receipts := fold (\<lambda>e m.
        if ev_type e \<noteq> NoOp then sm_assign (ev_command e) (receipt_from_event e) m else m)
        history (st_receipts s)\<rparr>,
      en_events = history\<rparr>"

definition replay_through :: "Engine \<Rightarrow> int option \<Rightarrow> u64 option \<Rightarrow> ChoreographyState Result" where
  "replay_through en through_tick through_index =
     (if (case en_events en of [] \<Rightarrow> st_last_applied (en_state en) \<noteq> 0 | e # _ \<Rightarrow> ev_index e \<noteq> 1) then
        fail StoreError ''historical replay is unavailable after compaction''
      else replay (en_events en) through_tick through_index)"

end
