(* ===== verification/Machine_Domain.thy ===== *)
theory Machine_Domain
  imports Machine
begin

text \<open>
  The invariant of the choreography state and that applying an event keeps it: the stage and the
  limits are valid, every dancer stands on the stage, no two active dancers share a mark when
  overlap is forbidden, formations name known dancers in sorted order, and every cue comes no
  earlier than the cue it depends on.
\<close>

lemma in_smap: "sm_ok m \<Longrightarrow> (k, v) \<in> set m \<longleftrightarrow> map_of m k = Some v"
  by (simp add: sm_ok_distinct)

section \<open>The parts of the invariant\<close>

definition header_ok :: "ChoreographyState \<Rightarrow> bool" where
  "header_ok s \<longleftrightarrow>
     (st_created s \<longleftrightarrow> st_id s \<noteq> None) \<and> (st_created s \<longleftrightarrow> st_stage s \<noteq> None) \<and>
     pred_option id_ok (st_id s) \<and> pred_option bounds_ok (st_stage s) \<and>
     0 \<le> st_max_travel s \<and> st_max_travel s < 2 ^ 31 \<and> st_term s \<noteq> 0"

definition dancers_ok :: "ChoreographyState \<Rightarrow> bool" where
  "dancers_ok s \<longleftrightarrow> sm_ok (st_dancers s) \<and>
     (\<forall>i d. map_of (st_dancers s) i = Some d \<longrightarrow>
        id_ok i \<and> position_ok (ds_position d) \<and> (\<exists>b. st_stage s = Some b \<and> contains b (ds_position d)))"

definition marks_distinct :: "ChoreographyState \<Rightarrow> bool" where
  "marks_distinct s \<longleftrightarrow> (st_overlap s = Forbidden \<longrightarrow>
     (\<forall>i j d d'. map_of (st_dancers s) i = Some d \<longrightarrow> map_of (st_dancers s) j = Some d' \<longrightarrow>
        ds_active d \<longrightarrow> ds_active d' \<longrightarrow> ds_position d = ds_position d' \<longrightarrow> i = j))"

definition formations_ok :: "ChoreographyState \<Rightarrow> bool" where
  "formations_ok s \<longleftrightarrow> sm_ok (st_formations s) \<and>
     (\<forall>f x. map_of (st_formations s) f = Some x \<longrightarrow>
        id_ok f \<and> fs_members x \<noteq> [] \<and> sorted (fs_members x) \<and> distinct (fs_members x) \<and>
        (\<forall>m\<in>set (fs_members x). map_of (st_dancers s) m \<noteq> None))"

definition cues_ok :: "ChoreographyState \<Rightarrow> bool" where
  "cues_ok s \<longleftrightarrow> sm_ok (st_music s) \<and> sm_ok (st_lighting s) \<and>
     (\<forall>c. map_of (st_music s) c = None \<or> map_of (st_lighting s) c = None) \<and>
     (\<forall>c q. find_cue s c = Some q \<longrightarrow> id_ok c \<and> tick_ok (cs_tick q) \<and>
        (\<forall>d. cs_depends q = Some d \<longrightarrow>
           id_ok d \<and> (\<exists>p. find_cue s d = Some p \<and> cs_tick p \<le> cs_tick q)))"

definition domain_ok :: "ChoreographyState \<Rightarrow> bool" where
  "domain_ok s \<longleftrightarrow>
     header_ok s \<and> dancers_ok s \<and> marks_distinct s \<and> formations_ok s \<and> cues_ok s"

lemmas domain_defs = domain_ok_def header_ok_def dancers_ok_def marks_distinct_def formations_ok_def
  cues_ok_def find_cue_def

lemma initial_domain_ok: "domain_ok initial_state"
  by (simp add: domain_defs initial_state_def)

text \<open>What an update of one field leaves alone.\<close>

lemma header_frame [simp]:
  "header_ok (s\<lparr>st_dancers := d\<rparr>) = header_ok s" "header_ok (s\<lparr>st_formations := f\<rparr>) = header_ok s"
  "header_ok (s\<lparr>st_music := m\<rparr>) = header_ok s" "header_ok (s\<lparr>st_lighting := m\<rparr>) = header_ok s"
  by (simp_all add: header_ok_def)

lemma dancers_frame [simp]:
  "dancers_ok (s\<lparr>st_formations := f\<rparr>) = dancers_ok s" "dancers_ok (s\<lparr>st_music := m\<rparr>) = dancers_ok s"
  "dancers_ok (s\<lparr>st_lighting := m\<rparr>) = dancers_ok s"
  "marks_distinct (s\<lparr>st_formations := f\<rparr>) = marks_distinct s"
  "marks_distinct (s\<lparr>st_music := m\<rparr>) = marks_distinct s"
  "marks_distinct (s\<lparr>st_lighting := m\<rparr>) = marks_distinct s"
  by (simp_all add: dancers_ok_def marks_distinct_def)

lemma formations_frame [simp]:
  "formations_ok (s\<lparr>st_music := m\<rparr>) = formations_ok s" "formations_ok (s\<lparr>st_lighting := m\<rparr>) = formations_ok s"
  by (simp_all add: formations_ok_def)

lemma find_cue_cong:
  "st_music s' = st_music s \<Longrightarrow> st_lighting s' = st_lighting s \<Longrightarrow> find_cue s' = find_cue s"
  by (simp add: find_cue_def fun_eq_iff split: option.split)

lemma cues_ok_cong:
  "st_music s' = st_music s \<Longrightarrow> st_lighting s' = st_lighting s \<Longrightarrow> cues_ok s' = cues_ok s"
  using find_cue_cong [of s' s] by (simp add: cues_ok_def)

lemma cues_frame [simp]:
  "cues_ok (s\<lparr>st_dancers := d\<rparr>) = cues_ok s" "cues_ok (s\<lparr>st_formations := f\<rparr>) = cues_ok s"
  by (rule cues_ok_cong; simp)+

lemma formations_ok_dancers:
  assumes "formations_ok s" "\<And>i. map_of (st_dancers s) i \<noteq> None \<Longrightarrow> map_of d i \<noteq> None"
  shows "formations_ok (s\<lparr>st_dancers := d\<rparr>)"
  using assms by (simp add: formations_ok_def)

lemma domain_parts:
  assumes "domain_ok s"
  shows "header_ok s" "dancers_ok s" "marks_distinct s" "formations_ok s" "cues_ok s" "sm_ok (st_dancers s)"
  using assms by (simp_all add: domain_ok_def dancers_ok_def)

section \<open>Each operation keeps it\<close>

lemma require_created_Inr: "require_created s = Inr b \<longleftrightarrow> st_created s \<and> st_id s \<noteq> None \<and> st_stage s = Some b"
  by (auto simp: require_created_def)

lemma mark_occupied_iff:
  assumes "sm_ok (st_dancers s)"
  shows "mark_occupied s p except \<longleftrightarrow>
    (\<exists>i d. map_of (st_dancers s) i = Some d \<and> ds_active d \<and> except \<noteq> Some i \<and> ds_position d = p)"
  unfolding mark_occupied_def list_ex_iff using in_smap [OF assms] by fastforce

lemma apply_create_ok:
  assumes "domain_ok s" "apply_create s e c b ov t = Inr s'" "id_ok c" "bounds_ok b" "in_i32 t" "ev_term e \<noteq> 0"
  shows "domain_ok s'"
proof -
  have s': "s' = s\<lparr>st_created := True, st_id := Some c, st_stage := Some b, st_overlap := ov,
      st_max_travel := t, st_term := ev_term e\<rparr>" and "\<not> st_created s" "0 \<le> t"
    using assms(2) by (auto simp: apply_create_def split: if_splits)
  then have "st_stage s = None" using domain_parts(1) [OF assms(1)] by (simp add: header_ok_def)
  then have none: "map_of (st_dancers s) i = None" for i
    using domain_parts(2) [OF assms(1)] by (cases "map_of (st_dancers s) i") (auto simp: dancers_ok_def)
  have "header_ok s'" using assms \<open>0 \<le> t\<close> by (simp add: s' header_ok_def)
  moreover have "dancers_ok s'" "marks_distinct s'"
    using none domain_parts(6) [OF assms(1)] by (simp_all add: s' dancers_ok_def marks_distinct_def)
  moreover have "formations_ok s'" "cues_ok s'"
    using domain_parts(4, 5) [OF assms(1)] cues_ok_cong [of s' s] by (simp_all add: s' formations_ok_def)
  ultimately show ?thesis by (simp add: domain_ok_def)
qed

lemma apply_add_ok:
  assumes "domain_ok s" "apply_add s i p = Inr s'" "id_ok i" "position_ok p"
  shows "domain_ok s'"
proof -
  note parts = domain_parts [OF assms(1)]
  obtain b where b: "st_stage s = Some b" "contains b p"
    and fresh: "map_of (st_dancers s) i = None"
    and free: "st_overlap s = Forbidden \<Longrightarrow> \<not> mark_occupied s p None"
    and s': "s' = s\<lparr>st_dancers := sm_insert i \<lparr>ds_position = p, ds_active = True\<rparr> (st_dancers s)\<rparr>"
    using assms(2)
    by (auto simp: apply_add_def bindE_Inr_iff require_created_Inr find_dancer_def split: if_splits)
  have unoccupied: "ds_position d \<noteq> p"
    if "st_overlap s = Forbidden" "map_of (st_dancers s) j = Some d" "ds_active d" for j d
    using free [OF that(1)] that(2, 3) by (auto simp: mark_occupied_iff [OF parts(6)])
  have "dancers_ok s'" using parts(2) assms(3, 4) b by (simp add: s' dancers_ok_def)
  moreover have "formations_ok s'"
    unfolding s' by (rule formations_ok_dancers [OF parts(4)]) simp
  moreover have "marks_distinct s'"
    using parts(3) unoccupied by (auto simp: s' marks_distinct_def fresh)
  ultimately show ?thesis using parts by (simp add: domain_ok_def s')
qed

lemma apply_remove_ok:
  assumes "domain_ok s" "apply_remove s i = Inr s'"
  shows "domain_ok s'"
proof -
  note parts = domain_parts [OF assms(1)]
  have s': "s' = s\<lparr>st_dancers := sm_modify i (\<lambda>x. x\<lparr>ds_active := False\<rparr>) (st_dancers s)\<rparr>"
    using assms(2)
    by (auto simp: apply_remove_def bindE_Inr_iff find_dancer_def split: option.splits if_splits)
  have "dancers_ok s'" using parts(2) by (auto simp: s' dancers_ok_def map_of_sm_modify)
  moreover have "formations_ok s'"
    unfolding s' by (rule formations_ok_dancers [OF parts(4)]) (auto simp: map_of_sm_modify)
  moreover have "marks_distinct s'"
    using parts(3) by (auto simp: s' marks_distinct_def map_of_sm_modify)
  ultimately show ?thesis using parts by (simp add: domain_ok_def s')
qed

lemma apply_move_ok:
  assumes "domain_ok s" "apply_move s i p = Inr s'" "position_ok p"
  shows "domain_ok s'"
proof -
  note parts = domain_parts [OF assms(1)]
  obtain b where b: "st_stage s = Some b" "contains b p"
    and free: "st_overlap s = Forbidden \<Longrightarrow> \<not> mark_occupied s p (Some i)"
    and s': "s' = s\<lparr>st_dancers := sm_modify i (\<lambda>x. x\<lparr>ds_position := p\<rparr>) (st_dancers s)\<rparr>"
    using assms(2)
    by (auto simp: apply_move_def bindE_Inr_iff require_created_Inr find_dancer_def
        split: option.splits if_splits)
  have unoccupied: "ds_position x \<noteq> p"
    if "st_overlap s = Forbidden" "map_of (st_dancers s) j = Some x" "ds_active x" "j \<noteq> i" for j x
    using free [OF that(1)] that(2-) by (auto simp: mark_occupied_iff [OF parts(6)])
  have "dancers_ok s'" using parts(2) assms(3) b by (auto simp: s' dancers_ok_def map_of_sm_modify)
  moreover have "formations_ok s'"
    unfolding s' by (rule formations_ok_dancers [OF parts(4)]) (auto simp: map_of_sm_modify)
  moreover have "marks_distinct s'"
    using parts(3) unoccupied by (fastforce simp: s' marks_distinct_def map_of_sm_modify split: if_splits)
  ultimately show ?thesis using parts by (simp add: domain_ok_def s')
qed

lemma validated_members:
  "foldE (validate_member s) u ms = Inr () \<Longrightarrow>
   \<forall>m\<in>set ms. \<exists>d. map_of (st_dancers s) m = Some d \<and> ds_active d"
  by (induction ms arbitrary: u)
    (auto simp: bindE_Inr_iff validate_member_def find_dancer_def split: option.splits if_splits)

lemma apply_formation_ok:
  assumes "domain_ok s" "apply_formation s t f ms = Inr s'" "id_ok f"
  shows "domain_ok s'"
proof -
  have valid: "validate_formation_members s (unique_sorted ms) = Inr ()"
    and s': "s' = s\<lparr>st_formations := sm_assign f \<lparr>fs_members = unique_sorted ms\<rparr> (st_formations s)\<rparr>"
    using assms(2) by (auto simp: apply_formation_def bindE_Inr_iff Let_def split: if_splits)
  have "unique_sorted ms \<noteq> []" "\<forall>m\<in>set (unique_sorted ms). map_of (st_dancers s) m \<noteq> None"
    using valid validated_members [of s "()" "unique_sorted ms"]
    by (auto simp: validate_formation_members_def split: if_splits)
  moreover have "sorted (unique_sorted ms)" "distinct (unique_sorted ms)"
    by (simp_all add: unique_sorted_def)
  ultimately have "formations_ok s'"
    using domain_parts(4) [OF assms(1)] assms(3) by (simp add: s' formations_ok_def)
  then show ?thesis using assms(1) by (simp add: domain_ok_def s')
qed

lemma validated_dependency:
  assumes "validate_cue_dependency s dep t = Inr ()" "dep = Some d"
  shows "\<exists>p. find_cue s d = Some p \<and> cs_tick p \<le> t"
  using assms by (auto simp: validate_cue_dependency_def split: option.splits if_splits)

text \<open>The two kinds of cue share one argument: a new cue under an unused name.\<close>

lemma new_cue_ok:
  assumes "domain_ok s" and unused: "find_cue s c = None"
    and dep: "validate_cue_dependency s dep t = Inr ()" "pred_option id_ok dep" "id_ok c" "tick_ok t"
    and new: "\<And>x. find_cue s' x = (if x = c then Some \<lparr>cs_tick = t, cs_depends = dep\<rparr> else find_cue s x)"
    and shape: "sm_ok (st_music s')" "sm_ok (st_lighting s')"
      "\<forall>x. map_of (st_music s') x = None \<or> map_of (st_lighting s') x = None"
  shows "cues_ok s'"
proof -
  have old: "id_ok x \<and> tick_ok (cs_tick q) \<and> (\<forall>d. cs_depends q = Some d \<longrightarrow>
      id_ok d \<and> (\<exists>p. find_cue s d = Some p \<and> cs_tick p \<le> cs_tick q))"
    if "find_cue s x = Some q" for x q
    using assms(1) that by (auto simp: domain_ok_def cues_ok_def)
  have keep: "find_cue s' d = Some p" if "find_cue s d = Some p" for d p
    using that unused by (auto simp: new)
  show ?thesis
    unfolding cues_ok_def
  proof (intro conjI allI impI)
    fix x q assume q: "find_cue s' x = Some q"
    show "id_ok x" "tick_ok (cs_tick q)" using q old dep by (auto simp: new split: if_splits)
    fix d assume d: "cs_depends q = Some d"
    show "id_ok d" using q d old dep(2) by (auto simp: new split: if_splits)
    show "\<exists>p. find_cue s' d = Some p \<and> cs_tick p \<le> cs_tick q"
    proof (cases "x = c")
      case True
      then have "dep = Some d" "cs_tick q = t" using q d by (auto simp: new)
      with validated_dependency [OF dep(1)] keep show ?thesis by blast
    next
      case False
      then have "find_cue s x = Some q" using q by (simp add: new)
      with old d keep show ?thesis by blast
    qed
  qed (use shape in auto)
qed

lemma apply_cue_Inr:
  "apply_cue s cues c dep t = Inr cues' \<longleftrightarrow>
     find_cue s c = None \<and> validate_cue_dependency s dep t = Inr () \<and>
     cues' = sm_insert c \<lparr>cs_tick = t, cs_depends = dep\<rparr> cues"
  by (auto simp: apply_cue_def bindE_Inr_iff)

lemma apply_music_ok:
  assumes "domain_ok s" "apply_music s c dep t = Inr s'" "id_ok c" "pred_option id_ok dep" "tick_ok t"
  shows "domain_ok s'"
proof -
  have unused: "find_cue s c = None" and dep: "validate_cue_dependency s dep t = Inr ()"
    and s': "s' = s\<lparr>st_music := sm_insert c \<lparr>cs_tick = t, cs_depends = dep\<rparr> (st_music s)\<rparr>"
    using assms(2) by (auto simp: apply_music_def bindE_Inr_iff apply_cue_Inr)
  have "cues_ok s'"
    by (rule new_cue_ok [OF assms(1) unused dep assms(4, 3, 5)])
      (use assms(1) unused in \<open>auto simp: s' domain_ok_def cues_ok_def find_cue_def split: option.splits\<close>)
  then show ?thesis using assms(1) by (simp add: s' domain_ok_def)
qed

lemma apply_lighting_ok:
  assumes "domain_ok s" "apply_lighting s c dep t = Inr s'" "id_ok c" "pred_option id_ok dep" "tick_ok t"
  shows "domain_ok s'"
proof -
  have unused: "find_cue s c = None" and dep: "validate_cue_dependency s dep t = Inr ()"
    and s': "s' = s\<lparr>st_lighting := sm_insert c \<lparr>cs_tick = t, cs_depends = dep\<rparr> (st_lighting s)\<rparr>"
    using assms(2) by (auto simp: apply_lighting_def bindE_Inr_iff apply_cue_Inr)
  have "cues_ok s'"
    by (rule new_cue_ok [OF assms(1) unused dep assms(4, 3, 5)])
      (use assms(1) unused in \<open>auto simp: s' domain_ok_def cues_ok_def find_cue_def split: option.splits\<close>)
  then show ?thesis using assms(1) by (simp add: s' domain_ok_def)
qed

lemma apply_payload_ok:
  assumes "domain_ok s" "event_ok e" "apply_payload s e = Inr s'"
  shows "domain_ok s'"
  using assms
  by (auto simp: apply_payload_def event_ok_def
      intro: apply_create_ok [OF assms(1)] apply_add_ok [OF assms(1)] apply_remove_ok [OF assms(1)]
        apply_move_ok [OF assms(1)] apply_formation_ok [OF assms(1)] apply_music_ok [OF assms(1)]
        apply_lighting_ok [OF assms(1)]
      split: EventType.splits Payload.splits)

end
