(* ===== verification/Machine_Log.thy ===== *)
theory Machine_Log
  imports Machine_Domain
begin

text \<open>
  The retry logs of the state machine: what applying an event does to them, the invariant that
  ties them to the applied events, and the properties that rest on it - replay yields valid
  states, applying twice changes nothing, and an accepted proposal applies.
\<close>

section \<open>Applying an event, case by case\<close>

lemma domain_copy_simps [simp]:
  "st_created (domain_copy s) = st_created s" "st_id (domain_copy s) = st_id s"
  "st_stage (domain_copy s) = st_stage s" "st_overlap (domain_copy s) = st_overlap s"
  "st_max_travel (domain_copy s) = st_max_travel s" "st_last_applied (domain_copy s) = st_last_applied s"
  "st_term (domain_copy s) = st_term s" "st_dancers (domain_copy s) = st_dancers s"
  "st_formations (domain_copy s) = st_formations s" "st_music (domain_copy s) = st_music s"
  "st_lighting (domain_copy s) = st_lighting s" "st_applied_events (domain_copy s) = []"
  "st_applied_commands (domain_copy s) = []" "st_receipts (domain_copy s) = []"
  "domain_copy (domain_copy s) = domain_copy s"
  by (simp_all add: domain_copy_def)

lemma record_event_simps [simp]:
  "st_created (record_event s c e) = st_created c" "st_id (record_event s c e) = st_id c"
  "st_stage (record_event s c e) = st_stage c" "st_overlap (record_event s c e) = st_overlap c"
  "st_max_travel (record_event s c e) = st_max_travel c" "st_last_applied (record_event s c e) = ev_index e"
  "st_term (record_event s c e) = ev_term e" "st_dancers (record_event s c e) = st_dancers c"
  "st_formations (record_event s c e) = st_formations c" "st_music (record_event s c e) = st_music c"
  "st_lighting (record_event s c e) = st_lighting c"
  "st_applied_events (record_event s c e) = sm_insert (ev_id e) (canonical_event e) (st_applied_events s)"
  "st_applied_commands (record_event s c e) = sm_insert (ev_command e) (ev_id e) (st_applied_commands s)"
  "st_receipts (record_event s c e) =
     (if ev_type e \<noteq> NoOp then sm_assign (ev_command e) (receipt_from_event e) (st_receipts s)
      else st_receipts s)"
  by (simp_all add: record_event_def)

definition index_fits :: "IndexRule \<Rightarrow> ChoreographyState \<Rightarrow> Event \<Rightarrow> bool" where
  "index_fits rule s e \<longleftrightarrow>
     (case rule of Contiguous \<Rightarrow> ev_index e = next_log_index (st_last_applied s)
                 | Monotonic \<Rightarrow> st_last_applied s < ev_index e)"

lemma require_schema_Inr [simp]: "require_schema v = Inr u \<longleftrightarrow> v = kCurrentSchemaVersion"
  by (simp add: require_schema_def)

lemma apply_against_Inr:
  "apply_against s e rule baseline = Inr s' \<longleftrightarrow>
     ev_schema e = kCurrentSchemaVersion \<and>
     (existing_event s e = Inr True \<and> s' = s \<or>
      existing_event s e = Inr False \<and>
      (\<exists>b. baseline = Some b \<and> existing_event b e = Inr True) \<and> s' = s \<or>
      existing_event s e = Inr False \<and>
      (\<forall>b. baseline = Some b \<longrightarrow> existing_event b e = Inr False) \<and> index_fits rule s e \<and>
      (\<exists>candidate. apply_payload (domain_copy s) e = Inr candidate \<and> s' = record_event s candidate e))"
  by (cases rule; cases baseline)
    (auto simp: apply_against_def bindE_Inr_iff index_fits_def split: if_splits)

lemma apply_state_Inr:
  "apply_state s e rule = Inr s' \<longleftrightarrow>
     ev_schema e = kCurrentSchemaVersion \<and>
     (existing_event s e = Inr True \<and> s' = s \<or>
      existing_event s e = Inr False \<and> index_fits rule s e \<and>
      (\<exists>candidate. apply_payload (domain_copy s) e = Inr candidate \<and> s' = record_event s candidate e))"
  by (simp add: apply_state_def apply_against_Inr)

lemma existing_event_False:
  "existing_event s e = Inr False \<longleftrightarrow>
     map_of (st_applied_events s) (ev_id e) = None \<and> map_of (st_receipts s) (ev_command e) = None \<and>
     map_of (st_applied_commands s) (ev_command e) = None"
  by (auto simp: existing_event_def split: option.splits if_splits)

lemma existing_event_True:
  "existing_event s e = Inr True \<longleftrightarrow>
     map_of (st_applied_events s) (ev_id e) = Some (canonical_event e) \<or>
     map_of (st_applied_events s) (ev_id e) = None \<and>
     ev_type e \<noteq> NoOp \<and> map_of (st_receipts s) (ev_command e) = Some (receipt_from_event e)"
proof -
  have cmd: "command_from_event e = None \<longleftrightarrow> ev_type e = NoOp"
    by (cases "ev_type e") (simp_all add: command_from_event_def)
  have receipt: "r = receipt_from_event e \<longleftrightarrow>
      rc_index r = ev_index e \<and> rc_term r = ev_term e \<and> rc_fingerprint r = command_fingerprint c"
    if "command_from_event e = Some c" for r c
    using that by (cases r) (auto simp: receipt_from_event_def)
  show ?thesis
    using cmd
    by (auto simp: existing_event_def receipt split: option.splits if_splits)
qed

text \<open>Only the domain fields and a non-zero term matter to the domain invariant.\<close>

lemma domain_ok_cong:
  assumes "st_created s' = st_created s" "st_id s' = st_id s" "st_stage s' = st_stage s"
    "st_overlap s' = st_overlap s" "st_max_travel s' = st_max_travel s" "st_dancers s' = st_dancers s"
    "st_formations s' = st_formations s" "st_music s' = st_music s" "st_lighting s' = st_lighting s"
    "st_term s' \<noteq> 0" "domain_ok s"
  shows "domain_ok s'"
proof -
  note parts = domain_parts [OF assms(11)]
  have "header_ok s'" using parts(1) assms(1-5, 10) by (auto simp: header_ok_def)
  moreover have "dancers_ok s'" "marks_distinct s'" "formations_ok s'"
    using parts(2, 3, 4) assms by (simp_all add: dancers_ok_def marks_distinct_def formations_ok_def)
  moreover have "cues_ok s'" using cues_ok_cong [of s' s] parts(5) assms by simp
  ultimately show ?thesis by (simp add: domain_ok_def)
qed

lemma domain_ok_term: "domain_ok s \<Longrightarrow> st_term s \<noteq> 0"
  by (auto simp: domain_ok_def header_ok_def)

lemma domain_ok_copy: "domain_ok s \<Longrightarrow> domain_ok (domain_copy s)"
  by (rule domain_ok_cong [of _ s]) (simp_all add: domain_ok_term)

lemma apply_against_ok:
  assumes "domain_ok s" "event_ok e" "apply_against s e rule b = Inr s'"
  shows "domain_ok s'"
proof -
  have "domain_ok (record_event s c e)" if "apply_payload (domain_copy s) e = Inr c" for c
    by (rule domain_ok_cong [of _ c])
      (use apply_payload_ok [OF domain_ok_copy [OF assms(1)] assms(2) that] assms(2) in
        \<open>simp_all add: event_ok_def\<close>)
  then show ?thesis using assms by (auto simp: apply_against_Inr)
qed

section \<open>Replay\<close>

lemma replay_ok:
  assumes "list_all event_ok events" "replay events tick index = Inr s"
  shows "domain_ok s"
proof -
  have "domain_ok s'" if "foldE f s0 es = Inr s'" "domain_ok s0" "list_all event_ok es"
    and f: "\<And>s e t. f s e = Inr t \<Longrightarrow> domain_ok s \<Longrightarrow> event_ok e \<Longrightarrow> domain_ok t"
    for f s0 es s'
    using that(1-3) by (induction es arbitrary: s0) (auto simp: bindE_Inr_iff intro: f)
  then show ?thesis
    using assms initial_domain_ok
    unfolding replay_def by (force split: if_splits simp: apply_state_def intro: apply_against_ok)
qed


text \<open>A sample log: a choreography, two dancers, a move and a formation.\<close>

definition plain_event :: "string \<Rightarrow> EventType \<Rightarrow> u64 \<Rightarrow> Payload \<Rightarrow> Event" where
  "plain_event i t n p =
     \<lparr>ev_id = i, ev_command = i, ev_choreography = ''swan'', ev_type = t, ev_schema = 1, ev_tick = 480,
      ev_index = n, ev_term = 1, ev_payload = p\<rparr>"

definition sample_log :: "Event list" where
  "sample_log =
     [plain_event ''c1'' ChoreographyCreated 1
        (CreateChoreographyPayload ''swan'' \<lparr>width = 9000, depth = 6000\<rparr> Forbidden 2000),
      plain_event ''c2'' DancerAdded 2 (DancerPayload ''alice'' \<lparr>pos_x = 1000, pos_y = 1000\<rparr>),
      plain_event ''c3'' DancerAdded 3 (DancerPayload ''bob'' \<lparr>pos_x = 2000, pos_y = 1000\<rparr>),
      plain_event ''c4'' DancerMoved 4 (DancerPayload ''alice'' \<lparr>pos_x = 1000, pos_y = 2500\<rparr>),
      plain_event ''c5'' FormationDefined 5 (FormationPayload ''front'' [''bob'', ''alice'', ''bob''])]"

lemmas eval_ids = id_ok_def is_allowed_id_char_def is_alnum_def is_digit_def

lemma sample_log_ok: "list_all event_ok sample_log"
  by (simp add: sample_log_def plain_event_def event_ok_def eval_ids tick_ok_def position_ok_def bounds_ok_def)

lemmas eval_machine = apply_state_def apply_against_def require_schema_def existing_event_def
  apply_payload_def domain_copy_def initial_state_def apply_create_def apply_add_def apply_move_def
  apply_remove_def apply_formation_def require_created_def find_dancer_def mark_occupied_def
  validate_formation_members_def validate_member_def next_log_index_def contains_def
  squared_distance_mm_def travel_within_limit_def wrap_i64_def unique_sorted_def unique_sorted_list_def
  sm_insert_def sm_modify_def record_event_def Let_def

lemma sample_replay: "\<exists>s. replay sample_log None None = Inr s"
  by (simp add: replay_def sample_log_def plain_event_def through_def eval_machine)

section \<open>Idempotence and proposals\<close>

lemma existing_after_record:
  "existing_event s e = Inr False \<Longrightarrow> existing_event (record_event s c e) e = Inr True"
  by (simp add: existing_event_True existing_event_False)

lemma propose_Inr:
  "propose s c = Inr e \<longleftrightarrow>
     cmd_schema c = kCurrentSchemaVersion \<and>
     map_of (st_applied_commands s) (cmd_id c) = None \<and> map_of (st_receipts s) (cmd_id c) = None \<and>
     (if cmd_type c = CreateChoreography then \<not> st_created s
      else is_ok (require_created s) \<and> cmd_choreography c = the (st_id s)) \<and>
     id_ok (cmd_id c) \<and>
     e = \<lparr>ev_id = cmd_id c, ev_command = cmd_id c, ev_choreography = cmd_choreography c,
          ev_type = event_type_for (cmd_type c), ev_schema = cmd_schema c, ev_tick = cmd_tick c,
          ev_index = next_log_index (st_last_applied s), ev_term = st_term s,
          ev_payload = normalize_payload (cmd_payload c)\<rparr> \<and>
     is_ok (apply_payload (domain_copy s) e)"
proof -
  have fresh: "existing_event (domain_copy s) x = Inr False" for x
    by (simp add: existing_event_False)
  have "(\<exists>t. apply_state (domain_copy s) x Contiguous = Inr t) \<longleftrightarrow>
      ev_schema x = kCurrentSchemaVersion \<and> ev_index x = next_log_index (st_last_applied s) \<and>
      is_ok (apply_payload (domain_copy s) x)" for x
    by (auto simp: apply_state_Inr fresh index_fits_def is_ok_iff)
  then show ?thesis
    by (auto simp: propose_def bindE_Inr_iff make_event_def parse_id_Inr_iff is_ok_iff split: if_splits)
qed

text \<open>
  (C25) Every state that replay reaches satisfies the choreography invariant: dancers stand on the
  stage, no two active dancers share a mark when overlap is forbidden, formations list known
  dancers in sorted order, and every cue fires no earlier than the cue it depends on. This holds
  for full replay and for replay cut off at a tick or at a log index.
\<close>

theorem replayed_states_valid:
  assumes "list_all event_ok events" "replay events through_tick through_index = Inr s"
  shows "header_ok s \<and> dancers_ok s \<and> marks_distinct s \<and> formations_ok s \<and> cues_ok s"
  using replay_ok [OF assms] by (simp add: domain_ok_def)

theorem replayed_states_valid_witness:
  "\<exists>s. replay sample_log None None = Inr s \<and> dancers_ok s \<and> marks_distinct s \<and> formations_ok s"
  using replayed_states_valid [OF sample_log_ok] sample_replay by blast

text \<open>
  Applying an event is idempotent: once an event has been applied, applying it again under
  either index rule succeeds and changes nothing.
\<close>

theorem apply_idempotent:
  assumes "apply_state s e rule = Inr s'"
  shows "apply_state s' e rule' = Inr s'"
  using assms existing_after_record by (auto simp: apply_state_Inr)

theorem apply_idempotent_witness:
  "\<exists>s. apply_state initial_state (hd sample_log) Contiguous = Inr s \<and>
       apply_state s (hd sample_log) Monotonic = Inr s"
proof -
  have "\<exists>s. apply_state initial_state (hd sample_log) Contiguous = Inr s"
    by (simp add: sample_log_def plain_event_def eval_machine)
  then show ?thesis using apply_idempotent by blast
qed

lemma proposed_applies:
  assumes "propose s c = Inr e" "map_of (st_applied_events s) (cmd_id c) = None"
  shows "is_ok (apply_state s e Contiguous)"
proof -
  have e: "ev_id e = cmd_id c" "ev_command e = cmd_id c" "ev_schema e = kCurrentSchemaVersion"
    "ev_index e = next_log_index (st_last_applied s)"
    and ok: "is_ok (apply_payload (domain_copy s) e)"
    and new: "map_of (st_applied_commands s) (cmd_id c) = None" "map_of (st_receipts s) (cmd_id c) = None"
    using assms(1) by (auto simp: propose_Inr)
  have "existing_event s e = Inr False" using assms(2) e new by (simp add: existing_event_False)
  then show ?thesis using e ok by (auto simp: is_ok_iff apply_state_Inr index_fits_def)
qed

text \<open>
  A proposal that is accepted can be committed: if \<open>propose\<close> returns an event and no event
  with that id has been applied, then applying the event to the same state succeeds, under the next
  log index and the current term.
\<close>

theorem accepted_proposal_applies:
  assumes "propose s c = Inr e" "map_of (st_applied_events s) (cmd_id c) = None"
  shows "is_ok (apply_state s e Contiguous) \<and> ev_id e = cmd_id c \<and> ev_command e = cmd_id c \<and>
    ev_index e = next_log_index (st_last_applied s) \<and> ev_term e = st_term s"
  using proposed_applies [OF assms] assms(1) by (auto simp: propose_Inr)

definition create_command :: Command where
  "create_command =
     \<lparr>cmd_id = ''c1'', cmd_choreography = ''swan'', cmd_type = CreateChoreography, cmd_schema = 1,
      cmd_tick = 0, cmd_payload = CreateChoreographyPayload ''swan'' \<lparr>width = 9000, depth = 6000\<rparr> Forbidden 2000\<rparr>"

lemma create_proposed: "\<exists>e. propose initial_state create_command = Inr e"
  by (simp add: propose_Inr create_command_def eval_machine normalize_payload_def eval_ids)

theorem accepted_proposal_applies_witness:
  "\<exists>e. propose initial_state create_command = Inr e \<and> is_ok (apply_state initial_state e Contiguous)"
proof -
  obtain e where e: "propose initial_state create_command = Inr e" using create_proposed by blast
  have "map_of (st_applied_events initial_state) (cmd_id create_command) = None"
    by (simp add: initial_state_def)
  from accepted_proposal_applies [OF e this] e show ?thesis by blast
qed

text \<open>The premise on event ids is needed: \<open>propose\<close> looks at command ids only, and a leadership
  marker of the legacy replica has an event id that differs from its command id. A client that
  uses that event id as its command id is accepted by \<open>propose\<close> and rejected by \<open>apply\<close>.\<close>

definition noop_event :: Event where
  "noop_event =
     \<lparr>ev_id = ''noop-n1-2-2'', ev_command = ''noop-2-2'', ev_choreography = ''swan'', ev_type = NoOp,
      ev_schema = 1, ev_tick = 0, ev_index = 2, ev_term = 2, ev_payload = placeholder_payload ''swan''\<rparr>"

definition colliding_command :: Command where
  "colliding_command =
     \<lparr>cmd_id = ''noop-n1-2-2'', cmd_choreography = ''swan'', cmd_type = AddDancer, cmd_schema = 1,
      cmd_tick = 0, cmd_payload = DancerPayload ''alice'' \<lparr>pos_x = 0, pos_y = 0\<rparr>\<rparr>"

lemma canonical_event_differs:
  "ev_type e = NoOp \<Longrightarrow> event_ok e \<Longrightarrow> event_ok e' \<Longrightarrow> ev_type e' \<noteq> NoOp \<Longrightarrow>
   canonical_event e \<noteq> canonical_event e'"
  using event_lines.enc_inject by blast

lemma propose_misses_event_ids:
  "\<exists>s e. replay [hd sample_log, noop_event] None None = Inr s \<and> propose s colliding_command = Inr e \<and>
     apply_state s e Contiguous = fail ConflictingEvent ''event id was reused with different content''"
proof -
  have ok: "event_ok noop_event"
    by (simp add: noop_event_def event_ok_def eval_ids tick_ok_def placeholder_payload_def)
  have ok': "event_ok \<lparr>ev_id = ''noop-n1-2-2'', ev_command = ''noop-n1-2-2'', ev_choreography = ''swan'',
      ev_type = DancerAdded, ev_schema = 1, ev_tick = 0, ev_index = 3, ev_term = 2,
      ev_payload = DancerPayload ''alice'' \<lparr>pos_x = 0, pos_y = 0\<rparr>\<rparr>"
    by (simp add: event_ok_def eval_ids tick_ok_def position_ok_def)
  have diff: "canonical_event noop_event \<noteq> canonical_event \<lparr>ev_id = ''noop-n1-2-2'',
      ev_command = ''noop-n1-2-2'', ev_choreography = ''swan'',
      ev_type = DancerAdded, ev_schema = 1, ev_tick = 0, ev_index = 3, ev_term = 2,
      ev_payload = DancerPayload ''alice'' \<lparr>pos_x = 0, pos_y = 0\<rparr>\<rparr>"
    by (rule canonical_event_differs [OF _ ok ok']) (simp_all add: noop_event_def)
  show ?thesis
    using diff
    by (simp add: replay_def sample_log_def plain_event_def noop_event_def colliding_command_def through_def
        propose_Inr normalize_payload_def eval_machine eval_ids)
qed

end
