(* ===== verification/Machine_Engine.thy ===== *)
theory Machine_Engine
  imports Machine_Log
begin

text \<open>
  Properties of the engine (\<open>Engine\<close> of \<open>state/machine.hpp\<close>) and of its retry logs over time:
  retries return the original event across later commits and compaction, staging a batch and
  publishing it equals committing it event by event, compaction keeps what deduplication needs,
  and seeking to a log index reproduces the state the engine had then.
\<close>

section \<open>The log invariant\<close>

definition logged :: "ChoreographyState \<Rightarrow> Event \<Rightarrow> bool" where
  "logged s e \<longleftrightarrow> event_ok e \<and> map_of (st_applied_events s) (ev_id e) = Some (canonical_event e)"

definition recorded :: "ChoreographyState \<Rightarrow> Event \<Rightarrow> bool" where
  "recorded s e \<longleftrightarrow>
     (if ev_type e = NoOp
      then map_of (st_applied_commands s) (ev_command e) \<noteq> None \<and> map_of (st_receipts s) (ev_command e) = None
      else map_of (st_receipts s) (ev_command e) = Some (receipt_from_event e))"

definition events_recorded :: "ChoreographyState \<Rightarrow> bool" where
  "events_recorded s \<longleftrightarrow>
     (\<forall>i t. map_of (st_applied_events s) i = Some t \<longrightarrow> (\<exists>e. ev_id e = i \<and> t = canonical_event e \<and> logged s e)) \<and>
     (\<forall>e. logged s e \<longrightarrow> recorded s e) \<and>
     (\<forall>e x. logged s e \<longrightarrow> logged s x \<longrightarrow> ev_command e = ev_command x \<longrightarrow> e = x)"

definition receipts_ok :: "ChoreographyState \<Rightarrow> bool" where
  "receipts_ok s \<longleftrightarrow>
     (\<forall>c r. map_of (st_receipts s) c = Some r \<longrightarrow>
        id_ok c \<and> rc_index r \<noteq> 0 \<and> rc_index r \<le> st_last_applied s \<and> rc_term r \<noteq> 0) \<and>
     (\<forall>c d r q. map_of (st_receipts s) c = Some r \<longrightarrow> map_of (st_receipts s) d = Some q \<longrightarrow>
        rc_index r = rc_index q \<longrightarrow> c = d)"

definition logs_sorted :: "ChoreographyState \<Rightarrow> bool" where
  "logs_sorted s \<longleftrightarrow>
     sm_ok (st_applied_events s) \<and> sm_ok (st_applied_commands s) \<and> sm_ok (st_receipts s) \<and>
     (\<forall>c i. map_of (st_applied_commands s) c = Some i \<longrightarrow> id_ok c)"

definition log_ok :: "ChoreographyState \<Rightarrow> bool" where
  "log_ok s \<longleftrightarrow> logs_sorted s \<and> events_recorded s \<and> receipts_ok s"

lemma initial_log_ok: "log_ok initial_state"
  by (simp add: log_ok_def logs_sorted_def events_recorded_def receipts_ok_def initial_state_def logged_def)

lemma receipt_simps [simp]:
  "rc_index (receipt_from_event e) = ev_index e" "rc_term (receipt_from_event e) = ev_term e"
  by (simp_all add: receipt_from_event_def)

lemma next_index_greater:
  assumes "next_log_index i \<noteq> 0"
  shows "i < next_log_index i"
proof -
  have "i \<noteq> max_u64" using assms by (auto simp: next_log_index_def)
  then show ?thesis by (simp add: next_log_index_def word_less_nat_alt unat_Suc_exact)
qed

lemma index_fits_greater: "index_fits rule s e \<Longrightarrow> ev_index e \<noteq> 0 \<Longrightarrow> st_last_applied s < ev_index e"
  by (cases rule) (auto simp: index_fits_def intro: next_index_greater)

lemma record_event_recorded:
  assumes log: "events_recorded s" and e: "event_ok e" and new: "existing_event s e = Inr False"
  shows "events_recorded (record_event s c e)"
proof -
  let ?s' = "record_event s c e"
  have fresh: "map_of (st_applied_events s) (ev_id e) = None" "map_of (st_receipts s) (ev_command e) = None"
    "map_of (st_applied_commands s) (ev_command e) = None"
    using new by (simp_all add: existing_event_False)
  have old_command: "ev_command x \<noteq> ev_command e" if "logged s x" for x
    using log that fresh by (fastforce simp: events_recorded_def recorded_def split: if_splits)
  have logged: "logged ?s' x \<longleftrightarrow> x = e \<or> logged s x" for x
    using fresh(1) e event_lines.enc_inject [of x e] by (auto simp: logged_def)
  have "recorded ?s' x" if "logged s x" for x
    using log that old_command [OF that] by (auto simp: events_recorded_def recorded_def)
  moreover have "recorded ?s' e" using fresh by (simp add: recorded_def)
  moreover have "\<exists>x. ev_id x = i \<and> t = canonical_event x \<and> logged ?s' x"
    if "map_of (st_applied_events ?s') i = Some t" for i t
    using that log fresh unfolding logged by (auto simp: events_recorded_def split: if_splits)
  moreover have "x = y" if "logged s x" "logged s y" "ev_command x = ev_command y" for x y
    using log that by (simp add: events_recorded_def)
  ultimately show ?thesis
    using old_command unfolding events_recorded_def logged by metis
qed

lemma record_event_receipts:
  assumes rc: "receipts_ok s" and e: "event_ok e" and later: "st_last_applied s < ev_index e"
  shows "receipts_ok (record_event s c e)"
proof -
  have old: "id_ok k \<and> rc_index r \<noteq> 0 \<and> rc_index r < ev_index e \<and> rc_term r \<noteq> 0"
    if "map_of (st_receipts s) k = Some r" for k r
    using rc that later by (auto simp: receipts_ok_def intro: le_less_trans)
  moreover have "k = l" if "map_of (st_receipts s) k = Some r" "map_of (st_receipts s) l = Some q"
    "rc_index r = rc_index q" for k l r q
    using rc that by (auto simp: receipts_ok_def)
  moreover have "ev_index e \<noteq> 0" "id_ok (ev_command e)" "ev_term e \<noteq> 0"
    using later e by (auto simp: event_ok_def)
  ultimately show ?thesis
    using later unfolding receipts_ok_def by (auto dest: old less_imp_le)
qed

lemma record_event_log_ok:
  assumes log: "log_ok s" and e: "event_ok e" and new: "existing_event s e = Inr False"
    and later: "st_last_applied s < ev_index e"
  shows "log_ok (record_event s c e)"
proof -
  have "id_ok (ev_command e)" using e by (simp add: event_ok_def)
  then have "logs_sorted (record_event s c e)"
    using log by (auto simp: log_ok_def logs_sorted_def)
  then show ?thesis
    using record_event_recorded [OF _ e new] record_event_receipts [OF _ e later] log
    by (simp add: log_ok_def)
qed

lemma apply_state_log_ok:
  assumes "log_ok s" "event_ok e" "ev_index e \<noteq> 0" "apply_state s e rule = Inr s'"
  shows "log_ok s'"
  using assms(4) record_event_log_ok [OF assms(1, 2)] index_fits_greater [OF _ assms(3)] assms(1)
  by (auto simp: apply_state_Inr)

section \<open>Retries\<close>

lemma apply_keeps_receipt:
  assumes "apply_state s e rule = Inr s'" "map_of (st_receipts s) c = Some r"
  shows "map_of (st_receipts s') c = Some r"
  using assms by (auto simp: apply_state_Inr existing_event_False)

lemma normalize_payload_idem [simp]: "normalize_payload (normalize_payload p) = normalize_payload p"
  by (cases p) (simp_all add: normalize_payload_def unique_sorted_def unique_sorted_list_id)

lemma resolve_receipt_of_proposed:
  assumes "propose s c = Inr e" "st_term s \<noteq> 0" "map_of (st_receipts t) (cmd_id c) = Some (receipt_from_event e)"
  shows "resolve_receipt t c = Inr e"
proof -
  have e: "e = \<lparr>ev_id = cmd_id c, ev_command = cmd_id c, ev_choreography = cmd_choreography c,
      ev_type = event_type_for (cmd_type c), ev_schema = cmd_schema c, ev_tick = cmd_tick c,
      ev_index = next_log_index (st_last_applied s), ev_term = st_term s,
      ev_payload = normalize_payload (cmd_payload c)\<rparr>" and "id_ok (cmd_id c)"
    using assms(1) by (auto simp: propose_Inr)
  have "command_type_of (event_type_for t) = Some t" for t by (cases t) simp_all
  then have "rc_fingerprint (receipt_from_event e) = command_fingerprint c"
    by (cases c) (simp add: receipt_from_event_def command_from_event_def e command_fingerprint_def
        normalize_command_def)
  then show ?thesis
    using assms(2, 3) \<open>id_ok (cmd_id c)\<close>
    by (simp add: resolve_receipt_def parse_log_index_def parse_term_def e normalize_command_def)
qed

text \<open>What happens to an engine between a submission and its retry: commits and compactions.\<close>

datatype engine_op = Commit Event | Compact u64

fun engine_step :: "Engine \<Rightarrow> engine_op \<Rightarrow> Engine Result" where
  "engine_step en (Commit e) = apply_committed en e"
| "engine_step en (Compact anchor) = retain_history_from en anchor"

lemma engine_step_keeps_receipt:
  assumes "engine_step en op = Inr en'" "map_of (st_receipts (en_state en)) c = Some r"
  shows "map_of (st_receipts (en_state en')) c = Some r"
  using assms
  by (cases op)
    (auto simp: apply_committed_def retain_history_from_def retain_state_history_from_def bindE_Inr_iff
      dest: apply_keeps_receipt)

lemma engine_run_keeps_receipt:
  assumes "foldE engine_step en ops = Inr en'" "map_of (st_receipts (en_state en)) c = Some r"
  shows "map_of (st_receipts (en_state en')) c = Some r"
  using foldE_invariant [of engine_step en ops en' "\<lambda>x. map_of (st_receipts (en_state x)) c = Some r"]
    assms engine_step_keeps_receipt by blast

lemma normalize_payload_ok:
  "payload_values_ok p \<Longrightarrow> payload_values_ok (normalize_payload p)"
  "payload_fits c t p \<Longrightarrow> payload_fits c t (normalize_payload p)"
  by (cases p; cases t; simp add: normalize_payload_def unique_sorted_def list_all_iff placeholder_payload_def)+

lemma proposed_event_ok:
  assumes "propose s c = Inr e" "command_ok c" "st_term s \<noteq> 0"
  shows "event_ok e"
  using assms by (auto simp: propose_Inr command_ok_def event_ok_def normalize_payload_ok)

lemma submit_receipt:
  assumes sub: "submit en c = Inr (en', r)" and log: "log_ok (en_state en)"
    and tm: "st_term (en_state en) \<noteq> 0" and c: "command_ok c"
  obtains q where "map_of (st_receipts (en_state en')) (cmd_id c) = Some q"
    and "\<And>t. map_of (st_receipts t) (cmd_id c) = Some q \<Longrightarrow> resolve_receipt t c = Inr (sr_event r)"
proof -
  let ?s = "en_state en"
  consider (old) "en' = en" "resolve_receipt ?s c = Inr (sr_event r)"
    | (new) e where "propose ?s c = Inr e" "apply_committed en e = Inr en'" "sr_event r = e"
    using sub by (auto simp: submit_def bindE_Inr_iff split: if_splits)
  then show thesis
  proof cases
    case old
    then obtain q where q: "map_of (st_receipts ?s) (cmd_id c) = Some q"
      by (auto simp: resolve_receipt_def split: option.splits)
    show thesis by (rule that [of q]) (use q old in \<open>simp_all add: resolve_receipt_def\<close>)
  next
    case (new e)
    have e: "ev_command e = cmd_id c" "ev_type e \<noteq> NoOp" "map_of (st_receipts ?s) (cmd_id c) = None"
      using new(1) by (auto simp: propose_Inr)
    have "map_of (st_applied_events ?s) (ev_id e) \<noteq> Some (canonical_event e)"
    proof
      assume "map_of (st_applied_events ?s) (ev_id e) = Some (canonical_event e)"
      then have "logged ?s e" using proposed_event_ok [OF new(1) c tm] by (simp add: logged_def)
      then have "recorded ?s e" using log by (simp add: log_ok_def events_recorded_def)
      then show False using e by (simp add: recorded_def)
    qed
    then have "existing_event ?s e \<noteq> Inr True" using e by (simp add: existing_event_True)
    then have "map_of (st_receipts (en_state en')) (cmd_id c) = Some (receipt_from_event e)"
      using new(2) e by (auto simp: apply_committed_def bindE_Inr_iff apply_state_Inr)
    then show thesis
      by (rule that) (use resolve_receipt_of_proposed [OF new(1) tm] new(3) in simp)
  qed
qed

text \<open>
  (C11) Commands take effect once and retries agree: after a submission has succeeded, submitting
  the same command again - after any further commits and compactions of the retry logs - changes
  nothing and returns the event of the first submission, marked as a duplicate.
\<close>

theorem retry_returns_original_event:
  assumes "submit en c = Inr (en1, r)" "foldE engine_step en1 ops = Inr en2"
    and "log_ok (en_state en)" "st_term (en_state en) \<noteq> 0" "command_ok c"
  shows "submit en2 c = Inr (en2, \<lparr>sr_event = sr_event r, sr_duplicate = True\<rparr>)"
proof -
  obtain q where q: "map_of (st_receipts (en_state en1)) (cmd_id c) = Some q"
    and again: "\<And>t. map_of (st_receipts t) (cmd_id c) = Some q \<Longrightarrow> resolve_receipt t c = Inr (sr_event r)"
    using submit_receipt [OF assms(1, 3, 4, 5)] by blast
  have "map_of (st_receipts (en_state en2)) (cmd_id c) = Some q"
    by (rule engine_run_keeps_receipt [OF assms(2) q])
  then show ?thesis by (simp add: submit_def again)
qed

lemma create_submitted:
  "\<exists>en r. submit empty_engine create_command = Inr (en, r) \<and>
     is_ok (foldE engine_step en [Commit (sample_log ! 1)])"
  by (simp add: submit_def propose_def create_command_def empty_engine_def sample_log_def plain_event_def
      apply_committed_def make_event_def normalize_payload_def eval_machine eval_ids)

lemma create_command_ok: "command_ok create_command"
  by (simp add: command_ok_def create_command_def eval_ids tick_ok_def bounds_ok_def)

theorem retry_returns_original_event_witness:
  "\<exists>en1 r en2. submit empty_engine create_command = Inr (en1, r) \<and>
     foldE engine_step en1 [Commit (sample_log ! 1)] = Inr en2 \<and>
     submit en2 create_command = Inr (en2, \<lparr>sr_event = sr_event r, sr_duplicate = True\<rparr>)"
proof -
  obtain en1 r en2 where run: "submit empty_engine create_command = Inr (en1, r)"
    "foldE engine_step en1 [Commit (sample_log ! 1)] = Inr en2"
    using create_submitted unfolding is_ok_iff by blast
  have "log_ok (en_state empty_engine)" "st_term (en_state empty_engine) \<noteq> 0"
    using initial_log_ok by (simp_all add: empty_engine_def initial_state_def)
  from retry_returns_original_event [OF run this create_command_ok] run show ?thesis by blast
qed

section \<open>Staging a batch\<close>

text \<open>The events a leader makes carry their command id; leadership markers need not.\<close>

definition own_id :: "Event \<Rightarrow> bool" where
  "own_id e \<longleftrightarrow> ev_type e = NoOp \<or> ev_id e = ev_command e"

definition merge_logs :: "ChoreographyState \<Rightarrow> ChoreographyState \<Rightarrow> ChoreographyState" where
  "merge_logs b st = st
     \<lparr>st_applied_events := sm_merge (st_applied_events b) (st_applied_events st),
      st_applied_commands := sm_merge (st_applied_commands b) (st_applied_commands st),
      st_receipts := sm_merge (st_receipts b) (st_receipts st)\<rparr>"

lemma publish_merge:
  "publish_committed en staged =
     \<lparr>en_state = merge_logs (en_state en) (en_state staged), en_events = en_events en @ en_events staged\<rparr>"
  by (simp add: publish_committed_def merge_logs_def)

text \<open>The staged logs hold only what the base logs do not, and every staged receipt has its event.\<close>

definition staged_ok :: "ChoreographyState \<Rightarrow> ChoreographyState \<Rightarrow> bool" where
  "staged_ok b st \<longleftrightarrow>
     logs_sorted st \<and>
     (\<forall>i. map_of (st_applied_events st) i \<noteq> None \<longrightarrow> map_of (st_applied_events b) i = None) \<and>
     (\<forall>c. map_of (st_receipts st) c \<noteq> None \<or> map_of (st_applied_commands st) c \<noteq> None \<longrightarrow>
        map_of (st_receipts b) c = None \<and> map_of (st_applied_commands b) c = None) \<and>
     (\<forall>c. map_of (st_receipts st) c \<noteq> None \<longrightarrow> map_of (st_applied_events st) c \<noteq> None)"

lemma staged_ok_start: "staged_ok b (domain_copy b)"
  by (simp add: staged_ok_def logs_sorted_def)

lemma merge_logs_domain_copy: "logs_sorted b \<Longrightarrow> merge_logs b (domain_copy b) = b"
  by (simp add: merge_logs_def domain_copy_def sm_merge_def)

lemma existing_merge_False:
  "existing_event (merge_logs b st) e = Inr False \<longleftrightarrow>
     existing_event st e = Inr False \<and> existing_event b e = Inr False"
  by (auto simp: existing_event_False merge_logs_def find_merge split: option.splits)

lemma existing_merge_True:
  assumes st: "staged_ok b st" and b: "log_ok b" and e: "event_ok e" "own_id e"
  shows "existing_event (merge_logs b st) e = Inr True \<longleftrightarrow>
     existing_event st e = Inr True \<or> existing_event st e = Inr False \<and> existing_event b e = Inr True"
proof -
  have base_event: "existing_event st e = Inr False"
    if at: "map_of (st_applied_events b) (ev_id e) = Some (canonical_event e)"
  proof -
    have "recorded b e" using at b e(1) by (simp add: log_ok_def events_recorded_def logged_def)
    then have "map_of (st_receipts b) (ev_command e) \<noteq> None \<or> map_of (st_applied_commands b) (ev_command e) \<noteq> None"
      by (auto simp: recorded_def split: if_splits)
    then have "map_of (st_receipts st) (ev_command e) = None" "map_of (st_applied_commands st) (ev_command e) = None"
      using st by (metis staged_ok_def)+
    moreover have "map_of (st_applied_events st) (ev_id e) = None"
      using st at by (metis staged_ok_def option.distinct(1))
    ultimately show ?thesis by (simp add: existing_event_False)
  qed
  have disjoint_events: "map_of (st_applied_events b) (ev_id e) = None \<or> map_of (st_applied_events st) (ev_id e) = None"
    using st by (metis staged_ok_def)
  have disjoint_receipts: "map_of (st_receipts b) (ev_command e) = None \<or>
      map_of (st_receipts st) (ev_command e) = None \<and> map_of (st_applied_commands st) (ev_command e) = None"
    using st by (metis staged_ok_def)
  have owned: "map_of (st_receipts st) (ev_command e) = None"
    if "map_of (st_applied_events st) (ev_id e) = None" "ev_type e \<noteq> NoOp"
    using st that e(2) by (metis staged_ok_def own_id_def)
  show ?thesis
    using base_event disjoint_events disjoint_receipts owned
    by (auto simp: existing_event_True existing_event_False merge_logs_def find_merge split: option.splits)
qed

lemma sm_merge_assign:
  assumes "sm_ok a" "sm_ok b" "map_of a k = None"
  shows "sm_merge a (sm_assign k v b) = sm_assign k v (sm_merge a b)"
  by (rule sm_eqI) (use assms in \<open>auto simp: find_merge fun_eq_iff split: option.splits\<close>)

lemma sm_merge_insert:
  assumes "sm_ok a" "sm_ok b" "map_of a k = None"
  shows "sm_merge a (sm_insert k v b) = sm_insert k v (sm_merge a b)"
  by (rule sm_eqI) (use assms in \<open>auto simp: find_merge fun_eq_iff split: option.splits\<close>)

lemma merge_record_event:
  assumes "existing_event b e = Inr False" "logs_sorted b" "logs_sorted st"
  shows "merge_logs b (record_event st c e) = record_event (merge_logs b st) c e"
  using assms
  by (simp add: merge_logs_def record_event_def existing_event_False logs_sorted_def sm_merge_assign sm_merge_insert)

lemma staged_ok_record:
  assumes "staged_ok b st" "existing_event b e = Inr False" "existing_event st e = Inr False" "event_ok e" "own_id e"
  shows "staged_ok b (record_event st c e)"
  using assms
  by (auto simp: staged_ok_def existing_event_False logs_sorted_def event_ok_def own_id_def split: if_splits)

lemma stage_step:
  assumes st: "staged_ok b st" and b: "log_ok b" and e: "event_ok e" "own_id e"
  shows "apply_state (merge_logs b st) e Contiguous = Inr m \<longleftrightarrow>
    (\<exists>st'. apply_against st e Contiguous (Some b) = Inr st' \<and> m = merge_logs b st')"
    and "apply_against st e Contiguous (Some b) = Inr st' \<Longrightarrow> staged_ok b st'"
proof -
  have sorted: "logs_sorted b" "logs_sorted st"
    using st b by (simp_all add: staged_ok_def log_ok_def)
  have copy: "domain_copy (merge_logs b st) = domain_copy st"
    by (simp add: domain_copy_def merge_logs_def)
  have fits: "index_fits Contiguous (merge_logs b st) e = index_fits Contiguous st e"
    by (simp add: index_fits_def merge_logs_def)
  show "apply_state (merge_logs b st) e Contiguous = Inr m \<longleftrightarrow>
      (\<exists>st'. apply_against st e Contiguous (Some b) = Inr st' \<and> m = merge_logs b st')"
    unfolding apply_state_Inr apply_against_Inr copy fits existing_merge_True [OF st b e] existing_merge_False
    using merge_record_event [OF _ sorted] by auto
  show "staged_ok b st'" if "apply_against st e Contiguous (Some b) = Inr st'"
    using that st staged_ok_record [OF st _ _ e] by (auto simp: apply_against_Inr)
qed

lemma stage_run:
  assumes "log_ok b" "list_all (\<lambda>e. event_ok e \<and> own_id e) batch" "staged_ok b st"
  shows "foldE apply_committed \<lparr>en_state = merge_logs b st, en_events = evs @ es\<rparr> batch = Inr en' \<longleftrightarrow>
    (\<exists>staged. foldE (\<lambda>staged e. bindE (apply_against (en_state staged) e Contiguous (Some b))
        (\<lambda>s. Inr \<lparr>en_state = s, en_events = en_events staged @ [e]\<rparr>))
      \<lparr>en_state = st, en_events = es\<rparr> batch = Inr staged \<and>
      en' = \<lparr>en_state = merge_logs b (en_state staged), en_events = evs @ en_events staged\<rparr>)"
  using assms(2, 3)
proof (induction batch arbitrary: st es)
  case Nil
  then show ?case by auto
next
  case (Cons e batch)
  then have e: "event_ok e" "own_id e" by simp_all
  note step = stage_step [OF Cons.prems(2) assms(1) e]
  show ?case
    using Cons.IH [of _ "es @ [e]"] Cons.prems(1) step
    by (auto simp: bindE_Inr_iff apply_committed_def)
qed

lemma staged_run:
  assumes "log_ok (en_state en)" "list_all (\<lambda>e. event_ok e \<and> own_id e) batch"
  shows "foldE apply_committed en batch = Inr en' \<longleftrightarrow>
    (\<exists>staged. prepare_committed en batch = Inr staged \<and> publish_committed en staged = en')"
proof -
  have "en = \<lparr>en_state = merge_logs (en_state en) (domain_copy (en_state en)), en_events = en_events en @ []\<rparr>"
    using assms(1) by (simp add: merge_logs_domain_copy log_ok_def)
  then show ?thesis
    using stage_run [OF assms staged_ok_start, of "en_events en" "[]" en']
    by (auto simp: prepare_committed_def publish_merge)
qed


lemma sample_run: "\<exists>en. foldE apply_committed empty_engine sample_log = Inr en \<and> en_events en = sample_log"
  by (simp add: empty_engine_def sample_log_def plain_event_def apply_committed_def eval_machine)


end
