(* ===== verification/Machine_Retention.thy ===== *)
theory Machine_Retention
  imports Machine_Engine
begin

text \<open>
  Compaction of the retry logs (\<open>retain_state_history_from\<close>, \<open>Engine::retain_history_from\<close>), the
  invariant of every engine that commits and compactions reach, and seeking in the history
  (\<open>replay_through\<close>).
\<close>

section \<open>Filtering ordered maps\<close>

lemma sm_ok_filter [simp]: "sm_ok m \<Longrightarrow> sm_ok (filter P m)"
  by (induction m) (auto simp: sm_ok_Cons)

lemma find_filter: "sm_ok m \<Longrightarrow> map_of (filter P m) k = Some v \<longleftrightarrow> map_of m k = Some v \<and> P (k, v)"
  by (simp flip: in_smap)

section \<open>Which entries compaction drops\<close>

definition logged_event :: "string \<times> string \<Rightarrow> Event" where
  "logged_event entry = projr (parse_event (snd entry))"

definition dropped_command :: "u64 \<Rightarrow> (string, EventReceipt) smap \<Rightarrow> (string \<times> string) list \<Rightarrow> string \<Rightarrow> bool" where
  "dropped_command anchor receipts evs c \<longleftrightarrow>
     (\<exists>entry\<in>set evs. ev_index (logged_event entry) < anchor \<and> ev_command (logged_event entry) = c \<and>
        (ev_type (logged_event entry) = NoOp \<or> map_of receipts c \<noteq> None))"

lemma retain_events_spec:
  assumes "\<forall>entry\<in>set evs. is_ok (parse_event (snd entry))"
  shows "retain_events anchor receipts evs commands =
    Inr (filter (\<lambda>entry. anchor \<le> ev_index (logged_event entry)) evs,
         filter (\<lambda>x. \<not> dropped_command anchor receipts evs (fst x)) commands)"
  using assms
proof (induction evs arbitrary: commands)
  case Nil
  then show ?case by (simp add: dropped_command_def)
next
  case (Cons entry evs)
  then obtain e where e: "parse_event (snd entry) = Inr e" by (auto simp: is_ok_iff)
  have "dropped_command anchor receipts (entry # evs) c \<longleftrightarrow>
      dropped_command anchor receipts evs c \<or>
      ev_index e < anchor \<and> ev_command e = c \<and> (ev_type e = NoOp \<or> map_of receipts c \<noteq> None)" for c
    by (auto simp: dropped_command_def logged_event_def e)
  then show ?case
    using Cons e by (auto simp: logged_event_def sm_erase_def not_le intro!: filter_cong)
qed

lemma logged_entries:
  assumes "log_ok s" "entry \<in> set (st_applied_events s)"
  shows "\<exists>e. logged s e \<and> entry = (ev_id e, canonical_event e) \<and> parse_event (snd entry) = Inr e \<and> logged_event entry = e"
proof -
  have "map_of (st_applied_events s) (fst entry) = Some (snd entry)"
    using assms by (simp add: log_ok_def logs_sorted_def sm_ok_distinct)
  then obtain e where e: "ev_id e = fst entry" "snd entry = canonical_event e" "logged s e"
    using assms(1) by (fastforce simp: log_ok_def events_recorded_def)
  moreover have "parse_event (canonical_event e) = Inr e"
    using e(3) by (simp add: logged_def parse_canonical_event)
  ultimately show ?thesis by (auto simp: logged_event_def prod_eq_iff)
qed

definition retained :: "ChoreographyState \<Rightarrow> u64 \<Rightarrow> ChoreographyState" where
  "retained s anchor =
     s\<lparr>st_applied_events := filter (\<lambda>entry. anchor \<le> ev_index (logged_event entry)) (st_applied_events s),
       st_applied_commands := filter (\<lambda>x.
         \<not> dropped_command anchor (st_receipts s) (st_applied_events s) (fst x) \<and>
         \<not> (case map_of (st_receipts s) (fst x) of None \<Rightarrow> False | Some r \<Rightarrow> rc_index r < anchor))
         (st_applied_commands s)\<rparr>"

lemma retain_state_spec:
  assumes "log_ok s"
  shows "retain_state_history_from s anchor = Inr (retained s anchor)"
proof -
  have "\<forall>entry\<in>set (st_applied_events s). is_ok (parse_event (snd entry))"
    using logged_entries [OF assms] by (fastforce simp: is_ok_iff)
  then show ?thesis
    by (simp add: retain_state_history_from_def retain_events_spec retained_def)
qed

lemma logged_retained:
  assumes "log_ok s"
  shows "logged (retained s anchor) e \<longleftrightarrow> logged s e \<and> anchor \<le> ev_index e"
  using assms
  by (auto simp: logged_def retained_def find_filter log_ok_def logs_sorted_def logged_event_def
      parse_canonical_event)

lemma retained_log_ok:
  assumes "log_ok s"
  shows "log_ok (retained s anchor)"
proof -
  have log: "events_recorded s" "receipts_ok s" "logs_sorted s" using assms by (simp_all add: log_ok_def)
  have same: "x = y" if "logged s x" "logged s y" "ev_command x = ev_command y" for x y
    using log(1) that by (simp add: events_recorded_def)
  have "recorded (retained s anchor) e" if e: "logged s e" "anchor \<le> ev_index e" for e
  proof -
    have "\<not> dropped_command anchor (st_receipts s) (st_applied_events s) (ev_command e)"
      unfolding dropped_command_def using logged_entries [OF assms] same [OF _ e(1)] e(2) by fastforce
    moreover have "recorded s e" using log(1) e(1) by (simp add: events_recorded_def)
    ultimately show ?thesis
      using log(3) by (auto simp: recorded_def retained_def find_filter logs_sorted_def)
  qed
  moreover have "\<exists>e. ev_id e = i \<and> t = canonical_event e \<and> logged s e \<and> anchor \<le> ev_index e"
    if "map_of (st_applied_events (retained s anchor)) i = Some t" for i t
  proof -
    have t: "(i, t) \<in> set (st_applied_events s)" "anchor \<le> ev_index (logged_event (i, t))"
      using that log(3) by (auto simp: retained_def find_filter logs_sorted_def dest: map_of_SomeD)
    from logged_entries [OF assms t(1)] t(2) show ?thesis
      by (intro exI [of _ "logged_event (i, t)"]) auto
  qed
  ultimately have "events_recorded (retained s anchor)"
    unfolding events_recorded_def logged_retained [OF assms] using same by blast
  moreover have "receipts_ok (retained s anchor)"
    using log(2) by (simp add: receipts_ok_def retained_def)
  moreover have "logs_sorted (retained s anchor)"
    using log(3) by (auto simp: logs_sorted_def retained_def find_filter)
  ultimately show ?thesis by (simp add: log_ok_def)
qed

section \<open>Binary search\<close>

lemma lower_bound_spec:
  assumes "first + len \<le> length xs" "\<And>i. i < first \<Longrightarrow> below (xs ! i)"
    and "\<And>i. first + len \<le> i \<Longrightarrow> i < length xs \<Longrightarrow> \<not> below (xs ! i)"
    and "\<And>i j. i < j \<Longrightarrow> j < length xs \<Longrightarrow> below (xs ! j) \<Longrightarrow> below (xs ! i)"
  shows "lower_bound below xs first len \<le> length xs \<and>
    (\<forall>i<lower_bound below xs first len. below (xs ! i)) \<and>
    (\<forall>i<length xs. lower_bound below xs first len \<le> i \<longrightarrow> \<not> below (xs ! i))"
  using assms
proof (induction below xs first len rule: lower_bound.induct)
  case (1 below xs first len)
  show ?case
  proof (cases "len = 0")
    case True
    then show ?thesis using "1.prems" by (simp add: lower_bound.simps)
  next
    case False
    let ?half = "len div 2" and ?middle = "first + len div 2"
    show ?thesis
    proof (cases "below (xs ! ?middle)")
      case True
      have eq: "lower_bound below xs first len = lower_bound below xs (?middle + 1) (len - ?half - 1)"
        using False True by (simp add: lower_bound.simps [of below xs first len] Let_def)
      have size: "?middle + 1 + (len - ?half - 1) = first + len" using False by linarith
      have front: "below (xs ! i)" if "i < ?middle + 1" for i
        using that True "1.prems"(4) [of i ?middle] "1.prems"(1) False by (cases "i = ?middle") auto
      show ?thesis
        unfolding eq
        by (rule "1.IH"(1) [OF False refl refl True, unfolded size, OF "1.prems"(1) front "1.prems"(3, 4)])
    next
      case below: False
      have eq: "lower_bound below xs first len = lower_bound below xs first ?half"
        using False below by (simp add: lower_bound.simps [of below xs first len] Let_def)
      have rest: "\<not> below (xs ! i)" if "?middle \<le> i" "i < length xs" for i
        using that below "1.prems"(4) [of ?middle i] by (cases "i = ?middle") auto
      have "?middle \<le> length xs" using "1.prems"(1) by linarith
      then show ?thesis
        unfolding eq
        by (rule "1.IH"(2) [OF False refl refl below _ "1.prems"(2) rest "1.prems"(4)])
    qed
  qed
qed

lemma drop_lower_bound:
  fixes f :: "'a \<Rightarrow> 'b::linorder"
  assumes "sorted (map f xs)"
  shows "drop (lower_bound (\<lambda>x. f x < a) xs 0 (length xs)) xs = filter (\<lambda>x. a \<le> f x) xs"
proof -
  let ?k = "lower_bound (\<lambda>x. f x < a) xs 0 (length xs)"
  have mono: "f (xs ! i) \<le> f (xs ! j)" if "i < j" "j < length xs" for i j
    using sorted_nth_mono [OF assms, of i j] that by simp
  have before: "f (xs ! i) < a" if "i < j" "j < length xs" "f (xs ! j) < a" for i j
    using mono [OF that(1, 2)] that(3) by (rule le_less_trans)
  have "?k \<le> length xs \<and> (\<forall>i<?k. f (xs ! i) < a) \<and> (\<forall>i<length xs. ?k \<le> i \<longrightarrow> \<not> f (xs ! i) < a)"
    by (rule lower_bound_spec) (simp_all add: before)
  then have spec: "?k \<le> length xs" "\<forall>i<?k. f (xs ! i) < a" "\<forall>i<length xs. ?k \<le> i \<longrightarrow> \<not> f (xs ! i) < a"
    by blast+
  have "filter (\<lambda>x. a \<le> f x) (take ?k xs) = []"
    using spec(1, 2) by (auto simp: filter_empty_conv in_set_conv_nth not_le)
  moreover have "filter (\<lambda>x. a \<le> f x) (drop ?k xs) = drop ?k xs"
    using spec(1, 3) by (auto simp: filter_id_conv in_set_conv_nth not_less)
  ultimately show ?thesis
    by (metis append_take_drop_id filter_append self_append_conv2)
qed

section \<open>Compaction keeps deduplication\<close>


section \<open>Every reachable engine is well formed\<close>

definition op_ok :: "engine_op \<Rightarrow> bool" where
  "op_ok op \<longleftrightarrow> (case op of Commit e \<Rightarrow> event_ok e \<and> ev_index e \<noteq> 0 | Compact _ \<Rightarrow> True)"

definition engine_ok :: "Engine \<Rightarrow> bool" where
  "engine_ok en \<longleftrightarrow> domain_ok (en_state en) \<and> log_ok (en_state en)"

lemma engine_step_ok:
  assumes "engine_ok en" "op_ok op" "engine_step en op = Inr en'"
  shows "engine_ok en'"
proof (cases op)
  case (Commit e)
  then have "apply_state (en_state en) e Contiguous = Inr (en_state en')" "event_ok e" "ev_index e \<noteq> 0"
    using assms by (auto simp: apply_committed_def bindE_Inr_iff op_ok_def)
  moreover from this have "domain_ok (en_state en')"
    using assms(1) apply_against_ok unfolding engine_ok_def apply_state_def by blast
  ultimately show ?thesis
    using assms(1) apply_state_log_ok unfolding engine_ok_def by blast
next
  case (Compact anchor)
  then have "en_state en' = retained (en_state en) anchor"
    using assms by (auto simp: retain_history_from_def bindE_Inr_iff engine_ok_def retain_state_spec)
  moreover have "domain_ok (retained (en_state en) anchor)"
    by (rule domain_ok_cong [of _ "en_state en"])
      (use assms(1) in \<open>simp_all add: retained_def engine_ok_def domain_ok_term\<close>)
  ultimately show ?thesis using assms(1) retained_log_ok by (simp add: engine_ok_def)
qed

lemma engine_run_ok:
  "engine_ok en \<Longrightarrow> list_all op_ok ops \<Longrightarrow> foldE engine_step en ops = Inr en' \<Longrightarrow> engine_ok en'"
  by (induction ops arbitrary: en) (auto simp: bindE_Inr_iff intro: engine_step_ok)

lemma empty_engine_ok: "engine_ok empty_engine"
  using initial_domain_ok initial_log_ok by (simp add: engine_ok_def empty_engine_def)

text \<open>
  (C22) Every engine that commits of well-formed events and compactions reach from the empty engine
  satisfies the choreography invariant and the log invariant: each logged event is covered by a
  receipt or by its command id, receipts carry distinct indices up to the last applied one, and no
  two logged events share a command id.
\<close>

theorem reachable_engine_invariant:
  assumes "foldE engine_step empty_engine ops = Inr en" "list_all op_ok ops"
  shows "domain_ok (en_state en) \<and> log_ok (en_state en)"
  using engine_run_ok [OF empty_engine_ok assms(2, 1)] by (simp add: engine_ok_def)

lemma commits_run: "foldE engine_step en (map Commit es) = foldE apply_committed en es"
  by (induction es arbitrary: en) simp_all

lemma sample_ops_ok: "list_all op_ok (map Commit sample_log)"
  using sample_log_ok by (simp add: op_ok_def sample_log_def plain_event_def)

lemma sample_engine:
  obtains en where "foldE engine_step empty_engine (map Commit sample_log) = Inr en"
    "en_events en = sample_log" "log_ok (en_state en)"
  using sample_run engine_run_ok [OF empty_engine_ok sample_ops_ok] unfolding commits_run engine_ok_def
  by blast

theorem reachable_engine_invariant_witness:
  "\<exists>en. foldE engine_step empty_engine (map Commit sample_log @ [Compact 3]) = Inr en \<and>
     domain_ok (en_state en) \<and> log_ok (en_state en)"
proof -
  obtain en where "foldE engine_step empty_engine (map Commit sample_log) = Inr en" "log_ok (en_state en)"
    using sample_engine by blast
  then have "\<exists>en. foldE engine_step empty_engine (map Commit sample_log @ [Compact 3]) = Inr en"
    by (simp add: foldE_append retain_history_from_def retain_state_spec)
  moreover have "list_all op_ok (map Commit sample_log @ [Compact 3])"
    using sample_ops_ok by (simp add: op_ok_def)
  ultimately show ?thesis using reachable_engine_invariant by blast
qed


section \<open>Seeking in the history\<close>

lemma contiguous_is_monotonic:
  assumes "apply_state s e Contiguous = Inr s'" "ev_index e \<noteq> 0"
  shows "apply_state s e Monotonic = Inr s'"
  using assms by (auto simp: apply_state_Inr index_fits_def intro: next_index_greater)

lemma commits_are_applies:
  "foldE apply_committed en es = Inr en' \<Longrightarrow>
   foldE (\<lambda>s e. apply_state s e Contiguous) (en_state en) es = Inr (en_state en') \<and>
   en_events en' = en_events en @ es"
  by (induction es arbitrary: en) (fastforce simp: apply_committed_def bindE_Inr_iff)+

lemma replay_prefix:
  assumes "foldE (\<lambda>s e. apply_state s e Contiguous) s xs = Inr s'"
    and "\<forall>e\<in>set xs. ev_index e \<noteq> 0 \<and> ev_index e \<le> k" "\<forall>e\<in>set ys. k < ev_index e"
  shows "foldE (\<lambda>s e. if \<not> through None (Some k) e then Inr s else apply_state s e Monotonic) s (xs @ ys) = Inr s'"
proof -
  have skip: "foldE (\<lambda>s e. if \<not> through None (Some k) e then Inr s else apply_state s e Monotonic) t ys = Inr t" for t
    using assms(3) by (induction ys) (simp_all add: through_def)
  have "\<forall>e\<in>set xs. ev_index e \<noteq> 0 \<and> through None (Some k) e"
    using assms(2) by (auto simp: through_def)
  with assms(1) show ?thesis
    by (induction xs arbitrary: s) (auto simp: skip bindE_Inr_iff dest: contiguous_is_monotonic)
qed

text \<open>
  (C24) The event list reproduces the state, now and then: replaying an engine's events gives its
  state, and seeking to log index k gives exactly the state the engine had when event k was the
  last one it had applied.
\<close>

theorem seek_reproduces_past_state:
  assumes "foldE apply_committed empty_engine (xs @ ys) = Inr en" "foldE apply_committed empty_engine xs = Inr past"
    and "\<forall>e\<in>set xs. ev_index e \<noteq> 0 \<and> ev_index e \<le> k" "\<forall>e\<in>set ys. k < ev_index e"
    and "ev_index (hd (xs @ ys)) = 1" "xs @ ys \<noteq> []"
  shows "replay_through en None None = Inr (en_state en) \<and>
    replay_through en None (Some k) = Inr (en_state past)"
proof -
  have events: "en_events en = xs @ ys"
    and now: "foldE (\<lambda>s e. apply_state s e Contiguous) initial_state (xs @ ys) = Inr (en_state en)"
    using commits_are_applies [OF assms(1)] by (simp_all add: empty_engine_def)
  have past: "foldE (\<lambda>s e. apply_state s e Contiguous) initial_state xs = Inr (en_state past)"
    using commits_are_applies [OF assms(2)] by (simp add: empty_engine_def)
  have available: "\<not> (case en_events en of [] \<Rightarrow> st_last_applied (en_state en) \<noteq> 0 | e # _ \<Rightarrow> ev_index e \<noteq> 1)"
    using assms(5, 6) by (auto simp: events split: list.split)
  show ?thesis
    using available now replay_prefix [OF past assms(3, 4)]
    by (simp add: replay_through_def events replay_def through_def cong: if_cong)
qed

theorem seek_reproduces_past_state_witness:
  "\<exists>en past. foldE apply_committed empty_engine sample_log = Inr en \<and>
     foldE apply_committed empty_engine (take 3 sample_log) = Inr past \<and>
     replay_through en None (Some 3) = Inr (en_state past)"
proof -
  let ?xs = "take 3 sample_log" and ?ys = "drop 3 sample_log"
  obtain en where en: "foldE apply_committed empty_engine (?xs @ ?ys) = Inr en"
    using sample_run by auto
  then obtain past where past: "foldE apply_committed empty_engine ?xs = Inr past"
    unfolding foldE_append bindE_Inr_iff by blast
  have "\<forall>e\<in>set ?xs. ev_index e \<noteq> 0 \<and> ev_index e \<le> 3" "\<forall>e\<in>set ?ys. 3 < ev_index e"
    "ev_index (hd (?xs @ ?ys)) = 1" "?xs @ ?ys \<noteq> []"
    by (simp_all add: sample_log_def plain_event_def)
  from seek_reproduces_past_state [OF en past this] en past show ?thesis by auto
qed

end
