(* ===== verification/Snapshot_Text.thy ===== *)
theory Snapshot_Text
  imports Machine_Retention
begin

unbundle bit_operations_syntax

text \<open>
  The text forms of a choreography state (\<open>state/machine.cpp\<close>): the canonical text and its hash, the
  snapshot payload and its parser \<open>restore_state\<close>, with the fingerprints of receipts in base 64.
  Formatted input from an \<open>std::istringstream\<close> is modelled with its fail and end-of-file bits.
\<close>

section \<open>Formatted input\<close>

record istream =
  is_rest :: string
  is_fail :: bool
  is_eof :: bool

definition open_stream :: "string \<Rightarrow> istream" where
  "open_stream s = \<lparr>is_rest = s, is_fail = False, is_eof = False\<rparr>"

definition read_word :: "istream \<Rightarrow> string \<times> istream" where
  "read_word st =
     (if is_fail st \<or> is_eof st then ([], st\<lparr>is_fail := True\<rparr>)
      else let r = dropWhile is_space (is_rest st) in
        if r = [] then ([], \<lparr>is_rest = [], is_fail = True, is_eof = True\<rparr>)
        else let rest = dropWhile (\<lambda>c. \<not> is_space c) r in
          (takeWhile (\<lambda>c. \<not> is_space c) r, \<lparr>is_rest = rest, is_fail = False, is_eof = (rest = [])\<rparr>))"

definition split_sign :: "string \<Rightarrow> bool \<times> string" where
  "split_sign s =
     (case s of
        c # r \<Rightarrow> if c = CHR ''-'' then (True, r) else if c = CHR ''+'' then (False, r) else (False, s)
      | [] \<Rightarrow> (False, []))"

definition read_signed :: "int \<Rightarrow> int \<Rightarrow> istream \<Rightarrow> int \<times> istream" where
  "read_signed lo hi st =
     (if is_fail st \<or> is_eof st then (0, st\<lparr>is_fail := True\<rparr>)
      else let r = dropWhile is_space (is_rest st) in
        if r = [] then (0, \<lparr>is_rest = [], is_fail = True, is_eof = True\<rparr>)
        else let (neg, t) = split_sign r; ds = takeWhile is_digit t; rest = dropWhile is_digit t;
                 i = (if neg then - int (read_nat ds) else int (read_nat ds)) in
          if ds = [] then (0, \<lparr>is_rest = rest, is_fail = True, is_eof = (rest = [])\<rparr>)
          else if i < lo then (lo, \<lparr>is_rest = rest, is_fail = True, is_eof = (rest = [])\<rparr>)
          else if hi < i then (hi, \<lparr>is_rest = rest, is_fail = True, is_eof = (rest = [])\<rparr>)
          else (i, \<lparr>is_rest = rest, is_fail = False, is_eof = (rest = [])\<rparr>))"

definition read_i32 :: "istream \<Rightarrow> int \<times> istream" where
  "read_i32 = read_signed (- (2 ^ 31)) (2 ^ 31 - 1)"

definition read_i64 :: "istream \<Rightarrow> int \<times> istream" where
  "read_i64 = read_signed (- (2 ^ 63)) (2 ^ 63 - 1)"

definition read_unsigned :: "nat \<Rightarrow> istream \<Rightarrow> nat \<times> istream" where
  "read_unsigned w st =
     (if is_fail st \<or> is_eof st then (0, st\<lparr>is_fail := True\<rparr>)
      else let r = dropWhile is_space (is_rest st) in
        if r = [] then (0, \<lparr>is_rest = [], is_fail = True, is_eof = True\<rparr>)
        else let (neg, t) = split_sign r; ds = takeWhile is_digit t; rest = dropWhile is_digit t;
                 n = read_nat ds in
          if ds = [] then (0, \<lparr>is_rest = rest, is_fail = True, is_eof = (rest = [])\<rparr>)
          else if 2 ^ w \<le> n then (2 ^ w - 1, \<lparr>is_rest = rest, is_fail = True, is_eof = (rest = [])\<rparr>)
          else (if neg then (2 ^ w - n) mod 2 ^ w else n,
                \<lparr>is_rest = rest, is_fail = False, is_eof = (rest = [])\<rparr>))"

definition read_u64 :: "istream \<Rightarrow> u64 \<times> istream" where
  "read_u64 st = (let (n, st') = read_unsigned 64 st in (of_nat n, st'))"

lemma read_word_shorter:
  "read_word st = (w, st') \<Longrightarrow> \<not> is_fail st' \<Longrightarrow> length (is_rest st') < length (is_rest st)"
proof -
  assume read: "read_word st = (w, st')" "\<not> is_fail st'"
  let ?r = "dropWhile is_space (is_rest st)"
  have "?r \<noteq> []" and st': "is_rest st' = dropWhile (\<lambda>c. \<not> is_space c) ?r"
    using read by (auto simp: read_word_def Let_def split: if_splits)
  then have "\<not> is_space (hd ?r)" using hd_dropWhile by blast
  then have "length (dropWhile (\<lambda>c. \<not> is_space c) ?r) < length ?r"
    using \<open>?r \<noteq> []\<close> by (cases ?r) (simp_all add: le_imp_less_Suc length_dropWhile_le)
  then show ?thesis
    using length_dropWhile_le [of is_space "is_rest st"] by (simp add: st')
qed

text \<open>The loop \<open>while (fields >> member)\<close>.\<close>

function read_words :: "istream \<Rightarrow> string list \<times> istream" where
  "read_words st =
     (let (w, st') = read_word st in
      if is_fail st' then ([], st') else let (ws, st'') = read_words st' in (w # ws, st''))"
  by pat_completeness auto
termination
  by (relation "measure (\<lambda>st. length (is_rest st))") (auto dest: sym intro: read_word_shorter)

declare read_words.simps [simp del]

section \<open>Fingerprints in base 64\<close>

abbreviation kBase64 :: string where
  "kBase64 \<equiv> ''ABCDEFGHIJKLMNOPQRSTUVWXYZabcdefghijklmnopqrstuvwxyz0123456789-_''"

fun encode_digits :: "nat \<Rightarrow> u64 \<Rightarrow> string" where
  "encode_digits 0 v = []"
| "encode_digits (Suc n) v = encode_digits n (drop_bit 6 v) @ [kBase64 ! unat (v AND 63)]"

definition encode_fingerprint :: "u64 \<Rightarrow> string" where
  "encode_fingerprint v = encode_digits 11 v"

fun position_in :: "'a \<Rightarrow> 'a list \<Rightarrow> nat" where
  "position_in x [] = 0"
| "position_in x (y # ys) = (if x = y then 0 else Suc (position_in x ys))"

definition decode_digit :: "u64 \<Rightarrow> nat \<times> char \<Rightarrow> u64 Result" where
  "decode_digit v ic =
     (let found = position_in (snd ic) kBase64 in
      if found = length kBase64 then fail StoreError ''receipt fingerprint alphabet is invalid''
      else if fst ic = 0 \<and> 15 < found then fail StoreError ''receipt fingerprint overflows 64 bits''
      else Inr (push_bit 6 v OR of_nat found))"

definition decode_fingerprint :: "string \<Rightarrow> u64 Result" where
  "decode_fingerprint src =
     (if length src \<noteq> 11 then fail StoreError ''receipt fingerprint length is invalid''
      else foldE decode_digit 0 (List.enumerate 0 src))"

section \<open>The canonical text and its hash\<close>

abbreviation newline :: string where "newline \<equiv> [CHR 0x0A]"

definition text_of :: "string option \<Rightarrow> string \<Rightarrow> string" where
  "text_of x none = (case x of None \<Rightarrow> none | Some v \<Rightarrow> v)"

definition dancer_text :: "string \<times> DancerState \<Rightarrow> string" where
  "dancer_text x =
     ''dancer='' @ fst x @ '':'' @ show_int (pos_x (ds_position (snd x))) @ '','' @
     show_int (pos_y (ds_position (snd x))) @ '':'' @
     (if ds_active (snd x) then ''active'' else ''inactive'') @ newline"

definition formation_text :: "string \<times> FormationState \<Rightarrow> string" where
  "formation_text x = ''formation='' @ fst x @ '':'' @ write_members (fs_members (snd x)) @ newline"

definition cue_text :: "string \<Rightarrow> string \<times> CueState \<Rightarrow> string" where
  "cue_text key x =
     key @ ''='' @ fst x @ '':'' @ show_int (cs_tick (snd x)) @ '':'' @ text_of (cs_depends (snd x)) [] @ newline"

definition canonical_state :: "ChoreographyState \<Rightarrow> string" where
  "canonical_state s =
     ''schema='' @ show_u16 kCurrentSchemaVersion @ newline @
     ''created='' @ (if st_created s then ''true'' else ''false'') @ newline @
     ''choreography='' @ text_of (st_id s) [] @ newline @
     (case st_stage s of
        Some b \<Rightarrow> ''stage='' @ show_int (width b) @ ''x'' @ show_int (depth b) @ newline
      | None \<Rightarrow> ''stage='' @ newline) @
     ''overlap='' @ overlap_policy_name (st_overlap s) @ newline @
     ''max_travel_mm='' @ show_int (st_max_travel s) @ newline @
     ''last_applied='' @ show_u64 (st_last_applied s) @ newline @
     ''term='' @ show_u64 (st_term s) @ newline @
     concat (map dancer_text (st_dancers s)) @ concat (map formation_text (st_formations s)) @
     concat (map (cue_text ''music'') (st_music s)) @ concat (map (cue_text ''light'') (st_lighting s))"

definition hex_digit :: "u64 \<Rightarrow> char" where
  "hex_digit v = ''0123456789abcdef'' ! unat (v AND 15)"

fun hex_digits :: "nat \<Rightarrow> u64 \<Rightarrow> string" where
  "hex_digits 0 v = []"
| "hex_digits (Suc n) v = hex_digits n (drop_bit 4 v) @ [hex_digit v]"

definition state_hash :: "ChoreographyState \<Rightarrow> string" where
  "state_hash s = hex_digits 16 (fnv1a (canonical_state s))"

section \<open>The snapshot payload\<close>

definition dancer_line :: "string \<times> DancerState \<Rightarrow> string" where
  "dancer_line x =
     ''dancer '' @ fst x @ '' '' @ show_int (pos_x (ds_position (snd x))) @ '' '' @
     show_int (pos_y (ds_position (snd x))) @ '' '' @ (if ds_active (snd x) then ''1'' else ''0'') @ newline"

definition formation_line :: "string \<times> FormationState \<Rightarrow> string" where
  "formation_line x =
     ''formation '' @ fst x @ concat (map (\<lambda>m. '' '' @ m) (fs_members (snd x))) @ newline"

definition cue_line :: "string \<Rightarrow> string \<times> CueState \<Rightarrow> string" where
  "cue_line key x =
     key @ '' '' @ fst x @ '' '' @ show_int (cs_tick (snd x)) @ '' '' @ text_of (cs_depends (snd x)) ''-'' @ newline"

fun receipt_lines :: "u64 \<Rightarrow> u64 \<Rightarrow> (string \<times> EventReceipt) list \<Rightarrow> string" where
  "receipt_lines cursor active_term [] = []"
| "receipt_lines cursor active_term ((i, r) # rest) =
     (if rc_index r \<noteq> cursor + 1 then ''at '' @ show_u64 (rc_index r - 1) @ newline else []) @
     (if rc_term r \<noteq> active_term then ''receipt-term '' @ show_u64 (rc_term r) @ newline else []) @
     ''r '' @ i @ '' '' @ encode_fingerprint (rc_fingerprint r) @ newline @
     receipt_lines (rc_index r) (rc_term r) rest"

definition ordered_receipts :: "ChoreographyState \<Rightarrow> (string \<times> EventReceipt) list" where
  "ordered_receipts s = sort_key (\<lambda>x. rc_index (snd x)) (st_receipts s)"

definition is_legacy :: "ChoreographyState \<Rightarrow> string \<times> string \<Rightarrow> bool" where
  "is_legacy s x \<longleftrightarrow> map_of (st_receipts s) (fst x) = None \<and> take 5 (snd x) \<noteq> ''noop-''"

definition snapshot_payload :: "ChoreographyState \<Rightarrow> string" where
  "snapshot_payload s =
     ''snapshot-state 3'' @ newline @
     ''schema '' @ show_u16 kCurrentSchemaVersion @ newline @
     ''created '' @ (if st_created s then ''1'' else ''0'') @ newline @
     ''choreography '' @ text_of (st_id s) ''-'' @ newline @
     (case st_stage s of
        Some b \<Rightarrow> ''stage '' @ show_int (width b) @ '' '' @ show_int (depth b) @ newline
      | None \<Rightarrow> ''stage -'' @ newline) @
     ''overlap '' @ overlap_policy_name (st_overlap s) @ newline @
     ''max_travel '' @ show_int (st_max_travel s) @ newline @
     ''last_applied '' @ show_u64 (st_last_applied s) @ newline @
     ''term '' @ show_u64 (st_term s) @ newline @
     concat (map dancer_line (st_dancers s)) @ concat (map formation_line (st_formations s)) @
     concat (map (cue_line ''music'') (st_music s)) @ concat (map (cue_line ''light'') (st_lighting s)) @
     receipt_lines 0 1 (ordered_receipts s) @
     concat (map (\<lambda>x. ''legacy '' @ fst x @ newline) (filter (is_legacy s) (st_applied_commands s)))"

section \<open>Restoring a state\<close>

record Restore =
  rs_state :: ChoreographyState
  rs_header :: bool
  rs_version :: string
  rs_index :: u64
  rs_term :: u64

definition bad :: "string \<Rightarrow> Error" where
  "bad why = Error StoreError (''snapshot state is invalid: '' @ why)"

abbreviation on_state :: "(ChoreographyState \<Rightarrow> ChoreographyState) \<Rightarrow> Restore \<Rightarrow> Restore" where
  "on_state f rs \<equiv> rs\<lparr>rs_state := f (rs_state rs)\<rparr>"

definition restore_schema :: "Restore \<Rightarrow> istream \<Rightarrow> (Restore \<times> istream) Result" where
  "restore_schema rs st =
     (let (n, st1) = read_unsigned 32 st in
      if n \<noteq> unat kCurrentSchemaVersion then Inl (unsupported_schema (of_nat n)) else Inr (rs, st1))"

definition restore_created :: "Restore \<Rightarrow> istream \<Rightarrow> (Restore \<times> istream) Result" where
  "restore_created rs st =
     (let (v, st1) = read_i32 st in Inr (on_state (\<lambda>s. s\<lparr>st_created := v \<noteq> 0\<rparr>) rs, st1))"

definition restore_choreography :: "Restore \<Rightarrow> istream \<Rightarrow> (Restore \<times> istream) Result" where
  "restore_choreography rs st =
     (let (i, st1) = read_word st in
      if i \<noteq> ''-'' then
        bindE (parse_id i) (\<lambda>p. Inr (on_state (\<lambda>s. s\<lparr>st_id := Some p\<rparr>) rs, st1))
      else Inr (rs, st1))"

definition restore_stage :: "Restore \<Rightarrow> istream \<Rightarrow> (Restore \<times> istream) Result" where
  "restore_stage rs st =
     (let (w, st1) = read_word st in
      if w \<noteq> ''-'' then
        let width_mm = fst (read_i32 (open_stream w)); (d, st2) = read_i32 st1 in
        bindE (stage_from_mm width_mm d) (\<lambda>b. Inr (on_state (\<lambda>s. s\<lparr>st_stage := Some b\<rparr>) rs, st2))
      else Inr (rs, st1))"

definition restore_overlap :: "Restore \<Rightarrow> istream \<Rightarrow> (Restore \<times> istream) Result" where
  "restore_overlap rs st =
     (let (name, st1) = read_word st in
      bindE (parse_overlap_policy name) (\<lambda>p. Inr (on_state (\<lambda>s. s\<lparr>st_overlap := p\<rparr>) rs, st1)))"

definition restore_max_travel :: "Restore \<Rightarrow> istream \<Rightarrow> (Restore \<times> istream) Result" where
  "restore_max_travel rs st =
     (let (v, st1) = read_i32 st in Inr (on_state (\<lambda>s. s\<lparr>st_max_travel := v\<rparr>) rs, st1))"

definition restore_last_applied :: "Restore \<Rightarrow> istream \<Rightarrow> (Restore \<times> istream) Result" where
  "restore_last_applied rs st =
     (let (v, st1) = read_u64 st in Inr (on_state (\<lambda>s. s\<lparr>st_last_applied := v\<rparr>) rs, st1))"

definition restore_term :: "Restore \<Rightarrow> istream \<Rightarrow> (Restore \<times> istream) Result" where
  "restore_term rs st =
     (let (v, st1) = read_u64 st in
      bindE (parse_term v) (\<lambda>t. Inr (on_state (\<lambda>s. s\<lparr>st_term := t\<rparr>) rs, st1)))"

definition restore_dancer :: "Restore \<Rightarrow> istream \<Rightarrow> (Restore \<times> istream) Result" where
  "restore_dancer rs st =
     (let (i, st1) = read_word st; (x, st2) = read_i32 st1; (y, st3) = read_i32 st2;
          (act, st4) = read_i32 st3 in
      bindE (position_from_mm x y) (\<lambda>p.
      Inr (on_state (\<lambda>s. s\<lparr>st_dancers := sm_assign i \<lparr>ds_position = p, ds_active = act \<noteq> 0\<rparr> (st_dancers s)\<rparr>) rs,
           st4)))"

definition restore_formation :: "Restore \<Rightarrow> istream \<Rightarrow> (Restore \<times> istream) Result" where
  "restore_formation rs st =
     (let (i, st1) = read_word st; (ms, st2) = read_words st1 in
      bindE (foldE (\<lambda>acc m. bindE (parse_id m) (\<lambda>p. Inr (acc @ [p]))) [] ms) (\<lambda>members.
      Inr (on_state (\<lambda>s. s\<lparr>st_formations := sm_assign i \<lparr>fs_members = members\<rparr> (st_formations s)\<rparr>) rs, st2)))"

definition restore_cue :: "bool \<Rightarrow> Restore \<Rightarrow> istream \<Rightarrow> (Restore \<times> istream) Result" where
  "restore_cue music rs st =
     (let (i, st1) = read_word st; (ticks, st2) = read_i64 st1; (depends, st3) = read_word st2 in
      bindE (from_ticks ticks) (\<lambda>tick.
      bindE (if depends \<noteq> ''-'' \<and> depends \<noteq> [] then bindE (parse_id depends) (\<lambda>d. Inr (Some d))
             else Inr None) (\<lambda>dep.
      let cue = \<lparr>cs_tick = tick, cs_depends = dep\<rparr> in
      Inr (on_state (\<lambda>s. if music then s\<lparr>st_music := sm_assign i cue (st_music s)\<rparr>
                         else s\<lparr>st_lighting := sm_assign i cue (st_lighting s)\<rparr>) rs, st3))))"

definition restore_at :: "Restore \<Rightarrow> istream \<Rightarrow> (Restore \<times> istream) Result" where
  "restore_at rs st =
     (let (cursor, st1) = read_u64 st in
      if is_fail st1 \<or> cursor \<le> rs_index rs \<or> st_last_applied (rs_state rs) \<le> cursor then
        Inl (bad ''receipt cursor is invalid'')
      else Inr (rs\<lparr>rs_index := cursor\<rparr>, st1))"

definition restore_receipt_term :: "Restore \<Rightarrow> istream \<Rightarrow> (Restore \<times> istream) Result" where
  "restore_receipt_term rs st =
     (let (v, st1) = read_u64 st in
      if is_fail st1 \<or> v = 0 then Inl (bad ''receipt term is invalid'')
      else Inr (rs\<lparr>rs_term := v\<rparr>, st1))"

definition restore_compact :: "Restore \<Rightarrow> istream \<Rightarrow> (Restore \<times> istream) Result" where
  "restore_compact rs st =
     (let (i, st1) = read_word st; (fingerprint, st2) = read_word st1;
          parsed_id = parse_id i; decoded = decode_fingerprint fingerprint in
      if \<not> is_ok parsed_id \<or> \<not> is_ok decoded \<or> st_last_applied (rs_state rs) \<le> rs_index rs \<or>
         map_of (st_receipts (rs_state rs)) i \<noteq> None then
        Inl (bad ''compact receipt is invalid or repeated'')
      else
        let index = rs_index rs + 1 in
        Inr (on_state (\<lambda>s. s\<lparr>st_receipts := sm_insert i
                 \<lparr>rc_index = index, rc_term = rs_term rs, rc_fingerprint = projr decoded\<rparr> (st_receipts s),
               st_applied_commands := sm_assign i i (st_applied_commands s)\<rparr>) rs\<lparr>rs_index := index\<rparr>, st2))"

definition restore_legacy :: "Restore \<Rightarrow> istream \<Rightarrow> (Restore \<times> istream) Result" where
  "restore_legacy rs st =
     (let (i, st1) = read_word st in
      if \<not> is_ok (parse_id i) \<or> map_of (st_applied_commands (rs_state rs)) i \<noteq> None then
        Inl (bad ''legacy command id is invalid or repeated'')
      else Inr (on_state (\<lambda>s. s\<lparr>st_applied_commands := sm_assign i i (st_applied_commands s)\<rparr>) rs, st1))"

definition restore_receipt_v2 :: "Restore \<Rightarrow> istream \<Rightarrow> (Restore \<times> istream) Result" where
  "restore_receipt_v2 rs st =
     (let (event_id, st1) = read_word st; (canonical, st2) = read_word st1 in
      if event_id = [] \<or> canonical = [] then Inl (bad ''receipt is missing an event id or payload'')
      else
        case parse_event canonical of
          Inl _ \<Rightarrow> Inl (bad ''legacy full receipt is malformed'')
        | Inr e \<Rightarrow>
            if ev_id e \<noteq> event_id then Inl (bad ''legacy full receipt is malformed'')
            else Inr (on_state (\<lambda>s. s\<lparr>
                st_applied_events := sm_assign event_id canonical (st_applied_events s),
                st_receipts := (if ev_type e \<noteq> NoOp
                                then sm_assign (ev_command e) (receipt_from_event e) (st_receipts s)
                                else st_receipts s)\<rparr>) rs, st2))"

definition restore_applied :: "Restore \<Rightarrow> istream \<Rightarrow> (Restore \<times> istream) Result" where
  "restore_applied rs st =
     (let (cmd, st1) = read_word st; (event, st2) = read_word st1 in
      Inr (on_state (\<lambda>s. s\<lparr>st_applied_commands :=
             sm_assign cmd (if event = [] then cmd else event) (st_applied_commands s)\<rparr>) rs, st2))"

definition restore_key :: "Restore \<Rightarrow> string \<Rightarrow> istream \<Rightarrow> (Restore \<times> istream) Result" where
  "restore_key rs key st =
     (if key = ''schema'' then restore_schema rs st
      else if key = ''created'' then restore_created rs st
      else if key = ''choreography'' then restore_choreography rs st
      else if key = ''stage'' then restore_stage rs st
      else if key = ''overlap'' then restore_overlap rs st
      else if key = ''max_travel'' then restore_max_travel rs st
      else if key = ''last_applied'' then restore_last_applied rs st
      else if key = ''term'' then restore_term rs st
      else if key = ''dancer'' then restore_dancer rs st
      else if key = ''formation'' then restore_formation rs st
      else if key = ''music'' \<or> key = ''light'' then restore_cue (key = ''music'') rs st
      else if key = ''at'' \<and> rs_version rs = ''3'' then restore_at rs st
      else if key = ''receipt-term'' \<and> rs_version rs = ''3'' then restore_receipt_term rs st
      else if key = ''r'' \<and> rs_version rs = ''3'' then restore_compact rs st
      else if key = ''legacy'' \<and> rs_version rs = ''3'' then restore_legacy rs st
      else if key = ''receipt'' \<and> rs_version rs = ''2'' then restore_receipt_v2 rs st
      else if key = ''applied'' then restore_applied rs st
      else Inl (bad (''unknown line '' @ [CHR 0x27] @ key @ [CHR 0x27])))"

definition restore_line :: "Restore \<Rightarrow> string \<Rightarrow> Restore Result" where
  "restore_line rs line =
     (if line = [] then Inr rs
      else
        let (key, st) = read_word (open_stream line) in
        if \<not> rs_header rs then
          let version = fst (read_word st) in
          if key \<noteq> ''snapshot-state'' \<or> version \<noteq> ''1'' \<and> version \<noteq> ''2'' \<and> version \<noteq> ''3'' then
            Inl (bad ''missing or unsupported header'')
          else Inr (rs\<lparr>rs_version := version, rs_header := True\<rparr>)
        else
          bindE (restore_key rs key st) (\<lambda>(rs', st').
            if is_fail st' \<and> \<not> is_eof st' then
              Inl (bad (''malformed line '' @ [CHR 0x27] @ key @ [CHR 0x27]))
            else Inr rs'))"

definition restore_state :: "string \<Rightarrow> ChoreographyState Result" where
  "restore_state payload =
     bindE (foldE restore_line
              \<lparr>rs_state = initial_state, rs_header = False, rs_version = [], rs_index = 0, rs_term = 1\<rparr>
              (getline_split CHR 0x0A payload)) (\<lambda>rs.
       if \<not> rs_header rs then Inl (bad ''empty payload'') else Inr (rs_state rs))"

end
