(* ===== verification/Snapshot_Round_Trip.thy ===== *)
theory Snapshot_Round_Trip
  imports Snapshot_Text "HOL-Library.Multiset"
begin

unbundle bit_operations_syntax

text \<open>
  The snapshot text round trips: \<open>restore_state\<close> reads back what \<open>snapshot_payload\<close> wrote, up to
  the event bodies that a snapshot deliberately leaves out. The exception is an identifier that
  consists of a single dash, which the format uses for an absent value.
\<close>

section \<open>Fingerprints\<close>

lemma position_in_nth: "distinct xs \<Longrightarrow> d < length xs \<Longrightarrow> position_in (xs ! d) xs = d"
  by (induction xs arbitrary: d) (auto simp: nth_Cons split: nat.splits)

lemma distinct_base64: "distinct kBase64" by simp

lemma length_base64: "length kBase64 = 64" by simp

lemma mask6: "(63 :: u64) = mask 6"
  by (simp add: mask_eq_exp_minus_1)

lemma low_digit: "unat (v AND 63 :: u64) < 64"
proof -
  have "v AND 63 = take_bit 6 v" unfolding mask6 by (simp add: take_bit_eq_mask)
  then show ?thesis using take_bit_nat_less_exp [of 6 "unat v"] by (simp add: unsigned_take_bit_eq)
qed

lemma decode_digit_back:
  assumes "i = 0 \<longrightarrow> unat (v AND 63) \<le> 15"
  shows "decode_digit acc (i, kBase64 ! unat (v AND 63)) = Inr (push_bit 6 acc OR (v AND 63))"
proof -
  have "position_in (kBase64 ! unat (v AND 63)) kBase64 = unat (v AND 63)"
    using low_digit [of v] distinct_base64 length_base64 by (intro position_in_nth) (simp_all only:)
  then show ?thesis
    using low_digit [of v] assms by (simp only: decode_digit_def Let_def fst_conv snd_conv length_base64) auto
qed

lemma length_encode_digits [simp]: "length (encode_digits n v) = n"
  by (induction n v rule: encode_digits.induct) simp_all

lemma decode_digits_back:
  assumes "k = 0 \<longrightarrow> n \<noteq> 0 \<longrightarrow> unat (drop_bit (6 * (n - 1)) v AND 63) \<le> 15"
  shows "foldE decode_digit acc (List.enumerate k (encode_digits n v)) =
    Inr (push_bit (6 * n) acc OR take_bit (6 * n) v)"
  using assms
proof (induction n arbitrary: v)
  case 0
  then show ?case by simp
next
  case (Suc n)
  have top: "k = 0 \<longrightarrow> n \<noteq> 0 \<longrightarrow> unat (drop_bit (6 * (n - 1)) (drop_bit 6 v) AND 63) \<le> 15"
    using Suc.prems by (cases n) (simp_all add: add.commute)
  have last: "k + n = 0 \<longrightarrow> unat (v AND 63) \<le> 15" using Suc.prems by auto
  have "push_bit 6 (push_bit (6 * n) acc OR take_bit (6 * n) (drop_bit 6 v)) OR (v AND 63) =
      push_bit (6 * Suc n) acc OR take_bit (6 * Suc n) v"
  proof (rule bit_word_eqI)
    fix m assume "m < LENGTH(64)"
    show "bit (push_bit 6 (push_bit (6 * n) acc OR take_bit (6 * n) (drop_bit 6 v)) OR (v AND 63)) m =
        bit (push_bit (6 * Suc n) acc OR take_bit (6 * Suc n) v) m"
      using \<open>m < LENGTH(64)\<close> unfolding mask6
      by (cases "m < 6")
        (auto simp: bit_or_iff bit_and_iff bit_push_bit_iff bit_take_bit_iff bit_drop_bit_eq bit_mask_iff)
  qed
  then show ?case
    using Suc.IH [OF top] decode_digit_back [OF last]
    by (simp add: enumerate_append_eq foldE_append)
qed

lemma decode_encode: "decode_fingerprint (encode_fingerprint v) = Inr v"
proof -
  have "drop_bit 60 v AND 63 = drop_bit 60 v"
    unfolding mask6
    by (rule bit_word_eqI) (auto simp: bit_and_iff bit_mask_iff bit_drop_bit_eq dest: bit_imp_le_length)
  moreover have "unat (drop_bit 60 v) \<le> 15"
  proof -
    have "unat (drop_bit 60 v) = unat v div 2 ^ 60" by (simp add: drop_bit_eq_div unat_div)
    then show ?thesis using unat_lt_u64 [of v] by simp
  qed
  moreover have "take_bit 66 v = v"
    by (rule bit_word_eqI) (auto simp: bit_take_bit_iff dest: bit_imp_le_length)
  ultimately show ?thesis
    using decode_digits_back [of 0 11 v 0] by (simp add: decode_fingerprint_def encode_fingerprint_def)
qed

interpretation fingerprints: round_trip "\<lambda>_. True" encode_fingerprint decode_fingerprint
  by unfold_locales (rule decode_encode)

section \<open>Reading words\<close>

definition word_ok :: "string \<Rightarrow> bool" where
  "word_ok w \<longleftrightarrow> w \<noteq> [] \<and> list_all (\<lambda>c. \<not> is_space c) w"

definition line_text :: "string list \<Rightarrow> string" where
  "line_text ws = hd ws @ concat (map (\<lambda>w. CHR '' '' # w) (tl ws))"

definition words_stream :: "string list \<Rightarrow> istream" where
  "words_stream ws =
     \<lparr>is_rest = concat (map (\<lambda>w. CHR '' '' # w) ws), is_fail = False, is_eof = (ws = [])\<rparr>"

lemma words_stream_simps [simp]: "is_fail (words_stream ws) = False" "is_eof (words_stream ws) = (ws = [])"
  by (simp_all add: words_stream_def)

lemma space_simps [simp]: "is_space CHR '' ''"
  by (simp add: is_space_def)

lemma word_take:
  assumes "word_ok w"
  shows "dropWhile is_space (w @ r) = w @ r"
    and "takeWhile (\<lambda>c. \<not> is_space c) (w @ concat (map (\<lambda>w. CHR '' '' # w) ws)) = w"
    and "dropWhile (\<lambda>c. \<not> is_space c) (w @ concat (map (\<lambda>w. CHR '' '' # w) ws)) = concat (map (\<lambda>w. CHR '' '' # w) ws)"
proof -
  have w: "\<forall>c\<in>set w. \<not> is_space c" "w \<noteq> []" using assms by (auto simp: word_ok_def list_all_iff)
  show "dropWhile is_space (w @ r) = w @ r" using w by (cases w) simp_all
  show "takeWhile (\<lambda>c. \<not> is_space c) (w @ concat (map (\<lambda>w. CHR '' '' # w) ws)) = w"
    using w by (cases ws) simp_all
  show "dropWhile (\<lambda>c. \<not> is_space c) (w @ concat (map (\<lambda>w. CHR '' '' # w) ws)) = concat (map (\<lambda>w. CHR '' '' # w) ws)"
    using w by (cases ws) simp_all
qed

lemma read_first_word:
  "word_ok w \<Longrightarrow> read_word (open_stream (line_text (w # ws))) = (w, words_stream ws)"
  by (auto simp: read_word_def open_stream_def line_text_def words_stream_def word_take Let_def)
    (simp_all add: word_ok_def)

lemma read_next_word [simp]: "word_ok w \<Longrightarrow> read_word (words_stream (w # ws)) = (w, words_stream ws)"
  by (auto simp: read_word_def words_stream_def word_take Let_def) (simp_all add: word_ok_def)

lemma read_no_word [simp]: "read_word (words_stream []) = ([], (words_stream [])\<lparr>is_fail := True\<rparr>)"
  by (simp add: read_word_def)

lemma read_words_all:
  "list_all word_ok ws \<Longrightarrow> read_words (words_stream ws) = (ws, (words_stream [])\<lparr>is_fail := True\<rparr>)"
  by (induction ws) (simp_all add: read_words.simps [of "words_stream _"])

section \<open>Reading numbers\<close>

lemma space_not_digit: "is_space c \<Longrightarrow> \<not> is_digit c"
  using digit_not_special(1) by blast

lemma show_nat_word [simp]: "word_ok (show_nat n)"
  by (auto simp: word_ok_def list_all_iff dest!: show_nat_digits dest: digit_not_special(1))

lemma dash_not_space [simp]: "\<not> is_space CHR ''-''"
  by (simp add: is_space_def)

lemma show_int_word [simp]: "word_ok (show_int i)"
  by (auto simp: word_ok_def list_all_iff dest!: show_int_chars dest: digit_not_special(1))

lemma show_u64_word [simp]: "word_ok (show_u64 w)" "word_ok (show_u16 v)"
  by (simp_all add: show_u64_def show_u16_def)

lemma digits_then_words:
  "takeWhile is_digit (show_nat n @ concat (map (\<lambda>w. CHR '' '' # w) ws)) = show_nat n"
  "dropWhile is_digit (show_nat n @ concat (map (\<lambda>w. CHR '' '' # w) ws)) = concat (map (\<lambda>w. CHR '' '' # w) ws)"
proof -
  have all: "\<forall>c\<in>set (show_nat n). is_digit c" by simp
  show "takeWhile is_digit (show_nat n @ concat (map (\<lambda>w. CHR '' '' # w) ws)) = show_nat n"
    using all space_not_digit by (cases ws) auto
  show "dropWhile is_digit (show_nat n @ concat (map (\<lambda>w. CHR '' '' # w) ws)) = concat (map (\<lambda>w. CHR '' '' # w) ws)"
    using all space_not_digit by (cases ws) auto
qed

lemma split_sign_nat: "split_sign (show_nat n @ r) = (False, show_nat n @ r)"
proof -
  obtain c cs where c: "show_nat n = c # cs" by (cases "show_nat n") auto
  then have "is_digit c" using hd_show_nat [of n] by simp
  then show ?thesis using digit_not_special by (auto simp: split_sign_def c)
qed

lemma split_sign_int: "split_sign (show_int i @ r) = (i < 0, show_nat (nat \<bar>i\<bar>) @ r)"
  by (auto simp: show_int_def split_sign_nat) (simp add: split_sign_def)

lemma concat_words_empty [simp]: "concat (map (\<lambda>w. CHR '' '' # w) ws) = [] \<longleftrightarrow> ws = []"
  by (cases ws) simp_all

lemma read_signed_next:
  assumes "lo \<le> i" "i \<le> hi"
  shows "read_signed lo hi (words_stream (show_int i # ws)) = (i, words_stream ws)"
proof -
  have drop: "dropWhile is_space (is_rest (words_stream (show_int i # ws))) =
      show_int i @ concat (map (\<lambda>w. CHR '' '' # w) ws)"
    using word_take(1) [OF show_int_word] by (simp add: words_stream_def)
  show ?thesis
    using assms
    by (simp add: read_signed_def drop split_sign_int digits_then_words Let_def)
      (simp add: words_stream_def)
qed

lemma read_i32_next [simp]:
  "- 2147483648 \<le> i \<Longrightarrow> i < 2147483648 \<Longrightarrow> read_i32 (words_stream (show_int i # ws)) = (i, words_stream ws)"
  by (simp add: read_i32_def read_signed_next)

lemma read_i64_next [simp]: "tick_ok i \<Longrightarrow> read_i64 (words_stream (show_int i # ws)) = (i, words_stream ws)"
  by (simp add: read_i64_def read_signed_next tick_ok_def)

lemma read_i32_open [simp]:
  "- 2147483648 \<le> i \<Longrightarrow> i < 2147483648 \<Longrightarrow> fst (read_i32 (open_stream (show_int i))) = i"
proof -
  assume i: "- 2147483648 \<le> i" "i < 2147483648"
  have "dropWhile is_space (is_rest (open_stream (show_int i))) = show_int i"
    using word_take(1) [OF show_int_word, of i "[]"] by (simp add: open_stream_def)
  then show ?thesis
    using i split_sign_int [of i "[]"] digits_then_words [of "nat \<bar>i\<bar>" "[]"]
    by (simp add: read_i32_def read_signed_def Let_def open_stream_def)
qed

lemma read_unsigned_next:
  assumes "n < 2 ^ w"
  shows "read_unsigned w (words_stream (show_nat n # ws)) = (n, words_stream ws)"
proof -
  have drop: "dropWhile is_space (is_rest (words_stream (show_nat n # ws))) =
      show_nat n @ concat (map (\<lambda>w. CHR '' '' # w) ws)"
    using word_take(1) [OF show_nat_word] by (simp add: words_stream_def)
  show ?thesis
    using assms
    by (simp add: read_unsigned_def drop split_sign_nat digits_then_words Let_def)
      (simp add: words_stream_def)
qed

lemma read_u64_next [simp]: "read_u64 (words_stream (show_u64 v # ws)) = (v, words_stream ws)"
  using unat_lt_u64 [of v] by (simp add: read_u64_def read_unsigned_next show_u64_def)

section \<open>One line at a time\<close>

lemma restore_line_words:
  assumes "word_ok key" "rs_header rs"
  shows "restore_line rs (line_text (key # ws)) =
    bindE (restore_key rs key (words_stream ws)) (\<lambda>(rs', st').
      if is_fail st' \<and> \<not> is_eof st' then
        Inl (bad (''malformed line '' @ [CHR 0x27] @ key @ [CHR 0x27]))
      else Inr rs')"
proof -
  have "line_text (key # ws) \<noteq> []" using assms(1) by (simp add: line_text_def word_ok_def)
  then show ?thesis using assms by (simp add: restore_line_def read_first_word)
qed

lemma id_word [simp]: "id_ok i \<Longrightarrow> word_ok i"
  by (auto simp: id_ok_def word_ok_def list_all_iff dest: id_char_not_special(6))

lemma key_words [simp]:
  "word_ok ''schema''" "word_ok ''created''" "word_ok ''choreography''" "word_ok ''stage''"
  "word_ok ''overlap''" "word_ok ''max_travel''" "word_ok ''last_applied''" "word_ok ''term''"
  "word_ok ''dancer''" "word_ok ''formation''" "word_ok ''music''" "word_ok ''light''" "word_ok ''at''"
  "word_ok ''receipt-term''" "word_ok ''r''" "word_ok ''legacy''" "word_ok ''-''" "word_ok ''snapshot-state''"
  "word_ok ''0''" "word_ok ''1''" "word_ok ''3''" "word_ok ''allowed''" "word_ok ''forbidden''"
  by (simp_all add: word_ok_def is_space_def)

lemma show_bits: "show_int 1 = ''1''" "show_int 0 = ''0''" "show_u16 1 = ''1''"
  by (simp_all add: show_int_def show_u16_def show_nat.simps digit_char_def char_of_def bit_0)

lemma read_bit [simp]:
  "read_i32 (words_stream (''1'' # ws)) = (1, words_stream ws)"
  "read_i32 (words_stream (''0'' # ws)) = (0, words_stream ws)"
  using read_i32_next [of 1 ws] read_i32_next [of 0 ws] by (simp_all add: show_bits)

lemma read_schema [simp]: "read_unsigned 32 (words_stream (''1'' # ws)) = (1, words_stream ws)"
  using read_unsigned_next [of 1 32 ws] show_bits(1) by (simp add: show_int_def)

definition dancer_words :: "string \<times> DancerState \<Rightarrow> string list" where
  "dancer_words x =
     [''dancer'', fst x, show_int (pos_x (ds_position (snd x))), show_int (pos_y (ds_position (snd x))),
      if ds_active (snd x) then ''1'' else ''0'']"

definition formation_words :: "string \<times> FormationState \<Rightarrow> string list" where
  "formation_words x = ''formation'' # fst x # fs_members (snd x)"

definition cue_words :: "string \<Rightarrow> string \<times> CueState \<Rightarrow> string list" where
  "cue_words key x = [key, fst x, show_int (cs_tick (snd x)), text_of (cs_depends (snd x)) ''-'']"

lemma restore_dancer_line:
  assumes "rs_header rs" "id_ok i" "position_ok (ds_position d)"
  shows "restore_line rs (line_text (dancer_words (i, d))) =
    Inr (on_state (\<lambda>s. s\<lparr>st_dancers := sm_assign i d (st_dancers s)\<rparr>) rs)"
  using assms position_i32 [of "ds_position d"]
  by (cases d) (simp add: dancer_words_def restore_line_words restore_key_def restore_dancer_def)

lemma restore_formation_line:
  assumes "rs_header rs" "id_ok i" "list_all id_ok (fs_members f)"
  shows "restore_line rs (line_text (formation_words (i, f))) =
    Inr (on_state (\<lambda>s. s\<lparr>st_formations := sm_assign i f (st_formations s)\<rparr>) rs)"
proof -
  have "read_words (words_stream (fs_members f)) = (fs_members f, (words_stream [])\<lparr>is_fail := True\<rparr>)"
    using assms(3) by (intro read_words_all) (auto simp: list_all_iff)
  then show ?thesis
    using assms collect_members [OF assms(3), of "[]"]
    by (cases f) (simp add: formation_words_def restore_line_words restore_key_def restore_formation_def)
qed

lemma restore_cue_line:
  assumes "rs_header rs" "id_ok i" "tick_ok (cs_tick q)" "pred_option id_ok (cs_depends q)" "cs_depends q \<noteq> Some ''-''"
  shows "restore_line rs (line_text (cue_words ''music'' (i, q))) =
      Inr (on_state (\<lambda>s. s\<lparr>st_music := sm_assign i q (st_music s)\<rparr>) rs)"
    and "restore_line rs (line_text (cue_words ''light'' (i, q))) =
      Inr (on_state (\<lambda>s. s\<lparr>st_lighting := sm_assign i q (st_lighting s)\<rparr>) rs)"
  using assms
  by (cases q; cases "cs_depends q";
      simp add: cue_words_def restore_line_words restore_key_def restore_cue_def text_of_def Let_def)+

section \<open>Folding over the entries of a map\<close>

lemma sm_assign_last: "\<forall>x\<in>set m. fst x < k \<Longrightarrow> sm_assign k v m = m @ [(k, v)]"
  by (induction m) auto

lemma fold_assign_sorted:
  assumes "sm_ok (done' @ m)"
  shows "fold (\<lambda>x acc. sm_assign (fst x) (snd x) acc) m done' = done' @ m"
  using assms
proof (induction m arbitrary: done')
  case (Cons x m)
  have "\<forall>y\<in>set done'. fst y < fst x"
    using Cons.prems by (auto simp: sm_ok_def sorted_wrt_append)
  then show ?case using Cons.IH [of "done' @ [x]"] Cons.prems by (simp add: sm_assign_last)
qed simp

lemma rebuild_map: "sm_ok m \<Longrightarrow> fold (\<lambda>x acc. sm_assign (fst x) (snd x) acc) m [] = m"
  using fold_assign_sorted [of "[]" m] by simp

lemma restore_lines_fold:
  assumes "\<And>rs x. rs_header rs \<Longrightarrow> x \<in> set m \<Longrightarrow>
      restore_line rs (line_text (words x)) = Inr (on_state (upd (\<lambda>acc. sm_assign (fst x) (snd x) acc)) rs)"
    and "\<And>f g s. upd f (upd g s) = upd (\<lambda>x. f (g x)) s" and "\<And>s. upd (\<lambda>x. x) s = s" and "rs_header rs"
  shows "foldE restore_line rs (map line_text (map words m)) =
    Inr (on_state (upd (fold (\<lambda>x acc. sm_assign (fst x) (snd x) acc) m)) rs)"
  using assms(1, 4)
proof (induction m arbitrary: rs)
  case Nil
  then show ?case by (simp add: assms(3) id_def)
next
  case (Cons x m)
  then show ?case by (simp add: assms(2) comp_def)
qed

section \<open>Receipts and tombstones\<close>

fun receipt_words :: "u64 \<Rightarrow> u64 \<Rightarrow> (string \<times> EventReceipt) list \<Rightarrow> string list list" where
  "receipt_words cursor active_term [] = []"
| "receipt_words cursor active_term ((i, r) # rest) =
     (if rc_index r \<noteq> cursor + 1 then [[''at'', show_u64 (rc_index r - 1)]] else []) @
     (if rc_term r \<noteq> active_term then [[''receipt-term'', show_u64 (rc_term r)]] else []) @
     [''r'', i, encode_fingerprint (rc_fingerprint r)] #
     receipt_words (rc_index r) (rc_term r) rest"

lemma base64_not_space: "list_all (\<lambda>c. \<not> is_space c) kBase64"
  by (simp add: is_space_def)

lemma encode_digits_chars: "set (encode_digits n v) \<subseteq> set kBase64"
proof (induction n arbitrary: v)
  case (Suc n)
  have "kBase64 ! unat (v AND 63) \<in> set kBase64"
    by (rule nth_mem) (use low_digit [of v] length_base64 in \<open>simp only:\<close>)
  then show ?case using Suc.IH [of "drop_bit 6 v"] by (simp only: encode_digits.simps) auto
qed simp

lemma fingerprint_word [simp]: "word_ok (encode_fingerprint v)"
proof -
  have "length (encode_fingerprint v) = 11" by (simp add: encode_fingerprint_def)
  then have "encode_fingerprint v \<noteq> []" by force
  moreover have "\<forall>c\<in>set kBase64. \<not> is_space c"
    using base64_not_space unfolding list_all_iff .
  ultimately show ?thesis
    using encode_digits_chars [of 11 v] unfolding word_ok_def list_all_iff encode_fingerprint_def by blast
qed

definition add_receipt :: "string \<times> EventReceipt \<Rightarrow> ChoreographyState \<Rightarrow> ChoreographyState" where
  "add_receipt x s =
     s\<lparr>st_receipts := sm_insert (fst x) (snd x) (st_receipts s),
       st_applied_commands := sm_assign (fst x) (fst x) (st_applied_commands s)\<rparr>"

lemma add_receipt_simps [simp]:
  "st_receipts (add_receipt x s) = sm_insert (fst x) (snd x) (st_receipts s)"
  "st_last_applied (add_receipt x s) = st_last_applied s"
  by (simp_all add: add_receipt_def)

lemma restore_at_line:
  assumes "rs_header rs" "rs_version rs = ''3''" "rs_index rs < v" "v < st_last_applied (rs_state rs)"
  shows "restore_line rs (line_text [''at'', show_u64 v]) = Inr (rs\<lparr>rs_index := v\<rparr>)"
  using assms by (simp add: restore_line_words restore_key_def restore_at_def not_le)

lemma restore_term_line:
  assumes "rs_header rs" "rs_version rs = ''3''" "v \<noteq> 0"
  shows "restore_line rs (line_text [''receipt-term'', show_u64 v]) = Inr (rs\<lparr>rs_term := v\<rparr>)"
  using assms by (simp add: restore_line_words restore_key_def restore_receipt_term_def)

lemma restore_receipt_line:
  assumes "rs_header rs" "rs_version rs = ''3''" "id_ok i" "map_of (st_receipts (rs_state rs)) i = None"
    and "rs_index rs < st_last_applied (rs_state rs)"
    and "rc_index r = rs_index rs + 1" "rc_term r = rs_term rs"
  shows "restore_line rs (line_text [''r'', i, encode_fingerprint (rc_fingerprint r)]) =
    Inr ((on_state (add_receipt (i, r)) rs)\<lparr>rs_index := rc_index r\<rparr>)"
  using assms decode_encode
  by (cases r) (simp add: restore_line_words restore_key_def restore_compact_def Let_def add_receipt_def not_le)

lemma restore_receipts:
  assumes "rs_header rs" "rs_version rs = ''3''"
    and "sorted_wrt (\<lambda>x y. rc_index (snd x) < rc_index (snd y)) xs" "distinct (map fst xs)"
    and "\<forall>x\<in>set xs. id_ok (fst x) \<and> rs_index rs < rc_index (snd x) \<and>
        rc_index (snd x) \<le> st_last_applied (rs_state rs) \<and> rc_term (snd x) \<noteq> 0 \<and>
        map_of (st_receipts (rs_state rs)) (fst x) = None"
  shows "\<exists>ix tm. foldE restore_line rs (map line_text (receipt_words (rs_index rs) (rs_term rs) xs)) =
    Inr ((on_state (fold add_receipt xs) rs)\<lparr>rs_index := ix, rs_term := tm\<rparr>)"
  using assms
proof (induction xs arbitrary: rs)
  case Nil
  then show ?case by (intro exI [of _ "rs_index rs"] exI [of _ "rs_term rs"]) simp
next
  case (Cons x xs)
  obtain i r where x: "x = (i, r)" by fastforce
  have r: "id_ok i" "rs_index rs < rc_index r" "rc_index r \<le> st_last_applied (rs_state rs)" "rc_term r \<noteq> 0"
    "map_of (st_receipts (rs_state rs)) i = None"
    using Cons.prems(5) by (simp_all add: x)
  let ?at = "rs\<lparr>rs_index := rc_index r - 1\<rparr>"
  let ?tm = "?at\<lparr>rs_term := rc_term r\<rparr>"
  let ?next = "(on_state (add_receipt x) ?tm)\<lparr>rs_index := rc_index r\<rparr>"
  have pos: "rc_index r \<noteq> 0" using r(2) by auto
  have below: "rc_index r - 1 < rc_index r"
    using pos by (simp add: word_less_nat_alt unat_sub_exact unat_pos_iff word_le_nat_alt Suc_leI)
  have gap: "rs_index rs < rc_index r - 1" if "rc_index r \<noteq> rs_index rs + 1"
  proof -
    have "unat (rc_index r - 1) = unat (rc_index r) - 1"
      using pos by (simp add: unat_sub_exact unat_pos_iff word_le_nat_alt Suc_leI)
    moreover have "unat (rc_index r) \<noteq> unat (rs_index rs) + 1"
    proof -
      have "rs_index rs \<noteq> max_u64" using r(2) by (metis u64_less_max less_irrefl not_less_iff_gr_or_eq)
      then have "unat (rs_index rs + 1) = unat (rs_index rs) + 1" by (simp add: unat_Suc_exact)
      then show ?thesis using that by (metis word_unat_eq_iff)
    qed
    ultimately show ?thesis using r(2) by (simp add: word_less_nat_alt)
  qed
  have at: "foldE restore_line rs (map line_text
      (if rc_index r \<noteq> rs_index rs + 1 then [[''at'', show_u64 (rc_index r - 1)]] else [])) = Inr ?at"
    using restore_at_line [OF Cons.prems(1, 2) gap] below r(3) by (auto intro: less_le_trans)
  have tm: "foldE restore_line ?at (map line_text
      (if rc_term r \<noteq> rs_term rs then [[''receipt-term'', show_u64 (rc_term r)]] else [])) = Inr ?tm"
    using restore_term_line [of ?at "rc_term r"] Cons.prems(1, 2) r(4) by auto
  have line: "restore_line ?tm (line_text [''r'', i, encode_fingerprint (rc_fingerprint r)]) = Inr ?next"
    using restore_receipt_line [of ?tm i r] Cons.prems(1, 2) r below by (simp add: x less_le_trans)
  have "\<exists>ix tm. foldE restore_line ?next (map line_text (receipt_words (rc_index r) (rc_term r) xs)) =
      Inr ((on_state (fold add_receipt xs) ?next)\<lparr>rs_index := ix, rs_term := tm\<rparr>)"
  proof -
    have "fst y \<noteq> i" if "y \<in> set xs" for y using Cons.prems(4) that by (auto simp: x)
    then have "\<forall>y\<in>set xs. id_ok (fst y) \<and> rs_index ?next < rc_index (snd y) \<and>
        rc_index (snd y) \<le> st_last_applied (rs_state ?next) \<and> rc_term (snd y) \<noteq> 0 \<and>
        map_of (st_receipts (rs_state ?next)) (fst y) = None"
      using Cons.prems(3, 5) by (simp add: x)
    then show ?thesis
      using Cons.IH [of ?next] Cons.prems(1-4) by (simp add: x)
  qed
  then show ?case
    using at tm line by (simp add: x foldE_append bindE_def)
qed

section \<open>The whole payload\<close>

definition header_words :: "ChoreographyState \<Rightarrow> string list list" where
  "header_words s =
     [[''snapshot-state'', ''3''], [''schema'', ''1''], [''created'', if st_created s then ''1'' else ''0''],
      [''choreography'', text_of (st_id s) ''-''],
      (case st_stage s of Some b \<Rightarrow> [''stage'', show_int (width b), show_int (depth b)] | None \<Rightarrow> [''stage'', ''-'']),
      [''overlap'', overlap_policy_name (st_overlap s)], [''max_travel'', show_int (st_max_travel s)],
      [''last_applied'', show_u64 (st_last_applied s)], [''term'', show_u64 (st_term s)]]"

definition snapshot_words :: "ChoreographyState \<Rightarrow> string list list" where
  "snapshot_words s =
     header_words s @ map dancer_words (st_dancers s) @ map formation_words (st_formations s) @
     map (cue_words ''music'') (st_music s) @ map (cue_words ''light'') (st_lighting s) @
     receipt_words 0 1 (ordered_receipts s) @
     map (\<lambda>x. [''legacy'', fst x]) (filter (is_legacy s) (st_applied_commands s))"

definition lines_text :: "string list list \<Rightarrow> string" where
  "lines_text wss = concat (map (\<lambda>ws. line_text ws @ newline) wss)"

lemma lines_text_simps [simp]:
  "lines_text [] = []" "lines_text (ws # wss) = line_text ws @ newline @ lines_text wss"
  "lines_text (xs @ ys) = lines_text xs @ lines_text ys"
  by (simp_all add: lines_text_def)

lemma receipt_lines_text: "receipt_lines cursor tm xs = lines_text (receipt_words cursor tm xs)"
  by (induction cursor tm xs rule: receipt_lines.induct) (simp_all add: line_text_def)

lemma entry_lines_text:
  "concat (map dancer_line ds) = lines_text (map dancer_words ds)"
  "concat (map formation_line fs) = lines_text (map formation_words fs)"
  "concat (map (cue_line key) cs) = lines_text (map (cue_words key) cs)"
  "concat (map (\<lambda>x. ''legacy '' @ fst x @ newline) xs) = lines_text (map (\<lambda>x. [''legacy'', fst x]) xs)"
  by (simp_all add: lines_text_def comp_def dancer_line_def dancer_words_def formation_line_def
      formation_words_def cue_line_def cue_words_def line_text_def cong: map_cong)

lemma header_text:
  "snapshot_payload s = lines_text (snapshot_words s)"
  unfolding snapshot_payload_def snapshot_words_def entry_lines_text receipt_lines_text
  by (simp add: header_words_def show_bits(3) line_text_def split: option.split)

lemma word_no_newline: "word_ok w \<Longrightarrow> CHR 0x0A \<notin> set w"
  by (auto simp: word_ok_def list_all_iff is_space_def)

lemma split_lines:
  assumes "\<forall>ws\<in>set wss. ws \<noteq> [] \<and> list_all word_ok ws"
  shows "getline_split CHR 0x0A (lines_text wss) = map line_text wss"
  using assms
proof (induction wss)
  case (Cons ws wss)
  have "CHR 0x0A \<notin> set (line_text ws)"
    using Cons.prems word_no_newline by (cases ws) (auto simp: line_text_def list_all_iff)
  then show ?case using Cons by (simp add: getline_split_Cons)
qed simp

definition dash_free :: "ChoreographyState \<Rightarrow> bool" where
  "dash_free s \<longleftrightarrow> st_id s \<noteq> Some ''-'' \<and> (\<forall>c q. find_cue s c = Some q \<longrightarrow> cs_depends q \<noteq> Some ''-'')"

lemma cue_facts:
  assumes "domain_ok s" "dash_free s" "(i, q) \<in> set (st_music s) \<or> (i, q) \<in> set (st_lighting s)"
  shows "id_ok i \<and> tick_ok (cs_tick q) \<and> pred_option id_ok (cs_depends q) \<and> cs_depends q \<noteq> Some ''-''"
proof -
  have cues: "cues_ok s" using assms(1) by (simp add: domain_ok_def)
  then have "sm_ok (st_music s)" "sm_ok (st_lighting s)" by (simp_all add: cues_ok_def)
  then have "map_of (st_music s) i = Some q \<or> map_of (st_lighting s) i = Some q"
    using assms(3) by (simp add: in_smap)
  moreover have "map_of (st_music s) i = None \<or> map_of (st_lighting s) i = None"
    using cues by (simp add: cues_ok_def)
  ultimately have q: "find_cue s i = Some q" by (auto simp: find_cue_def)
  then have "id_ok i" "tick_ok (cs_tick q)" "\<forall>d. cs_depends q = Some d \<longrightarrow> id_ok d"
    using cues by (simp_all add: cues_ok_def)
  moreover have "cs_depends q \<noteq> Some ''-''" using q assms(2) by (simp add: dash_free_def)
  ultimately show ?thesis by (cases "cs_depends q") simp_all
qed

lemma dancer_facts:
  assumes "domain_ok s" "(i, d) \<in> set (st_dancers s)"
  shows "id_ok i \<and> position_ok (ds_position d)"
proof -
  note dancers = domain_parts(2, 6) [OF assms(1)]
  then have "map_of (st_dancers s) i = Some d" using assms(2) by (simp add: in_smap)
  then show ?thesis using dancers(1) by (simp add: dancers_ok_def)
qed

lemma formation_facts:
  assumes "domain_ok s" "(i, f) \<in> set (st_formations s)"
  shows "id_ok i \<and> list_all id_ok (fs_members f)"
proof -
  have "formations_ok s" "dancers_ok s" using domain_parts [OF assms(1)] by simp_all
  moreover from this have "map_of (st_formations s) i = Some f"
    using assms(2) by (simp add: formations_ok_def in_smap)
  ultimately have "id_ok i" "\<forall>m\<in>set (fs_members f). map_of (st_dancers s) m \<noteq> None"
    by (simp_all add: formations_ok_def)
  moreover have "id_ok m" if "map_of (st_dancers s) m \<noteq> None" for m
    using that \<open>dancers_ok s\<close> by (auto simp: dancers_ok_def)
  ultimately show ?thesis by (simp add: list_all_iff)
qed

lemma receipt_facts:
  assumes "log_ok s"
  shows "sorted_wrt (\<lambda>x y. rc_index (snd x) < rc_index (snd y)) (ordered_receipts s)"
    and "distinct (map fst (ordered_receipts s))"
    and "\<forall>x\<in>set (ordered_receipts s). id_ok (fst x) \<and> 0 < rc_index (snd x) \<and>
        rc_index (snd x) \<le> st_last_applied s \<and> rc_term (snd x) \<noteq> 0"
    and "map_of (ordered_receipts s) = map_of (st_receipts s)"
proof -
  let ?f = "\<lambda>x. rc_index (snd x)" and ?m = "st_receipts s"
  have ok: "sm_ok ?m" and rc: "receipts_ok s" using assms by (simp_all add: log_ok_def logs_sorted_def)
  have at: "map_of ?m (fst x) = Some (snd x)" if "x \<in> set ?m" for x
    using that in_smap [OF ok, of "fst x" "snd x"] by simp
  show "\<forall>x\<in>set (ordered_receipts s). id_ok (fst x) \<and> 0 < rc_index (snd x) \<and>
      rc_index (snd x) \<le> st_last_applied s \<and> rc_term (snd x) \<noteq> 0"
    using at rc by (auto simp: ordered_receipts_def receipts_ok_def word_gt_0)
  have dist: "distinct (map fst ?m)" by (rule sm_ok_distinct [OF ok])
  have perm: "mset (map fst (ordered_receipts s)) = mset (map fst ?m)"
    by (simp add: ordered_receipts_def)
  then show dist': "distinct (map fst (ordered_receipts s))"
    using dist mset_eq_imp_distinct_iff by blast
  show "map_of (ordered_receipts s) = map_of ?m"
    using map_of_inject_set [OF dist' dist] by (simp add: ordered_receipts_def)
  have "inj_on ?f (set ?m)"
  proof (rule inj_onI)
    fix x y assume "x \<in> set ?m" "y \<in> set ?m" "?f x = ?f y"
    then have "fst x = fst y" "map_of ?m (fst x) = Some (snd x)" "map_of ?m (fst y) = Some (snd y)"
      using rc at by (simp_all add: receipts_ok_def)
    then show "x = y" by (simp add: prod_eq_iff)
  qed
  moreover have "distinct (ordered_receipts s)" using dist' by (simp add: distinct_map)
  ultimately have "distinct (map ?f (ordered_receipts s))"
    by (simp add: distinct_map ordered_receipts_def)
  moreover have "sorted (map ?f (ordered_receipts s))" by (simp add: ordered_receipts_def)
  ultimately have "sorted_wrt (<) (map ?f (ordered_receipts s))"
    unfolding strict_sorted_iff by blast
  then show "sorted_wrt (\<lambda>x y. rc_index (snd x) < rc_index (snd y)) (ordered_receipts s)"
    by (simp add: sorted_wrt_map)
qed

lemma list_all_mapI: "(\<And>x. x \<in> set xs \<Longrightarrow> P (f x)) \<Longrightarrow> list_all P (map f xs)"
  by (auto simp: list_all_iff)

lemma snapshot_words_ok:
  assumes "domain_ok s" "log_ok s" "dash_free s"
  shows "\<forall>ws\<in>set (snapshot_words s). ws \<noteq> [] \<and> list_all word_ok ws"
proof -
  let ?ok = "\<lambda>ws. ws \<noteq> [] \<and> list_all word_ok ws"
  have cues: "?ok (cue_words key x)"
    if "x \<in> set (st_music s) \<or> x \<in> set (st_lighting s)" "word_ok key" for key x
    using cue_facts [OF assms(1, 3), of "fst x" "snd x"] that
    by (cases "cs_depends (snd x)") (simp_all add: cue_words_def text_of_def)
  have "list_all ?ok (header_words s)"
    using assms(1)
    by (auto simp: header_words_def text_of_def overlap_policy_name_def domain_ok_def header_ok_def
        split: option.splits)
  moreover have "?ok (dancer_words x)" if "x \<in> set (st_dancers s)" for x
    using dancer_facts [OF assms(1), of "fst x" "snd x"] that by (simp add: dancer_words_def)
  then have "list_all ?ok (map dancer_words (st_dancers s))" by (rule list_all_mapI)
  moreover have "?ok (formation_words x)" if "x \<in> set (st_formations s)" for x
    using formation_facts [OF assms(1), of "fst x" "snd x"] that
    by (simp add: formation_words_def list_all_iff)
  then have "list_all ?ok (map formation_words (st_formations s))" by (rule list_all_mapI)
  moreover have "list_all ?ok (map (cue_words ''music'') (st_music s))" "list_all ?ok (map (cue_words ''light'') (st_lighting s))"
    by (rule list_all_mapI, simp add: cues)+
  moreover have "list_all ?ok (receipt_words c t xs)" if "\<forall>x\<in>set xs. id_ok (fst x)" for c t xs
    using that by (induction c t xs rule: receipt_words.induct) simp_all
  then have "list_all ?ok (receipt_words 0 1 (ordered_receipts s))"
    using receipt_facts(3) [OF assms(2)] by blast
  moreover have "id_ok (fst x)" if "x \<in> set (st_applied_commands s)" for x
  proof -
    have sorted: "logs_sorted s" using assms(2) by (simp add: log_ok_def)
    then have "map_of (st_applied_commands s) (fst x) = Some (snd x)"
      using that by (simp add: logs_sorted_def in_smap [symmetric])
    then show ?thesis using sorted by (simp add: logs_sorted_def)
  qed
  then have "list_all ?ok (map (\<lambda>x. [''legacy'', fst x]) (filter (is_legacy s) (st_applied_commands s)))"
    by (simp add: list_all_iff)
  ultimately have "list_all ?ok (snapshot_words s)"
    unfolding snapshot_words_def list_all_append by blast
  then show ?thesis unfolding list_all_iff by blast
qed

section \<open>Reading the payload back\<close>

definition header_state :: "ChoreographyState \<Rightarrow> ChoreographyState" where
  "header_state s =
     initial_state\<lparr>st_created := st_created s, st_id := st_id s, st_stage := st_stage s,
       st_overlap := st_overlap s, st_max_travel := st_max_travel s,
       st_last_applied := st_last_applied s, st_term := st_term s\<rparr>"

definition reading :: "ChoreographyState \<Rightarrow> Restore" where
  "reading s = \<lparr>rs_state = s, rs_header = True, rs_version = ''3'', rs_index = 0, rs_term = 1\<rparr>"

lemma reading_simps [simp]:
  "rs_header (reading s)" "rs_version (reading s) = ''3''" "rs_state (reading s) = s"
  "rs_index (reading s) = 0" "rs_term (reading s) = 1" "reading s\<lparr>rs_state := t\<rparr> = reading t"
  by (simp_all add: reading_def)

lemma restore_first_line:
  "restore_line \<lparr>rs_state = s, rs_header = False, rs_version = [], rs_index = 0, rs_term = 1\<rparr>
     (line_text [''snapshot-state'', ''3'']) = Inr (reading s)"
  by (simp add: restore_line_def read_first_word reading_def) (simp add: line_text_def)

lemma show_nat_not_dash [simp]: "show_nat n \<noteq> ''-''"
proof
  assume "show_nat n = ''-''"
  then have "is_digit CHR ''-''" using hd_show_nat [of n] by simp
  then show False by (simp add: is_digit_def)
qed

lemma restore_header:
  assumes "header_ok s" "dash_free s"
  shows "foldE restore_line \<lparr>rs_state = initial_state, rs_header = False, rs_version = [], rs_index = 0, rs_term = 1\<rparr>
    (map line_text (header_words s)) = Inr (reading (header_state s))"
proof -
  have choreo: "restore_line (reading t) (line_text [''choreography'', text_of (st_id s) ''-'']) =
      Inr (reading (if st_id s = None then t else t\<lparr>st_id := st_id s\<rparr>))" for t
    using assms
    by (cases "st_id s")
      (simp_all add: restore_line_words restore_key_def restore_choreography_def text_of_def dash_free_def header_ok_def)
  have stage: "restore_line (reading t) (line_text (case st_stage s of
        Some b \<Rightarrow> [''stage'', show_int (width b), show_int (depth b)] | None \<Rightarrow> [''stage'', ''-''])) =
      Inr (reading (if st_stage s = None then t else t\<lparr>st_stage := st_stage s\<rparr>))" for t
  proof (cases "st_stage s")
    case (Some b)
    then have "bounds_ok b" using assms(1) by (simp add: header_ok_def)
    moreover from this have "show_int (width b) \<noteq> ''-''" "- 2147483648 \<le> width b" "width b < 2147483648"
      "- 2147483648 \<le> depth b" "depth b < 2147483648"
      by (auto simp: show_int_def bounds_ok_def)
    ultimately show ?thesis
      by (simp add: Some restore_line_words restore_key_def restore_stage_def)
  qed (simp add: restore_line_words restore_key_def restore_stage_def)
  have overlap: "restore_line (reading t) (line_text [''overlap'', overlap_policy_name (st_overlap s)]) =
      Inr (reading (t\<lparr>st_overlap := st_overlap s\<rparr>))" for t
  proof -
    have "word_ok (overlap_policy_name (st_overlap s))" by (simp add: overlap_policy_name_def)
    then show ?thesis by (simp add: restore_line_words restore_key_def restore_overlap_def)
  qed
  have "st_term s \<noteq> 0" "0 \<le> st_max_travel s" "st_max_travel s < 2147483648"
    using assms(1) by (auto simp: header_ok_def)
  then show ?thesis
    by (simp add: header_words_def restore_first_line choreo stage overlap restore_line_words restore_key_def
        restore_schema_def restore_created_def restore_max_travel_def restore_last_applied_def restore_term_def
        parse_term_def header_state_def initial_state_def)
qed

lemma restore_maps:
  assumes "domain_ok s" "dash_free s"
  shows "foldE restore_line (reading (header_state s)) (map line_text
      (map dancer_words (st_dancers s) @ map formation_words (st_formations s) @
       map (cue_words ''music'') (st_music s) @ map (cue_words ''light'') (st_lighting s))) =
    Inr (reading (domain_copy s))"
proof -
  have sorted: "sm_ok (st_dancers s)" "sm_ok (st_formations s)" "sm_ok (st_music s)" "sm_ok (st_lighting s)"
    using domain_parts [OF assms(1)] by (simp_all add: formations_ok_def cues_ok_def)
  have dancers: "foldE restore_line (reading t) (map line_text (map dancer_words (st_dancers s))) =
      Inr (reading (t\<lparr>st_dancers := st_dancers s\<rparr>))" if "st_dancers t = []" for t
    using restore_lines_fold [of "st_dancers s" dancer_words "\<lambda>f s. s\<lparr>st_dancers := f (st_dancers s)\<rparr>" "reading t"]
      dancer_facts [OF assms(1)] restore_dancer_line that
    by (auto simp: rebuild_map sorted)
  have formations: "foldE restore_line (reading t) (map line_text (map formation_words (st_formations s))) =
      Inr (reading (t\<lparr>st_formations := st_formations s\<rparr>))" if "st_formations t = []" for t
    using restore_lines_fold [of "st_formations s" formation_words "\<lambda>f s. s\<lparr>st_formations := f (st_formations s)\<rparr>" "reading t"]
      formation_facts [OF assms(1)] restore_formation_line that
    by (auto simp: rebuild_map sorted)
  note music_facts = cue_facts [OF assms disjI1] and lighting_facts = cue_facts [OF assms disjI2]
  have music: "foldE restore_line (reading t) (map line_text (map (cue_words ''music'') (st_music s))) =
      Inr (reading (t\<lparr>st_music := st_music s\<rparr>))" if "st_music t = []" for t
    using restore_lines_fold [of "st_music s" "cue_words ''music''" "\<lambda>f s. s\<lparr>st_music := f (st_music s)\<rparr>" "reading t"]
      music_facts restore_cue_line(1) that
    by (auto simp: rebuild_map sorted)
  have lighting: "foldE restore_line (reading t) (map line_text (map (cue_words ''light'') (st_lighting s))) =
      Inr (reading (t\<lparr>st_lighting := st_lighting s\<rparr>))" if "st_lighting t = []" for t
    using restore_lines_fold [of "st_lighting s" "cue_words ''light''" "\<lambda>f s. s\<lparr>st_lighting := f (st_lighting s)\<rparr>" "reading t"]
      lighting_facts restore_cue_line(2) that
    by (auto simp: rebuild_map sorted)
  show ?thesis
    by (simp add: foldE_append dancers formations music lighting header_state_def initial_state_def
        del: map_map)
qed


definition add_command :: "string \<Rightarrow> ChoreographyState \<Rightarrow> ChoreographyState" where
  "add_command c s = s\<lparr>st_applied_commands := sm_assign c c (st_applied_commands s)\<rparr>"

lemma restore_legacy_lines:
  assumes "rs_header rs" "rs_version rs = ''3''" "distinct cs"
    and "\<forall>c\<in>set cs. id_ok c \<and> map_of (st_applied_commands (rs_state rs)) c = None"
  shows "foldE restore_line rs (map line_text (map (\<lambda>c. [''legacy'', c]) cs)) =
    Inr (on_state (fold add_command cs) rs)"
  using assms
proof (induction cs arbitrary: rs)
  case (Cons c cs)
  have "restore_line rs (line_text [''legacy'', c]) = Inr (on_state (add_command c) rs)"
    using Cons.prems by (simp add: restore_line_words restore_key_def restore_legacy_def add_command_def)
  moreover have "\<forall>d\<in>set cs. id_ok d \<and> map_of (st_applied_commands (add_command c (rs_state rs))) d = None"
    using Cons.prems(3, 4) by (auto simp: add_command_def)
  ultimately show ?case
    using Cons.IH [of "on_state (add_command c) rs"] Cons.prems by simp
qed simp

lemma fold_add_receipt:
  "st_receipts (fold add_receipt xs s) = sm_merge (st_receipts s) xs"
  "map_of (st_applied_commands (fold add_receipt xs s)) c =
     (if c \<in> fst ` set xs then Some c else map_of (st_applied_commands s) c)"
  "domain_copy (fold add_receipt xs s) = domain_copy s"
  by (induction xs arbitrary: s)
    (auto simp: sm_merge_def add_receipt_def domain_copy_def)

lemma fold_add_command:
  "st_receipts (fold add_command cs s) = st_receipts s"
  "map_of (st_applied_commands (fold add_command cs s)) c =
     (if c \<in> set cs then Some c else map_of (st_applied_commands s) c)"
  "domain_copy (fold add_command cs s) = domain_copy s"
  by (induction cs arbitrary: s) (auto simp: add_command_def domain_copy_def)

definition legacy_ids :: "ChoreographyState \<Rightarrow> string list" where
  "legacy_ids s = map fst (filter (is_legacy s) (st_applied_commands s))"

definition restored :: "ChoreographyState \<Rightarrow> ChoreographyState" where
  "restored s = fold add_command (legacy_ids s) (fold add_receipt (ordered_receipts s) (domain_copy s))"

lemma legacy_ids_facts:
  assumes "log_ok s"
  shows "distinct (legacy_ids s)" "\<forall>c\<in>set (legacy_ids s). id_ok c \<and> map_of (st_receipts s) c = None"
    and "c \<in> set (legacy_ids s) \<longleftrightarrow>
      map_of (st_receipts s) c = None \<and> (\<exists>i. map_of (st_applied_commands s) c = Some i \<and> take 5 i \<noteq> ''noop-'')"
proof -
  have ok: "sm_ok (st_applied_commands s)" and ids: "\<And>c i. map_of (st_applied_commands s) c = Some i \<Longrightarrow> id_ok c"
    using assms by (auto simp: log_ok_def logs_sorted_def)
  show "distinct (legacy_ids s)"
    using sm_ok_distinct [OF ok] by (simp add: legacy_ids_def distinct_map inj_on_def)
  have mem: "c \<in> set (legacy_ids s) \<longleftrightarrow>
      map_of (st_receipts s) c = None \<and> (\<exists>i. map_of (st_applied_commands s) c = Some i \<and> take 5 i \<noteq> ''noop-'')"
    for c
    by (auto simp: legacy_ids_def is_legacy_def image_iff Bex_def in_smap [OF ok])
  show "c \<in> set (legacy_ids s) \<longleftrightarrow>
      map_of (st_receipts s) c = None \<and> (\<exists>i. map_of (st_applied_commands s) c = Some i \<and> take 5 i \<noteq> ''noop-'')"
    by (rule mem)
  show "\<forall>c\<in>set (legacy_ids s). id_ok c \<and> map_of (st_receipts s) c = None"
    using mem ids by blast
qed

lemma restore_snapshot:
  assumes "domain_ok s" "log_ok s" "dash_free s"
  shows "restore_state (snapshot_payload s) = Inr (restored s)"
proof -
  let ?r0 = "reading (domain_copy s)"
  note receipts = receipt_facts [OF assms(2)] and legacy = legacy_ids_facts [OF assms(2)]
  obtain ix tm where rc: "foldE restore_line ?r0 (map line_text (receipt_words 0 1 (ordered_receipts s))) =
      Inr ((on_state (fold add_receipt (ordered_receipts s)) ?r0)\<lparr>rs_index := ix, rs_term := tm\<rparr>)"
    using restore_receipts [of ?r0 "ordered_receipts s"] receipts by auto
  let ?r1 = "(on_state (fold add_receipt (ordered_receipts s)) ?r0)\<lparr>rs_index := ix, rs_term := tm\<rparr>"
  have "c \<notin> fst ` set (ordered_receipts s)" if "c \<in> set (legacy_ids s)" for c
    using that legacy(2) receipts(4) by (metis map_of_eq_None_iff)
  then have lg: "foldE restore_line ?r1 (map line_text (map (\<lambda>c. [''legacy'', c]) (legacy_ids s))) =
      Inr (on_state (fold add_command (legacy_ids s)) ?r1)"
    using legacy by (intro restore_legacy_lines) (simp_all add: fold_add_receipt)
  have words: "map (\<lambda>x. [''legacy'', fst x]) (filter (is_legacy s) (st_applied_commands s)) =
      map (\<lambda>c. [''legacy'', c]) (legacy_ids s)"
    by (simp add: legacy_ids_def)
  have hd: "header_ok s" using assms(1) by (simp add: domain_ok_def)
  have split: "snapshot_words s = header_words s @
      (map dancer_words (st_dancers s) @ map formation_words (st_formations s) @
       map (cue_words ''music'') (st_music s) @ map (cue_words ''light'') (st_lighting s)) @
      receipt_words 0 1 (ordered_receipts s) @ map (\<lambda>c. [''legacy'', c]) (legacy_ids s)"
    by (simp only: snapshot_words_def words append_assoc)
  have "foldE restore_line \<lparr>rs_state = initial_state, rs_header = False, rs_version = [], rs_index = 0, rs_term = 1\<rparr>
      (map line_text (snapshot_words s)) = Inr (on_state (fold add_command (legacy_ids s)) ?r1)"
    unfolding split map_append [of line_text] foldE_append restore_header [OF hd assms(3)] bindE_simps
      restore_maps [OF assms(1, 3), unfolded map_append [of line_text] foldE_append] rc lg ..
  then show ?thesis
    unfolding restore_state_def header_text split_lines [OF snapshot_words_ok [OF assms]]
    by (simp add: restored_def)
qed


lemma restored_facts:
  assumes "log_ok s"
  shows "domain_copy (restored s) = domain_copy s" "st_receipts (restored s) = st_receipts s"
    and "map_of (st_applied_commands (restored s)) c \<noteq> None \<longleftrightarrow>
      map_of (st_receipts s) c \<noteq> None \<or> (\<exists>i. map_of (st_applied_commands s) c = Some i \<and> take 5 i \<noteq> ''noop-'')"
proof -
  note receipts = receipt_facts [OF assms] and legacy = legacy_ids_facts [OF assms]
  have "sm_ok (st_receipts s)" using assms by (simp add: log_ok_def logs_sorted_def)
  then have "sm_merge [] (ordered_receipts s) = st_receipts s"
    by (intro sm_eqI) (simp_all add: find_merge fun_eq_iff receipts(4))
  then show "st_receipts (restored s) = st_receipts s"
    by (simp add: restored_def fold_add_command fold_add_receipt)
  show "domain_copy (restored s) = domain_copy s"
    by (simp add: restored_def fold_add_command fold_add_receipt)
  have "c \<in> fst ` set (ordered_receipts s) \<longleftrightarrow> map_of (st_receipts s) c \<noteq> None"
    using receipts(4) by (metis map_of_eq_None_iff)
  then show "map_of (st_applied_commands (restored s)) c \<noteq> None \<longleftrightarrow>
      map_of (st_receipts s) c \<noteq> None \<or> (\<exists>i. map_of (st_applied_commands s) c = Some i \<and> take 5 i \<noteq> ''noop-'')"
    using legacy(3) [of c] by (auto simp: restored_def fold_add_command fold_add_receipt)
qed

lemma canonical_state_domain: "canonical_state (domain_copy s) = canonical_state s"
  by (simp add: canonical_state_def)

lemma state_hash_cong: "domain_copy t = domain_copy s \<Longrightarrow> state_hash t = state_hash s"
  by (metis canonical_state_domain state_hash_def)

text \<open>
  (C21) A snapshot restores the state it was taken from: for every well-formed state in which no
  choreography and no cue dependency is called \<open>-\<close>, \<open>restore_state\<close> succeeds on the payload, gives
  back the choreography, the log position, the term and all receipts, keeps exactly the command ids
  that are not leadership markers, and the restored state has the hash of the original.
\<close>

theorem snapshot_round_trip:
  assumes "domain_ok s" "log_ok s" "dash_free s"
  shows "\<exists>t. restore_state (snapshot_payload s) = Inr t \<and> domain_copy t = domain_copy s \<and>
    st_receipts t = st_receipts s \<and> state_hash t = state_hash s \<and>
    (\<forall>c. map_of (st_applied_commands t) c \<noteq> None \<longleftrightarrow>
       map_of (st_receipts s) c \<noteq> None \<or> (\<exists>i. map_of (st_applied_commands s) c = Some i \<and> take 5 i \<noteq> ''noop-''))"
  using restore_snapshot [OF assms] restored_facts [OF assms(2)] state_hash_cong by blast

theorem snapshot_round_trip_witness:
  "\<exists>s t. replay sample_log None None = Inr s \<and> restore_state (snapshot_payload s) = Inr t \<and>
     domain_copy t = domain_copy s \<and> state_hash t = state_hash s"
proof -
  obtain en where en: "foldE engine_step empty_engine (map Commit sample_log) = Inr en"
    using sample_engine by blast
  have ok: "domain_ok (en_state en)" "log_ok (en_state en)"
    using engine_run_ok [OF empty_engine_ok sample_ops_ok en] by (simp_all add: engine_ok_def)
  have run: "foldE (\<lambda>s e. apply_state s e Contiguous) initial_state sample_log = Inr (en_state en)"
    using commits_are_applies [OF en [unfolded commits_run]] by (simp add: empty_engine_def)
  then have replay: "replay sample_log None None = Inr (en_state en)"
    by (simp add: replay_def through_def)
  moreover have "dash_free (en_state en)"
    using run [symmetric]
    by (simp add: sample_log_def plain_event_def eval_machine dash_free_def find_cue_def)
  ultimately show ?thesis using snapshot_round_trip [OF ok] by blast
qed

text \<open>A choreography called \<open>-\<close> is a valid identifier, but its snapshot is that of a state with no
  identifier at all, while the canonical texts of the two states differ.\<close>

lemma dash_identifier_lost:
  "id_ok ''-'' \<and>
   snapshot_payload (s\<lparr>st_id := Some ''-''\<rparr>) = snapshot_payload (s\<lparr>st_id := None\<rparr>) \<and>
   canonical_state (s\<lparr>st_id := Some ''-''\<rparr>) \<noteq> canonical_state (s\<lparr>st_id := None\<rparr>)"
  by (simp add: snapshot_payload_def canonical_state_def text_of_def eval_ids ordered_receipts_def
      is_legacy_def [abs_def] show_u16_def)

end
