(* ===== verification/Store_Files.thy ===== *)
theory Store_Files
  imports Snapshot_Round_Trip File_Ops
begin

text \<open>
  The two other files of a node's data directory: the metadata file (\<open>storage/metadata.cpp\<close>) with term,
  vote and commit index, and the snapshot files (\<open>storage/snapshot.cpp\<close>). What the disk reports, an
  inspection that fails, a missing file or its bytes, is an argument. A directory is the list of its
  entries in the arbitrary order in which it is enumerated.
\<close>

section \<open>Metadata\<close>

record NodeMetadata =
  md_term :: u64
  md_commit_index :: u64
  md_voted_for :: "string option"

definition initial_metadata :: NodeMetadata where
  "initial_metadata = \<lparr>md_term = 1, md_commit_index = 0, md_voted_for = None\<rparr>"

definition parse_metadata :: "string \<Rightarrow> NodeMetadata Result" where
  "parse_metadata bytes =
     (if length bytes < 32 then fail StoreError ''metadata file is incomplete''
      else if take 8 bytes \<noteq> ''CHOSMETA'' then fail StoreError ''metadata magic is invalid''
      else if get_u16 bytes 8 \<noteq> 1 then fail StoreError ''metadata version is unsupported''
      else let voted_len = unat (get_u16 bytes 10) in
      if 64 < voted_len \<or> length bytes \<noteq> 32 + voted_len then fail StoreError ''metadata length is invalid''
      else if crc32 (take (length bytes - 4) bytes) \<noteq> get_u32 bytes (length bytes - 4)
      then fail StoreError ''metadata checksum mismatch''
      else case (parse_term (get_u64 bytes 12), parse_log_index (get_u64 bytes 20)) of
        (Inr term', Inr commit) \<Rightarrow>
          let metadata = \<lparr>md_term = term', md_commit_index = commit, md_voted_for = None\<rparr> in
          if 0 < voted_len
          then bindE (parse_id (sub_bytes bytes 28 voted_len)) (\<lambda>voted. Inr (metadata\<lparr>md_voted_for := Some voted\<rparr>))
          else Inr metadata
      | _ \<Rightarrow> fail StoreError ''metadata contains an invalid term or index'')"

definition load_metadata :: "string + string Result option \<Rightarrow> NodeMetadata Result" where
  "load_metadata found =
     (case found of
        Inl why \<Rightarrow> fail StoreError (''unable to inspect metadata: '' @ why)
      | Inr None \<Rightarrow> Inr initial_metadata
      | Inr (Some bytes) \<Rightarrow> bindE bytes parse_metadata)"

definition encode_metadata :: "NodeMetadata \<Rightarrow> string Result" where
  "encode_metadata metadata =
     (let voted = (case md_voted_for metadata of Some v \<Rightarrow> v | None \<Rightarrow> []) in
      if 64 < length voted then fail StoreError ''voted_for exceeds 64 characters''
      else let
        bytes = zeros (32 + length voted);
        bytes = put bytes 0 ''CHOSMETA'';
        bytes = write_u16 bytes 8 1;
        bytes = write_u16 bytes 10 (of_nat (length voted));
        bytes = write_u64 bytes 12 (md_term metadata);
        bytes = write_u64 bytes 20 (md_commit_index metadata);
        bytes = (if voted \<noteq> [] then put bytes 28 voted else bytes)
      in Inr (write_u32 bytes (length bytes - 4) (crc32 (take (length bytes - 4) bytes))))"

definition store_metadata ::
  "io_fault \<Rightarrow> string \<Rightarrow> string \<Rightarrow> string option \<Rightarrow> NodeMetadata \<Rightarrow> bool \<Rightarrow> bool option \<Rightarrow> string option \<times> unit Result" where
  "store_metadata fault parent path old metadata sync sync_dir =
     (case encode_metadata metadata of
        Inl e \<Rightarrow> (old, Inl e)
      | Inr bytes \<Rightarrow> write_atomic fault parent path old bytes sync sync_dir)"

section \<open>Snapshots\<close>

record Snapshot =
  ss_index :: u64
  ss_term :: u64
  ss_state_hash :: string
  ss_events :: "Event list"
  ss_state_payload :: string

definition legacy :: "Snapshot \<Rightarrow> bool" where
  "legacy snapshot \<longleftrightarrow> ss_state_payload snapshot = []"

definition verify_snapshot :: "Snapshot \<Rightarrow> ChoreographyState Result" where
  "verify_snapshot snapshot =
     bindE (if legacy snapshot then replay (ss_events snapshot) None None
            else restore_state (ss_state_payload snapshot)) (\<lambda>state.
     if state_hash state \<noteq> ss_state_hash snapshot \<or> st_last_applied state \<noteq> ss_index snapshot
        \<or> st_term state \<noteq> ss_term snapshot
     then fail StoreError ''snapshot state hash does not match its contents''
     else Inr state)"

definition read_snapshot :: "string \<Rightarrow> Snapshot Result" where
  "read_snapshot bytes =
     (if length bytes < 52 then fail StoreError ''snapshot is incomplete''
      else if take 8 bytes \<noteq> ''CHOSSNAP'' then fail StoreError ''snapshot magic is invalid''
      else let format = get_u16 bytes 8 in
      if format \<noteq> 1 \<and> format \<noteq> 2 \<or> get_u16 bytes 10 \<noteq> kCurrentSchemaVersion
      then fail StoreError ''snapshot version is unsupported''
      else let payload_len = unat (get_u32 bytes 44) in
      if length bytes \<noteq> 52 + payload_len then fail StoreError ''snapshot length is invalid''
      else if crc32 (take (length bytes - 4) bytes) \<noteq> get_u32 bytes (length bytes - 4)
      then fail StoreError ''snapshot checksum mismatch''
      else case (parse_log_index (get_u64 bytes 12), parse_term (get_u64 bytes 20)) of
        (Inr index, Inr term') \<Rightarrow>
          let payload = sub_bytes bytes 48 payload_len;
              snapshot = \<lparr>ss_index = index, ss_term = term', ss_state_hash = sub_bytes bytes 28 16,
                ss_events = [], ss_state_payload = []\<rparr> in
          bindE (if format = 2 then Inr (snapshot\<lparr>ss_state_payload := payload\<rparr>)
                 else bindE (foldE (\<lambda>events line. if line = [] then Inr events
                       else bindE (parse_event line) (\<lambda>event. Inr (events @ [event]))) [] (getline_split CHR 0x0A payload))
                   (\<lambda>events. Inr (snapshot\<lparr>ss_events := events\<rparr>))) (\<lambda>snapshot.
          bindE (verify_snapshot snapshot) (\<lambda>_. Inr snapshot))
      | _ \<Rightarrow> fail StoreError ''snapshot index or term is invalid'')"

definition encode_snapshot :: "ChoreographyState \<Rightarrow> string Result" where
  "encode_snapshot state =
     (let payload = snapshot_payload state; hash = state_hash state in
      if length hash \<noteq> 16 then fail StoreError ''state hash must be 16 hex characters''
      else if 4294967295 - 64 < length payload then fail StoreError ''snapshot payload is too large''
      else let
        bytes = zeros (52 + length payload);
        bytes = put bytes 0 ''CHOSSNAP'';
        bytes = write_u16 bytes 8 2;
        bytes = write_u16 bytes 10 kCurrentSchemaVersion;
        bytes = write_u64 bytes 12 (st_last_applied state);
        bytes = write_u64 bytes 20 (st_term state);
        bytes = put bytes 28 hash;
        bytes = write_u32 bytes 44 (of_nat (length payload));
        bytes = (if payload \<noteq> [] then put bytes 48 payload else bytes)
      in Inr (write_u32 bytes (length bytes - 4) (crc32 (take (length bytes - 4) bytes))))"

section \<open>The snapshot directory\<close>

definition snapshot_name :: "u64 \<Rightarrow> string" where
  "snapshot_name index = (let digits = show_u64 index in replicate (16 - length digits) CHR ''0'' @ digits @ ''.snap'')"

text \<open>\<open>made\<close> says whether the directory could be created; the result is the new snapshot file, if any.\<close>

definition save_snapshot ::
  "bool \<Rightarrow> io_fault \<Rightarrow> io_fault \<Rightarrow> string \<Rightarrow> string option \<Rightarrow> ChoreographyState \<Rightarrow> bool \<Rightarrow> string option \<times> unit Result" where
  "save_snapshot made dir_fault fault directory old state sync =
     (case encode_snapshot state of
        Inl e \<Rightarrow> (old, Inl e)
      | Inr bytes \<Rightarrow>
          if \<not> made then (old, fail StoreError ''unable to create snapshot directory'')
          else case (if sync then sync_directory dir_fault directory else Inr ()) of
            Inl e \<Rightarrow> (old, Inl e)
          | Inr _ \<Rightarrow>
              write_atomic fault (directory @ ''/snapshots'')
                (directory @ ''/snapshots/'' @ snapshot_name (st_last_applied state)) old bytes sync None)"

definition from_chars_u64 :: "string \<Rightarrow> u64 option" where
  "from_chars_u64 s = (if s = [] \<or> \<not> list_all is_digit s \<or> 2 ^ 64 \<le> read_nat s then None else Some (of_nat (read_nat s)))"

text \<open>The stem of a file with extension \<open>.snap\<close>, read as an index.\<close>

definition snapshot_stem :: "string \<Rightarrow> string option" where
  "snapshot_stem name =
     (if 5 < length name \<and> drop (length name - 5) name = ''.snap'' then Some (take (length name - 5) name) else None)"

definition snapshot_index :: "string \<Rightarrow> u64 option" where
  "snapshot_index name = (case snapshot_stem name of None \<Rightarrow> None | Some stem \<Rightarrow> from_chars_u64 stem)"

text \<open>The snapshot files of a directory in descending order of their names.\<close>

definition snapshot_files :: "string list \<Rightarrow> string list" where
  "snapshot_files names = rev (sort (filter (\<lambda>name. snapshot_index name \<noteq> None) names))"

text \<open>
  \<open>Inl\<close> is an enumeration that fails, \<open>None\<close> a missing directory; \<open>contents\<close> is what reading a file
  of it gives.
\<close>

fun first_readable :: "(string \<Rightarrow> string Result) \<Rightarrow> string list \<Rightarrow> Snapshot option" where
  "first_readable contents [] = None"
| "first_readable contents (name # names) =
     (case bindE (contents name) read_snapshot of
        Inr snapshot \<Rightarrow> Some snapshot
      | Inl _ \<Rightarrow> first_readable contents names)"

definition load_latest_snapshot :: "string + string list option \<Rightarrow> (string \<Rightarrow> string Result) \<Rightarrow> Snapshot option Result" where
  "load_latest_snapshot folder contents =
     (case folder of
        Inl why \<Rightarrow> fail StoreError (''unable to enumerate snapshots: '' @ why)
      | Inr None \<Rightarrow> Inr None
      | Inr (Some names) \<Rightarrow> Inr (first_readable contents (snapshot_files names)))"

record PruneResult =
  remaining :: nat
  oldest_index :: u64

text \<open>\<open>stuck\<close> are the files whose removal fails; a leftover is ignored.\<close>

definition prune_snapshots ::
  "string + string list option \<Rightarrow> (string \<Rightarrow> bool) \<Rightarrow> nat \<Rightarrow> string list option \<times> PruneResult Result" where
  "prune_snapshots folder stuck keep =
     (case folder of
        Inl why \<Rightarrow> (None, fail StoreError (''unable to prune snapshots: '' @ why))
      | Inr None \<Rightarrow> (None, Inr \<lparr>remaining = 0, oldest_index = 0\<rparr>)
      | Inr (Some names) \<Rightarrow>
          let files = snapshot_files names;
              left = filter (\<lambda>name. name \<notin> set (drop keep files) \<or> stuck name) names;
              count = min keep (length files) in
          (Some left,
           if 0 < count then
             (case snapshot_index (files ! (count - 1)) of
                None \<Rightarrow> fail StoreError ''invalid snapshot index''
              | Some index \<Rightarrow> Inr \<lparr>remaining = count, oldest_index = index\<rparr>)
           else Inr \<lparr>remaining = 0, oldest_index = 0\<rparr>))"

end
