(* ===== verification/Store_Recovery.thy ===== *)
theory Store_Recovery
  imports Store_Files
begin

text \<open>
  Metadata and snapshot files read back what was stored and reject every single damaged byte, and the
  newest readable snapshot of a directory is the one that recovery uses.
\<close>

section \<open>Metadata\<close>

definition voted_text :: "NodeMetadata \<Rightarrow> string" where
  "voted_text m = (case md_voted_for m of Some v \<Rightarrow> v | None \<Rightarrow> [])"

definition metadata_header :: "NodeMetadata \<Rightarrow> string" where
  "metadata_header m = ''CHOSMETA'' @ le_bytes 2 (1 :: u16) @ le_bytes 2 (of_nat (length (voted_text m)) :: u16)
     @ le_bytes 8 (md_term m) @ le_bytes 8 (md_commit_index m)"

definition metadata_bytes :: "NodeMetadata \<Rightarrow> string" where
  "metadata_bytes m = (let body = metadata_header m @ voted_text m in body @ le_bytes 4 (crc32 body))"

definition metadata_ok :: "NodeMetadata \<Rightarrow> bool" where
  "metadata_ok m \<longleftrightarrow> md_term m \<noteq> 0 \<and> pred_option id_ok (md_voted_for m)"

lemma length_metadata_header [simp]: "length (metadata_header m) = 28"
  by (simp add: metadata_header_def)

lemma encode_metadata_layout:
  assumes "length (voted_text m) \<le> 64"
  shows "encode_metadata m = Inr (metadata_bytes m)"
proof -
  let ?v = "voted_text m" and ?len = "of_nat (length (voted_text m)) :: u16"
  have 1: "put (zeros (32 + length ?v)) 0 ''CHOSMETA'' = ''CHOSMETA'' @ zeros (length ?v + 24)"
    by (simp add: put_first add.commute)
  have 2: "write_u16 (''CHOSMETA'' @ zeros (length ?v + 24)) 8 1 = (''CHOSMETA'' @ le_bytes 2 (1 :: u16)) @ zeros (length ?v + 22)"
    by (subst write_zeros) (simp_all add: add.commute)
  have 3: "write_u16 ((''CHOSMETA'' @ le_bytes 2 (1 :: u16)) @ zeros (length ?v + 22)) 10 ?len
      = (''CHOSMETA'' @ le_bytes 2 (1 :: u16) @ le_bytes 2 ?len) @ zeros (length ?v + 20)"
    by (subst write_zeros) (simp_all add: add.commute)
  have 4: "write_u64 ((''CHOSMETA'' @ le_bytes 2 (1 :: u16) @ le_bytes 2 ?len) @ zeros (length ?v + 20)) 12 (md_term m)
      = (''CHOSMETA'' @ le_bytes 2 (1 :: u16) @ le_bytes 2 ?len @ le_bytes 8 (md_term m)) @ zeros (length ?v + 12)"
    by (subst write_zeros) (simp_all add: add.commute)
  have 5: "write_u64 ((''CHOSMETA'' @ le_bytes 2 (1 :: u16) @ le_bytes 2 ?len @ le_bytes 8 (md_term m))
      @ zeros (length ?v + 12)) 20 (md_commit_index m) = metadata_header m @ zeros (length ?v + 4)"
    by (subst write_zeros) (simp_all add: add.commute metadata_header_def)
  have 6: "(if ?v \<noteq> [] then put (metadata_header m @ zeros (length ?v + 4)) 28 ?v
      else metadata_header m @ zeros (length ?v + 4)) = (metadata_header m @ ?v) @ zeros 4"
    by (simp add: put_zeros)
  have 7: "write_u32 ((metadata_header m @ ?v) @ zeros 4) (length ((metadata_header m @ ?v) @ zeros 4) - 4) c
      = (metadata_header m @ ?v) @ le_bytes 4 c" for c
    by (subst write_zeros) simp_all
  have 8: "take (length ((metadata_header m @ ?v) @ zeros 4) - 4) ((metadata_header m @ ?v) @ zeros 4) = metadata_header m @ ?v"
    by simp
  show ?thesis
    using assms unfolding encode_metadata_def voted_text_def [symmetric] Let_def 1 2 3 4 5 6 7 8
    by (simp add: metadata_bytes_def Let_def)
qed

lemma metadata_fields:
  "take 8 (metadata_header m @ post) = ''CHOSMETA''"
  "get_u16 (metadata_header m @ post) 8 = 1"
  "get_u16 (metadata_header m @ post) 10 = of_nat (length (voted_text m))"
  "get_u64 (metadata_header m @ post) 12 = md_term m"
  "get_u64 (metadata_header m @ post) 20 = md_commit_index m"
proof -
  let ?len = "of_nat (length (voted_text m)) :: u16"
  show "take 8 (metadata_header m @ post) = ''CHOSMETA''" by (simp add: metadata_header_def)
  show "get_u16 (metadata_header m @ post) 8 = 1"
    using get_written(1) [of "''CHOSMETA''" 8 1] by (simp add: metadata_header_def)
  show "get_u16 (metadata_header m @ post) 10 = ?len"
    using get_written(1) [of "''CHOSMETA'' @ le_bytes 2 (1 :: u16)" 10 ?len] by (simp add: metadata_header_def)
  show "get_u64 (metadata_header m @ post) 12 = md_term m"
    using get_written(3) [of "''CHOSMETA'' @ le_bytes 2 (1 :: u16) @ le_bytes 2 ?len" 12 "md_term m"]
    by (simp add: metadata_header_def)
  show "get_u64 (metadata_header m @ post) 20 = md_commit_index m"
    using get_written(3) [of "''CHOSMETA'' @ le_bytes 2 (1 :: u16) @ le_bytes 2 ?len @ le_bytes 8 (md_term m)" 20]
    by (simp add: metadata_header_def)
qed

lemma parse_metadata_bytes:
  assumes "metadata_ok m"
  shows "parse_metadata (metadata_bytes m) = Inr m"
proof -
  let ?v = "voted_text m" and ?body = "metadata_header m @ voted_text m"
  have len: "length ?v \<le> 64" using assms by (auto simp: metadata_ok_def voted_text_def id_ok_def split: option.split)
  then have unat: "unat (of_nat (length ?v) :: u16) = length ?v" by (simp add: unat_of_nat)
  have bytes: "metadata_bytes m = metadata_header m @ ?v @ le_bytes 4 (crc32 ?body)"
    by (simp add: metadata_bytes_def Let_def)
  have crc: "get_u32 (metadata_bytes m) (28 + length ?v) = crc32 ?body"
    using get_written(2) [of ?body "28 + length ?v" "crc32 ?body" "[]"] by (simp add: bytes)
  have voted: "sub_bytes (metadata_bytes m) 28 (length ?v) = ?v" by (simp add: bytes sub_bytes_def)
  have size: "length (metadata_bytes m) = 32 + length ?v" by (simp add: bytes)
  have seal: "crc32 (take (28 + length ?v) (metadata_bytes m)) = crc32 ?body" by (simp add: bytes)
  note fields = metadata_fields [of m "?v @ le_bytes 4 (crc32 ?body)", folded bytes]
  have parsed: "parse_metadata (metadata_bytes m) =
      (if 0 < length ?v then bindE (parse_id ?v) (\<lambda>v. Inr \<lparr>md_term = md_term m, md_commit_index = md_commit_index m,
         md_voted_for = Some v\<rparr>)
       else Inr \<lparr>md_term = md_term m, md_commit_index = md_commit_index m, md_voted_for = None\<rparr>)"
    using assms len by (simp add: parse_metadata_def Let_def size fields unat crc seal parse_term_def
        parse_log_index_def metadata_ok_def voted)
  show ?thesis
  proof (cases "md_voted_for m")
    case None
    then show ?thesis unfolding parsed by (cases m) (simp add: voted_text_def)
  next
    case (Some v)
    then have "parse_id ?v = Inr v" "0 < length ?v"
      using assms by (auto simp: metadata_ok_def voted_text_def parse_id_Inr_iff id_ok_def)
    then show ?thesis unfolding parsed using Some by (cases m) simp
  qed
qed

lemma parse_metadata_sealed: "parse_metadata bytes = Inr m \<Longrightarrow> sealed bytes"
  by (auto simp: parse_metadata_def sealed_def Let_def split: if_splits)

interpretation metadata_files: stored_file metadata_ok metadata_bytes parse_metadata
  by unfold_locales (rule parse_metadata_bytes)

lemma voted_short: "metadata_ok m \<Longrightarrow> length (voted_text m) \<le> 64"
  by (auto simp: metadata_ok_def voted_text_def id_ok_def split: option.split)


definition sample_metadata :: "u64 \<Rightarrow> NodeMetadata" where
  "sample_metadata t = \<lparr>md_term = t, md_commit_index = 3, md_voted_for = Some ''n2''\<rparr>"

lemma sample_metadata_ok: "t \<noteq> 0 \<Longrightarrow> metadata_ok (sample_metadata t)"
  by (simp add: metadata_ok_def sample_metadata_def id_ok_def is_allowed_id_char_def is_alnum_def is_digit_def)


section \<open>Snapshot files\<close>

definition snapshot_header :: "ChoreographyState \<Rightarrow> string" where
  "snapshot_header s = ''CHOSSNAP'' @ le_bytes 2 (2 :: u16) @ le_bytes 2 kCurrentSchemaVersion
     @ le_bytes 8 (st_last_applied s) @ le_bytes 8 (st_term s) @ state_hash s
     @ le_bytes 4 (of_nat (length (snapshot_payload s)) :: u32)"

definition snapshot_image :: "ChoreographyState \<Rightarrow> string" where
  "snapshot_image s = (let body = snapshot_header s @ snapshot_payload s in body @ le_bytes 4 (crc32 body))"

definition snapshot_of :: "ChoreographyState \<Rightarrow> Snapshot" where
  "snapshot_of s = \<lparr>ss_index = st_last_applied s, ss_term = st_term s, ss_state_hash = state_hash s,
     ss_events = [], ss_state_payload = snapshot_payload s\<rparr>"

definition storable_state :: "ChoreographyState \<Rightarrow> bool" where
  "storable_state s \<longleftrightarrow> domain_ok s \<and> log_ok s \<and> dash_free s \<and> length (snapshot_payload s) \<le> 4294967295 - 64"

lemma length_hex_digits [simp]: "length (hex_digits n v) = n"
  by (induction n arbitrary: v) simp_all

lemma length_state_hash [simp]: "length (state_hash s) = 16"
  by (simp add: state_hash_def)

lemma length_snapshot_header [simp]: "length (snapshot_header s) = 48"
  by (simp add: snapshot_header_def)

lemma snapshot_payload_nonempty [simp]: "snapshot_payload s \<noteq> []"
  by (simp add: snapshot_payload_def)

lemma encode_snapshot_layout:
  assumes "length (snapshot_payload s) \<le> 4294967295 - 64"
  shows "encode_snapshot s = Inr (snapshot_image s)"
proof -
  let ?p = "snapshot_payload s" and ?len = "of_nat (length (snapshot_payload s)) :: u32"
  let ?a = "''CHOSSNAP'' @ le_bytes 2 (2 :: u16) @ le_bytes 2 kCurrentSchemaVersion"
  have 1: "put (zeros (52 + length ?p)) 0 ''CHOSSNAP'' = ''CHOSSNAP'' @ zeros (length ?p + 44)"
    by (simp add: put_first add.commute)
  have 2: "write_u16 (''CHOSSNAP'' @ zeros (length ?p + 44)) 8 2 = (''CHOSSNAP'' @ le_bytes 2 (2 :: u16)) @ zeros (length ?p + 42)"
    by (subst write_zeros) (simp_all add: add.commute)
  have 3: "write_u16 ((''CHOSSNAP'' @ le_bytes 2 (2 :: u16)) @ zeros (length ?p + 42)) 10 kCurrentSchemaVersion
      = ?a @ zeros (length ?p + 40)"
    by (subst write_zeros) (simp_all add: add.commute)
  have 4: "write_u64 (?a @ zeros (length ?p + 40)) 12 (st_last_applied s)
      = (?a @ le_bytes 8 (st_last_applied s)) @ zeros (length ?p + 32)"
    by (subst write_zeros) (simp_all add: add.commute)
  have 5: "write_u64 ((?a @ le_bytes 8 (st_last_applied s)) @ zeros (length ?p + 32)) 20 (st_term s)
      = (?a @ le_bytes 8 (st_last_applied s) @ le_bytes 8 (st_term s)) @ zeros (length ?p + 24)"
    by (subst write_zeros) (simp_all add: add.commute)
  have 6: "put ((?a @ le_bytes 8 (st_last_applied s) @ le_bytes 8 (st_term s)) @ zeros (length ?p + 24)) 28 (state_hash s)
      = (?a @ le_bytes 8 (st_last_applied s) @ le_bytes 8 (st_term s) @ state_hash s) @ zeros (length ?p + 8)"
    by (subst put_zeros) (simp_all add: add.commute)
  have 7: "write_u32 ((?a @ le_bytes 8 (st_last_applied s) @ le_bytes 8 (st_term s) @ state_hash s) @ zeros (length ?p + 8)) 44 ?len
      = snapshot_header s @ zeros (length ?p + 4)"
    by (subst write_zeros) (simp_all add: add.commute snapshot_header_def)
  have 8: "(if ?p \<noteq> [] then put (snapshot_header s @ zeros (length ?p + 4)) 48 ?p
      else snapshot_header s @ zeros (length ?p + 4)) = (snapshot_header s @ ?p) @ zeros 4"
    by (simp add: put_zeros)
  have 9: "write_u32 ((snapshot_header s @ ?p) @ zeros 4) (length ((snapshot_header s @ ?p) @ zeros 4) - 4) c
      = (snapshot_header s @ ?p) @ le_bytes 4 c" for c
    by (subst write_zeros) simp_all
  have 10: "take (length ((snapshot_header s @ ?p) @ zeros 4) - 4) ((snapshot_header s @ ?p) @ zeros 4) = snapshot_header s @ ?p"
    by simp
  show ?thesis
    using assms unfolding encode_snapshot_def Let_def 1 2 3 4 5 6 7 8 9 10
    by (simp add: snapshot_image_def Let_def)
qed

lemma snapshot_fields:
  "take 8 (snapshot_header s @ post) = ''CHOSSNAP''"
  "get_u16 (snapshot_header s @ post) 8 = 2"
  "get_u16 (snapshot_header s @ post) 10 = kCurrentSchemaVersion"
  "get_u64 (snapshot_header s @ post) 12 = st_last_applied s"
  "get_u64 (snapshot_header s @ post) 20 = st_term s"
  "sub_bytes (snapshot_header s @ post) 28 16 = state_hash s"
  "get_u32 (snapshot_header s @ post) 44 = of_nat (length (snapshot_payload s))"
proof -
  let ?a = "''CHOSSNAP'' @ le_bytes 2 (2 :: u16) @ le_bytes 2 kCurrentSchemaVersion"
  let ?b = "?a @ le_bytes 8 (st_last_applied s) @ le_bytes 8 (st_term s)"
  show "take 8 (snapshot_header s @ post) = ''CHOSSNAP''" by (simp add: snapshot_header_def)
  show "get_u16 (snapshot_header s @ post) 8 = 2"
    using get_written(1) [of "''CHOSSNAP''" 8 2] by (simp add: snapshot_header_def)
  show "get_u16 (snapshot_header s @ post) 10 = kCurrentSchemaVersion"
    using get_written(1) [of "''CHOSSNAP'' @ le_bytes 2 (2 :: u16)" 10 kCurrentSchemaVersion]
    by (simp add: snapshot_header_def)
  show "get_u64 (snapshot_header s @ post) 12 = st_last_applied s"
    using get_written(3) [of ?a 12 "st_last_applied s"] by (simp add: snapshot_header_def)
  show "get_u64 (snapshot_header s @ post) 20 = st_term s"
    using get_written(3) [of "?a @ le_bytes 8 (st_last_applied s)" 20 "st_term s"] by (simp add: snapshot_header_def)
  show "sub_bytes (snapshot_header s @ post) 28 16 = state_hash s"
    using sub_bytes_append [of ?b 28 "state_hash s" 16] by (simp add: snapshot_header_def)
  show "get_u32 (snapshot_header s @ post) 44 = of_nat (length (snapshot_payload s))"
    using get_written(2) [of "?b @ state_hash s" 44 "of_nat (length (snapshot_payload s))"] by (simp add: snapshot_header_def)
qed

lemma verify_snapshot_of:
  assumes "storable_state s"
  shows "verify_snapshot (snapshot_of s) = Inr (restored s)"
proof -
  have ok: "domain_ok s" "log_ok s" "dash_free s" using assms by (simp_all add: storable_state_def)
  note copy = restored_facts(1) [OF ok(2)]
  have "st_last_applied (restored s) = st_last_applied s" "st_term (restored s) = st_term s"
    using arg_cong [OF copy, of st_last_applied] arg_cong [OF copy, of st_term] by (simp_all add: domain_copy_def)
  then show ?thesis
    using restore_snapshot [OF ok] state_hash_cong [OF copy]
    by (simp add: verify_snapshot_def legacy_def snapshot_of_def)
qed

lemma read_snapshot_image:
  assumes "storable_state s"
  shows "read_snapshot (snapshot_image s) = Inr (snapshot_of s)"
proof -
  let ?p = "snapshot_payload s" and ?body = "snapshot_header s @ snapshot_payload s"
  have small: "length ?p < 2 ^ 32" using assms by (simp add: storable_state_def)
  then have unat: "unat (of_nat (length ?p) :: u32) = length ?p" by (simp add: unat_of_nat)
  have bytes: "snapshot_image s = snapshot_header s @ ?p @ le_bytes 4 (crc32 ?body)"
    by (simp add: snapshot_image_def Let_def)
  have crc: "get_u32 (snapshot_image s) (48 + length ?p) = crc32 ?body"
    using get_written(2) [of ?body "48 + length ?p" "crc32 ?body" "[]"] by (simp add: bytes)
  have payload: "sub_bytes (snapshot_image s) 48 (length ?p) = ?p" by (simp add: bytes sub_bytes_def)
  have size: "length (snapshot_image s) = 52 + length ?p" by (simp add: bytes)
  have seal: "crc32 (take (48 + length ?p) (snapshot_image s)) = crc32 ?body" by (simp add: bytes)
  have "st_term s \<noteq> 0" using assms by (simp add: storable_state_def domain_ok_def header_ok_def)
  moreover note fields = snapshot_fields [of s "?p @ le_bytes 4 (crc32 ?body)", folded bytes]
  ultimately show ?thesis
    using verify_snapshot_of [OF assms]
    by (simp add: read_snapshot_def Let_def size fields unat crc seal payload parse_term_def parse_log_index_def snapshot_of_def)
qed

lemma read_snapshot_sealed: "read_snapshot bytes = Inr s \<Longrightarrow> sealed bytes"
  by (auto simp: read_snapshot_def sealed_def Let_def split: if_splits)

text \<open>
  A snapshot file restores the state it was written from: for every well-formed state whose
  payload fits the length field, the file that \<open>encode_snapshot\<close> builds is accepted by
  \<open>read_snapshot\<close> with the state's index, term, hash and payload, and verifying it yields a state with
  the same choreography, log position, term, receipts and hash.
\<close>

theorem snapshot_file_round_trip:
  assumes "storable_state s"
  shows "\<exists>bytes t. encode_snapshot s = Inr bytes \<and> read_snapshot bytes = Inr (snapshot_of s)
    \<and> verify_snapshot (snapshot_of s) = Inr t \<and> domain_copy t = domain_copy s \<and> st_receipts t = st_receipts s
    \<and> state_hash t = state_hash s"
proof -
  have ok: "log_ok s" "length (snapshot_payload s) \<le> 4294967295 - 64" using assms by (simp_all add: storable_state_def)
  show ?thesis
    using encode_snapshot_layout [OF ok(2)] read_snapshot_image [OF assms] verify_snapshot_of [OF assms]
      restored_facts [OF ok(1)] state_hash_cong by blast
qed

lemma image_sealed: "sealed (metadata_bytes m)" "sealed (snapshot_image s)"
  unfolding metadata_bytes_def snapshot_image_def Let_def sealed_iff by blast+

text \<open>
  (C34) Damage is detected: no file that \<open>encode_metadata\<close> or \<open>encode_snapshot\<close> wrote is accepted
  after one of its bytes was changed.
\<close>

theorem damaged_file_rejected:
  assumes "encode_metadata m = Inr meta" "encode_snapshot s = Inr snap"
  shows "(i < length meta \<and> b \<noteq> meta ! i \<longrightarrow> \<not> is_ok (load_metadata (Inr (Some (Inr (meta[i := b]))))))
    \<and> (i < length snap \<and> b \<noteq> snap ! i \<longrightarrow> \<not> is_ok (read_snapshot (snap[i := b])))"
proof -
  have "length (voted_text m) \<le> 64"
    using assms(1) by (auto simp: encode_metadata_def voted_text_def Let_def split: if_splits)
  then have meta: "sealed meta"
    using assms(1) encode_metadata_layout [of m] image_sealed(1) [of m] by simp
  have "length (snapshot_payload s) \<le> 4294967295 - 64"
    using assms(2) by (auto simp: encode_snapshot_def Let_def split: if_splits)
  then have snap: "sealed snap"
    using assms(2) encode_snapshot_layout [of s] image_sealed(2) [of s] by simp
  show ?thesis
    using sealed_single_byte [OF meta, of i b] sealed_single_byte [OF snap, of i b]
      parse_metadata_sealed read_snapshot_sealed
    by (auto simp: load_metadata_def is_ok_iff)
qed

section \<open>The order of snapshot files\<close>

lemma foldl_digits: "foldl (\<lambda>a c. a * 10 + digit_value c) a s = a * 10 ^ length s + read_nat s"
proof (induction s arbitrary: a)
  case (Cons c s)
  show ?case using Cons [of "a * 10 + digit_value c"] Cons [of "digit_value c"]
    by (simp add: read_nat_def algebra_simps)
qed (simp add: read_nat_def)

lemma read_nat_Cons: "read_nat (c # s) = digit_value c * 10 ^ length s + read_nat s"
  using foldl_digits [of "digit_value c" s] by (simp add: read_nat_def)

lemma read_nat_bound: "list_all is_digit s \<Longrightarrow> read_nat s < 10 ^ length s"
proof (induction s)
  case (Cons c s)
  then have "digit_value c \<le> 9" by (auto simp: is_digit_def digit_value_def)
  then have "digit_value c * 10 ^ length s \<le> 9 * 10 ^ length s" by (rule mult_le_mono1)
  moreover have "read_nat s < 10 ^ length s" using Cons by simp
  ultimately have "digit_value c * 10 ^ length s + read_nat s < 9 * 10 ^ length s + 10 ^ length s" by (rule add_le_less_mono)
  then show ?case by (simp add: read_nat_Cons)
qed (simp add: read_nat_def)

lemma digits_less_iff:
  assumes "length xs = length ys" "list_all is_digit xs" "list_all is_digit ys"
  shows "xs < ys \<longleftrightarrow> read_nat xs < read_nat ys"
  using assms
proof (induction xs ys rule: list_induct2)
  case (Cons x xs y ys)
  let ?p = "10 ^ length ys :: nat"
  have bounds: "read_nat xs < ?p" "read_nat ys < ?p" using read_nat_bound [of xs] read_nat_bound [of ys] Cons by simp_all
  have digits: "code_of x = 48 + digit_value x" "code_of y = 48 + digit_value y"
    using Cons.prems by (auto simp: is_digit_def digit_value_def)
  have less: "digit_value a * ?p + r < digit_value b * ?p + q" if "digit_value a < digit_value b" "r < ?p" for a b r q
  proof -
    have "digit_value a * ?p + r < Suc (digit_value a) * ?p" using that(2) by simp
    also have "\<dots> \<le> digit_value b * ?p" using that(1) by (intro mult_le_mono1) simp
    finally show ?thesis by simp
  qed
  consider "digit_value x < digit_value y" | "digit_value x = digit_value y" | "digit_value y < digit_value x" by linarith
  then show ?case
  proof cases
    case 1
    then show ?thesis using less [OF 1 bounds(1)] digits Cons.hyps by (simp add: read_nat_Cons less_char_def)
  next
    case 2
    then have "x = y" using digits by (metis of_char_eq_iff)
    then show ?thesis using Cons by (simp add: read_nat_Cons)
  next
    case 3
    then show ?thesis
      using less [OF 3 bounds(2), of "read_nat xs"] digits Cons.hyps by (auto simp: read_nat_Cons less_char_def)
  qed
qed simp

lemma append_less_iff: "length xs = length ys \<Longrightarrow> xs @ zs < ys @ zs \<longleftrightarrow> xs < (ys :: string)"
  by (induction xs ys rule: list_induct2) simp_all

lemma length_show_nat: "n < 10 ^ Suc k \<Longrightarrow> length (show_nat n) \<le> Suc k"
proof (induction k arbitrary: n)
  case (Suc k)
  then have "length (show_nat (n div 10)) \<le> Suc k" by (intro Suc.IH) (simp add: less_mult_imp_div_less)
  then show ?case by (subst show_nat.simps) simp
qed (simp add: show_nat.simps)

definition padded :: "u64 \<Rightarrow> string" where
  "padded i = replicate (16 - length (show_u64 i)) CHR ''0'' @ show_u64 i"

lemma snapshot_name_padded: "snapshot_name i = padded i @ ''.snap''"
  by (simp add: snapshot_name_def padded_def Let_def)

lemma read_padded: "read_nat (padded i) = unat i" "list_all is_digit (padded i)"
proof -
  have "read_nat (replicate n CHR ''0'' @ s) = read_nat s" for n s
    by (induction n) (simp_all add: read_nat_Cons digit_value_def)
  then show "read_nat (padded i) = unat i" by (simp add: padded_def show_u64_def)
  show "list_all is_digit (padded i)" by (auto simp: padded_def show_u64_def list_all_iff is_digit_def dest: show_nat_digits)
qed

lemma snapshot_index_name [simp]: "snapshot_index (snapshot_name i) = Some i"
proof -
  have "padded i \<noteq> []" by (simp add: padded_def show_u64_def)
  then show ?thesis
    using unat_lt_u64 [of i] by (simp add: snapshot_index_def snapshot_stem_def snapshot_name_padded from_chars_u64_def read_padded)
qed

lemma snapshot_name_less:
  assumes "unat i < 10 ^ 16" "unat j < 10 ^ 16"
  shows "snapshot_name i < snapshot_name j \<longleftrightarrow> i < j"
proof -
  have len: "length (padded k) = 16" if "unat k < 10 ^ 16" for k
    using length_show_nat [of "unat k" 15] that by (simp add: padded_def show_u64_def)
  have "snapshot_name i < snapshot_name j \<longleftrightarrow> padded i < padded j"
    unfolding snapshot_name_padded using len assms by (intro append_less_iff) simp
  also have "\<dots> \<longleftrightarrow> i < j"
    using digits_less_iff [of "padded i" "padded j"] len assms by (simp add: read_padded word_less_nat_alt)
  finally show ?thesis .
qed

section \<open>The snapshot directory\<close>

definition snapshot_names :: "string list \<Rightarrow> bool" where
  "snapshot_names names \<longleftrightarrow> distinct names \<and>
     (\<forall>name \<in> set names. snapshot_index name \<noteq> None \<longrightarrow> (\<exists>i. unat i < 10 ^ 16 \<and> name = snapshot_name i))"

definition readable :: "(string \<Rightarrow> string Result) \<Rightarrow> string \<Rightarrow> Snapshot option" where
  "readable contents name =
     (case bindE (contents name) read_snapshot of Inr snapshot \<Rightarrow> Some snapshot | Inl _ \<Rightarrow> None)"

lemma first_readable_cases:
  "first_readable contents names = None \<and> (\<forall>name \<in> set names. readable contents name = None)
   \<or> (\<exists>before name behind s. names = before @ name # behind \<and> (\<forall>n \<in> set before. readable contents n = None)
       \<and> readable contents name = Some s \<and> first_readable contents names = Some s)"
proof (induction names)
  case (Cons name names)
  show ?case
  proof (cases "readable contents name")
    case (Some s)
    then have "first_readable contents (name # names) = Some s" by (simp add: readable_def split: sum.splits)
    then show ?thesis using Some by (intro disjI2 exI [of _ "[]"] exI [of _ name] exI [of _ names] exI [of _ s]) simp
  next
    case None
    then have "first_readable contents (name # names) = first_readable contents names"
      by (simp add: readable_def split: sum.splits)
    with Cons None show ?thesis by (metis append_Cons set_ConsD)
  qed
qed simp

lemma snapshot_files_facts:
  "set (snapshot_files names) = {name \<in> set names. snapshot_index name \<noteq> None}"
  "sorted (rev (snapshot_files names))"
  "distinct names \<Longrightarrow> distinct (snapshot_files names)"
  by (auto simp: snapshot_files_def)

lemma names_le:
  assumes "snapshot_names names" "a \<in> set names" "b \<in> set names" "snapshot_index a = Some i" "snapshot_index b = Some j"
  shows "a \<le> b \<longleftrightarrow> i \<le> j" "a = b \<longleftrightarrow> i = j"
proof -
  obtain i' j' where "unat i' < 10 ^ 16" "a = snapshot_name i'" "unat j' < 10 ^ 16" "b = snapshot_name j'"
    using assms unfolding snapshot_names_def by (metis option.distinct(1))
  then have "unat i < 10 ^ 16" "a = snapshot_name i" "unat j < 10 ^ 16" "b = snapshot_name j" using assms(4,5) by auto
  then show "a \<le> b \<longleftrightarrow> i \<le> j" "a = b \<longleftrightarrow> i = j"
    using snapshot_name_less [of i j] snapshot_name_less [of j i] by (auto simp: not_less [symmetric])
qed

lemma rev_sorted_split:
  assumes "sorted (rev (before @ name # behind))" "n \<in> set behind"
  shows "n \<le> name"
  using assms by (simp add: sorted_append)


lemma split_files:
  assumes "snapshot_names names"
  shows "set (take keep (snapshot_files names)) \<inter> set (drop keep (snapshot_files names)) = {}"
    "set (take keep (snapshot_files names)) \<union> set (drop keep (snapshot_files names)) = set (snapshot_files names)"
    "card (set (take keep (snapshot_files names))) = min keep (length (snapshot_files names))"
proof -
  let ?files = "snapshot_files names"
  have distinct: "distinct ?files" using snapshot_files_facts(3) assms by (simp add: snapshot_names_def)
  then show "set (take keep ?files) \<inter> set (drop keep ?files) = {}" "set (take keep ?files) \<union> set (drop keep ?files) = set ?files"
    using set_take_disj_set_drop_if_distinct [of ?files keep keep] by (simp_all flip: set_append)
  show "card (set (take keep ?files)) = min keep (length ?files)"
    using distinct_card [of "take keep ?files"] distinct by (simp add: min.commute)
qed

lemma kept_files_newer:
  assumes "snapshot_names names" "a \<in> set (take keep (snapshot_files names))" "b \<in> set (drop keep (snapshot_files names))"
    "snapshot_index a = Some i" "snapshot_index b = Some j"
  shows "j < i"
proof -
  let ?files = "snapshot_files names"
  note files = snapshot_files_facts [of names] and split = split_files [OF assms(1), of keep]
  have "a \<in> set names" "b \<in> set names" using assms(2,3) split(2) files(1) by auto
  moreover have "b \<le> a" "a \<noteq> b"
    using files(2) assms(2,3) split(1) sorted_append [of "rev (drop keep ?files)" "rev (take keep ?files)"]
    by (auto simp flip: rev_append)
  ultimately show ?thesis using names_le [OF assms(1), of b a j i] assms(4,5) by auto
qed

text \<open>The last of the files that are kept carries the lowest of their indexes.\<close>

lemma last_kept_oldest:
  assumes "snapshot_names names" "0 < min keep (length (snapshot_files names))"
  obtains i where "snapshot_index (snapshot_files names ! (min keep (length (snapshot_files names)) - 1)) = Some i"
    "\<And>a j. a \<in> set (take keep (snapshot_files names)) \<Longrightarrow> snapshot_index a = Some j \<Longrightarrow> i \<le> j"
proof -
  let ?files = "snapshot_files names" and ?count = "min keep (length (snapshot_files names))"
  let ?l = "?files ! (?count - 1)"
  note files = snapshot_files_facts [of names] and split = split_files [OF assms(1), of keep]
  have "?count - 1 < length (take keep ?files)" "?count - 1 < keep" using assms(2) by (auto simp: min_def)
  then have l: "?l \<in> set (take keep ?files)" by (metis nth_mem nth_take)
  then obtain i where i: "snapshot_index ?l = Some i" using split(2) files(1) by blast
  have "?l \<le> a" if mem: "a \<in> set (take keep ?files)" for a
  proof -
    obtain k where "k < length (take keep ?files)" "take keep ?files ! k = a" using mem by (meson in_set_conv_nth)
    then have "k < ?count" "a = ?files ! k" by auto
    then show ?thesis using files(2) sorted_rev_nth_mono [of ?files k "?count - 1"] by auto
  qed
  then have "i \<le> j" if "a \<in> set (take keep ?files)" "snapshot_index a = Some j" for a j
    using names_le(1) [OF assms(1), of ?l a i j] that l i split(2) files(1) by blast
  then show thesis using that i by blast
qed

lemma prune_result:
  assumes "snapshot_names names" "prune_snapshots (Inr (Some names)) stuck keep = (Some left, r)"
  obtains result where "r = Inr result" "remaining result = min keep (length (snapshot_files names))"
    "\<And>a i. a \<in> set (take keep (snapshot_files names)) \<Longrightarrow> snapshot_index a = Some i \<Longrightarrow> oldest_index result \<le> i"
proof (cases "0 < min keep (length (snapshot_files names))")
  case False
  then have "r = Inr \<lparr>remaining = 0, oldest_index = 0\<rparr>" using assms(2) by (auto simp: prune_snapshots_def Let_def min_def split: if_splits)
  then show ?thesis using that [of "\<lparr>remaining = 0, oldest_index = 0\<rparr>"] False by simp
next
  case True
  let ?count = "min keep (length (snapshot_files names))"
  obtain i where i: "snapshot_index (snapshot_files names ! (?count - 1)) = Some i"
    "\<And>a j. a \<in> set (take keep (snapshot_files names)) \<Longrightarrow> snapshot_index a = Some j \<Longrightarrow> i \<le> j"
    using last_kept_oldest [OF assms(1) True] by blast
  have "r = Inr \<lparr>remaining = ?count, oldest_index = i\<rparr>" using assms(2) i(1) True by (auto simp: prune_snapshots_def Let_def)
  then show ?thesis using that [of "\<lparr>remaining = ?count, oldest_index = i\<rparr>"] i(2) by simp
qed



definition sample_folder :: "string list" where
  "sample_folder = [snapshot_name 7, ''notes.txt'', snapshot_name 12]"

lemma sample_folder_ok: "snapshot_names sample_folder"
proof -
  have "snapshot_index ''notes.txt'' = None" by (simp add: snapshot_index_def snapshot_stem_def)
  moreover have "snapshot_name 7 \<noteq> snapshot_name 12" 
    using snapshot_name_less [of 7 12] by auto
  moreover have "snapshot_name i \<noteq> ''notes.txt''" for i
    using \<open>snapshot_index ''notes.txt'' = None\<close> by (metis option.distinct(1) snapshot_index_name)
  ultimately show ?thesis
    by (auto simp: snapshot_names_def sample_folder_def intro: exI [of _ 7] exI [of _ 12])
qed

lemma initial_storable: "storable_state initial_state"
proof -
  have "length (snapshot_payload initial_state) \<le> 1000"
    by (simp add: snapshot_payload_def initial_state_def show_u16_def show_u64_def show_int_def show_nat.simps
        text_of_def overlap_policy_name_def ordered_receipts_def)
  then show ?thesis
    using initial_domain_ok initial_log_ok by (simp add: storable_state_def dash_free_def find_cue_def initial_state_def)
qed


theorem snapshot_file_round_trip_witness:
  "\<exists>bytes t. encode_snapshot initial_state = Inr bytes \<and> read_snapshot bytes = Inr (snapshot_of initial_state)
    \<and> verify_snapshot (snapshot_of initial_state) = Inr t \<and> state_hash t = state_hash initial_state"
  using snapshot_file_round_trip [OF initial_storable] by blast

theorem damaged_file_rejected_witness:
  "\<not> is_ok (load_metadata (Inr (Some (Inr ((metadata_bytes (sample_metadata 4))[0 := CHR ''c''])))))
   \<and> \<not> is_ok (read_snapshot ((snapshot_image initial_state)[0 := CHR ''c'']))"
proof -
  have meta: "encode_metadata (sample_metadata 4) = Inr (metadata_bytes (sample_metadata 4))"
    by (intro encode_metadata_layout voted_short sample_metadata_ok) simp
  have snap: "encode_snapshot initial_state = Inr (snapshot_image initial_state)"
    using initial_storable by (intro encode_snapshot_layout) (simp add: storable_state_def)
  show ?thesis
    using damaged_file_rejected [OF meta snap, of 0 "CHR ''c''"]
    by (simp add: metadata_bytes_def metadata_header_def snapshot_image_def snapshot_header_def Let_def)
qed

text \<open>
  The comment on the name order holds only below ten to the sixteenth: the field is padded to sixteen
  digits while a 64-bit index can have twenty.
\<close>

lemma name_order_fails: "snapshot_name (10 ^ 16) < snapshot_name (10 ^ 16 - 1)"
  by (simp add: snapshot_name_def show_u64_def show_nat.simps less_char_def digit_char_def)

end
