(* ===== verification/Wal_File.thy ===== *)
theory Wal_File
  imports Event_Text File_Ops
begin

text \<open>
  The write-ahead log (\<open>storage/wal.hpp\<close>, \<open>storage/wal.cpp\<close>): framed, checksummed records after a
  file header. Every operation takes the log object and the file and returns both: what the operating
  system does to a call is an argument (\<open>io_fault\<close>), as is the elapsed time an append measures.
\<close>

section \<open>Format\<close>

definition kFileMagic :: string where "kFileMagic = ''CHOSWAL1''"
definition kRecordMagic :: u32 where "kRecordMagic = 0x31474F4C"
definition kVersion :: u16 where "kVersion = 1"
definition kFileHeaderBytes :: nat where "kFileHeaderBytes = 16"
definition kRecordPrefix :: nat where "kRecordPrefix = 28"
definition kMaxPayloadBytes :: nat where "kMaxPayloadBytes = 1048576"

lemmas wal_limits = kFileHeaderBytes_def kRecordPrefix_def kMaxPayloadBytes_def

abbreviation corrupt :: "string \<Rightarrow> 'a Result" where
  "corrupt detail \<equiv> fail StoreError detail"

definition wal_file_header :: string where
  "wal_file_header =
     (let header = zeros 16;
          header = put header 0 kFileMagic;
          header = write_u16 header 8 1;
          header = write_u16 header 10 0
      in write_u32 header 12 (crc32 (take 12 header)))"

definition encode_record :: "Event \<Rightarrow> string Result" where
  "encode_record event =
     (let payload = canonical_event event in
      if kMaxPayloadBytes < length payload then corrupt ''event payload exceeds 1 MiB''
      else let
        record = zeros (kRecordPrefix + length payload + 4);
        record = write_u32 record 0 kRecordMagic;
        record = write_u16 record 4 kVersion;
        record = write_u16 record 6 0;
        record = write_u32 record 8 (of_nat (length payload));
        record = write_u64 record 12 (ev_term event);
        record = write_u64 record 20 (ev_index event);
        record = put record kRecordPrefix payload;
        checksum = crc32 (take (kRecordPrefix + length payload) record)
      in Inr (write_u32 record (kRecordPrefix + length payload) checksum))"

fun append_records :: "string \<Rightarrow> Event list \<Rightarrow> string Result" where
  "append_records bytes [] = Inr bytes"
| "append_records bytes (event # events) = bindE (encode_record event) (\<lambda>record. append_records (bytes @ record) events)"

definition encode_wal :: "Event list \<Rightarrow> string Result" where
  "encode_wal events = append_records wal_file_header events"

section \<open>The log object\<close>

datatype Durability = Sync | Buffered

record WalStats =
  append_ns :: u64
  flush_ns :: u64
  appends :: u64
  truncated_tail_bytes :: u64

record Wal =
  wal_path :: string
  wal_parent :: string
  wal_events :: "Event list"
  record_ends :: "nat list"
  wal_stats :: WalStats

definition wal_append :: "io_fault \<Rightarrow> u64 \<Rightarrow> Event \<Rightarrow> Durability \<Rightarrow> Wal \<Rightarrow> string \<Rightarrow> Wal \<times> string \<times> unit Result" where
  "wal_append fault elapsed event durability w file =
     (case encode_record event of
        Inl e \<Rightarrow> (w, file, Inl e)
      | Inr record \<Rightarrow>
          case append_bytes fault (wal_path w) file record (durability = Sync) of
            (file', Inl e) \<Rightarrow> (w, file', Inl e)
          | (file', Inr _) \<Rightarrow>
              let stats = wal_stats w;
                  stats = stats\<lparr>append_ns := append_ns stats + elapsed\<rparr>;
                  stats = (if durability = Sync then stats\<lparr>flush_ns := flush_ns stats + elapsed\<rparr> else stats);
                  stats = stats\<lparr>appends := appends stats + 1\<rparr>;
                  previous = (if record_ends w = [] then kFileHeaderBytes else last (record_ends w))
              in (w\<lparr>wal_events := wal_events w @ [event], record_ends := record_ends w @ [previous + length record],
                    wal_stats := stats\<rparr>, file', Inr ()))"

fun keep_count :: "Event list \<Rightarrow> u64 \<Rightarrow> nat" where
  "keep_count [] index = 0"
| "keep_count (event # events) index = (if ev_index event \<le> index then Suc (keep_count events index) else 0)"

text \<open>
  \<open>resized\<close> says whether the shrink succeeds and \<open>fault\<close> what happens to the flush after it. The
  recorded ends never lie beyond the file, so that resizing to one of them only shortens it.
\<close>

definition wal_truncate_after :: "bool \<Rightarrow> io_fault \<Rightarrow> u64 \<Rightarrow> Wal \<Rightarrow> string \<Rightarrow> Wal \<times> string \<times> unit Result" where
  "wal_truncate_after resized fault index w file =
     (let keep = keep_count (wal_events w) index;
          good_end = (if keep = 0 then kFileHeaderBytes else record_ends w ! (keep - 1)) in
      if \<not> resized then (w, file, corrupt ''unable to truncate write-ahead log'')
      else case sync_file fault (wal_path w) of
        Inl e \<Rightarrow> (w, take good_end file, Inl e)
      | Inr _ \<Rightarrow>
          (w\<lparr>wal_events := take keep (wal_events w), record_ends := take keep (record_ends w)\<rparr>,
           take good_end file, Inr ()))"

definition wal_at :: "u64 \<Rightarrow> Wal \<Rightarrow> Event Result" where
  "wal_at index w =
     (case find (\<lambda>event. ev_index event = index) (wal_events w) of
        Some event \<Rightarrow> Inr event
      | None \<Rightarrow> corrupt ''log index was not found'')"

section \<open>Recovery\<close>

fun later_magic :: "string \<Rightarrow> bool" where
  "later_magic (a # b # c # d # rest) \<longleftrightarrow>
     a = CHR ''L'' \<and> b = CHR ''O'' \<and> c = CHR ''G'' \<and> d = CHR ''1'' \<or> later_magic (b # c # d # rest)"
| "later_magic _ \<longleftrightarrow> False"

text \<open>
  The scan of \<open>load\<close>. The loop state is the offset and the events and record ends collected so far;
  the result adds the number of tail bytes it refuses to read and how the scan ended.
\<close>

function wal_scan :: "string \<Rightarrow> nat \<Rightarrow> Event list \<Rightarrow> nat list \<Rightarrow> Event list \<times> nat list \<times> nat \<times> unit Result" where
  "wal_scan file offset events ends =
     (if length file \<le> offset then (events, ends, 0, Inr ())
      else let available = length file - offset in
      if available < kRecordPrefix + 4 then (events, ends, available, Inr ())
      else if get_u32 file offset \<noteq> kRecordMagic \<or> get_u16 file (offset + 4) \<noteq> kVersion then
        (if later_magic (drop (offset + 1) file)
         then (events, ends, 0, corrupt (''corrupt write-ahead record at offset '' @ show_nat offset))
         else (events, ends, available, Inr ()))
      else let payload_len = unat (get_u32 file (offset + 8)) in
      if kMaxPayloadBytes < payload_len
      then (events, ends, 0, corrupt ''write-ahead record exceeds the 1 MiB limit'')
      else let total = kRecordPrefix + payload_len + 4 in
      if available < total then (events, ends, available, Inr ())
      else if crc32 (sub_bytes file offset (kRecordPrefix + payload_len)) \<noteq> get_u32 file (offset + kRecordPrefix + payload_len)
      then (events, ends, 0, corrupt (''write-ahead record checksum mismatch at offset '' @ show_nat offset))
      else case parse_event (sub_bytes file (offset + kRecordPrefix) payload_len) of
        Inl _ \<Rightarrow> (events, ends, 0, corrupt ''write-ahead payload is not a canonical event'')
      | Inr event \<Rightarrow>
          if ev_index event \<noteq> get_u64 file (offset + 20) \<or> ev_term event \<noteq> get_u64 file (offset + 12)
          then (events, ends, 0, corrupt ''write-ahead envelope does not match its payload'')
          else wal_scan file (offset + total) (events @ [event]) (ends @ [offset + total]))"
  by pat_completeness auto
termination by (relation "measure (\<lambda>(file, offset, _, _). length file - offset)") (auto simp: wal_limits)

declare wal_scan.simps [simp del]

text \<open>\<open>reading\<close> is what \<open>read_file\<close> reports, \<open>resized\<close> whether a torn tail could be cut off.\<close>

definition wal_load :: "unit Result \<Rightarrow> bool \<Rightarrow> Wal \<Rightarrow> string \<Rightarrow> Wal \<times> string \<times> unit Result" where
  "wal_load reading resized w file =
     (case reading of Inl e \<Rightarrow> (w, file, Inl e) | Inr _ \<Rightarrow>
      if length file < kFileHeaderBytes then (w, file, corrupt ''write-ahead log header is incomplete'')
      else if sub_bytes file 0 8 \<noteq> kFileMagic then (w, file, corrupt ''write-ahead log magic is invalid'')
      else if get_u16 file 8 \<noteq> kVersion then (w, file, corrupt ''write-ahead log version is unsupported'')
      else if crc32 (take 12 file) \<noteq> get_u32 file 12
      then (w, file, corrupt ''write-ahead log header checksum mismatch'')
      else let (events, ends, torn, ended) = wal_scan file kFileHeaderBytes [] [];
               good_end = (if ends = [] then kFileHeaderBytes else last ends);
               w = w\<lparr>wal_events := events, record_ends := ends,
                     wal_stats := (wal_stats w)\<lparr>truncated_tail_bytes := truncated_tail_bytes (wal_stats w) + of_nat torn\<rparr>\<rparr> in
        case ended of
          Inl e \<Rightarrow> (w, file, Inl e)
        | Inr _ \<Rightarrow>
            if good_end < length file then
              (if \<not> resized then (w, file, corrupt ''unable to truncate a torn write-ahead tail'')
               else (w, take good_end file, Inr ()))
            else (w, file, Inr ()))"

definition new_wal :: "string \<Rightarrow> string \<Rightarrow> Wal" where
  "new_wal path parent = \<lparr>wal_path = path, wal_parent = parent, wal_events = [], record_ends = [],
     wal_stats = \<lparr>append_ns = 0, flush_ns = 0, appends = 0, truncated_tail_bytes = 0\<rparr>\<rparr>"

definition write_new_header :: "io_fault \<Rightarrow> string \<Rightarrow> string \<times> unit Result" where
  "write_new_header fault parent =
     (if fault = OpenFails then ([], io_error ''unable to create write-ahead log'')
      else let (written, wrote) = fwrite fault wal_file_header in
        (written,
         bindE (if wrote then sync_handle fault else io_error ''unable to write log header'') (\<lambda>_.
         sync_directory fault parent)))"

text \<open>
  \<open>open\<close>: \<open>found\<close> is what \<open>exists\<close> reports together with the contents of an existing file. The
  result is the object and the file, or the error and what the disk then holds.
\<close>

definition wal_open ::
  "string + string option \<Rightarrow> io_fault \<Rightarrow> unit Result \<Rightarrow> bool \<Rightarrow> string \<Rightarrow> string \<Rightarrow> (Wal \<times> string) Result" where
  "wal_open found fault reading resized path parent =
     (let log = new_wal path parent in
      case found of
        Inl why \<Rightarrow> corrupt (''unable to inspect WAL: '' @ why)
      | Inr existing \<Rightarrow>
          bindE (case existing of Some bytes \<Rightarrow> Inr bytes
                 | None \<Rightarrow> (case write_new_header fault parent of (bytes, header) \<Rightarrow> bindE header (\<lambda>_. Inr bytes)))
            (\<lambda>file. case wal_load reading resized log file of
               (_, _, Inl e) \<Rightarrow> Inl e
             | (log, file, Inr _) \<Rightarrow> Inr (log, file)))"

definition wal_rewrite :: "io_fault \<Rightarrow> unit Result \<Rightarrow> bool \<Rightarrow> Event list \<Rightarrow> Wal \<Rightarrow> string \<Rightarrow> Wal \<times> string \<times> unit Result" where
  "wal_rewrite fault reading resized events w file =
     (case encode_wal events of
        Inl e \<Rightarrow> (w, file, Inl e)
      | Inr bytes \<Rightarrow>
          case write_atomic fault (wal_parent w) (wal_path w) (Some file) bytes True None of
            (held, Inl e) \<Rightarrow> (w, case held of Some bytes' \<Rightarrow> bytes' | None \<Rightarrow> [], Inl e)
          | (held, Inr _) \<Rightarrow> wal_load reading resized w (case held of Some bytes' \<Rightarrow> bytes' | None \<Rightarrow> []))"

end
