(* ===== verification/Wal_Recovery.thy ===== *)
theory Wal_Recovery
  imports Wal_File
begin

text \<open>
  The write-ahead log keeps what it acknowledged. The layout of a file as a concatenation of records,
  the scan over it, torn tails, and the log object as a refinement of a list of events.
\<close>

section \<open>Layout\<close>

definition record_prefix :: "Event \<Rightarrow> string" where
  "record_prefix e = le_bytes 4 kRecordMagic @ le_bytes 2 kVersion @ le_bytes 2 (0 :: u16)
     @ le_bytes 4 (of_nat (length (canonical_event e)) :: u32) @ le_bytes 8 (ev_term e) @ le_bytes 8 (ev_index e)"

definition record_body :: "Event \<Rightarrow> string" where
  "record_body e = record_prefix e @ canonical_event e"

definition record_bytes :: "Event \<Rightarrow> string" where
  "record_bytes e = record_body e @ le_bytes 4 (crc32 (record_body e))"

definition wal_bytes :: "Event list \<Rightarrow> string" where
  "wal_bytes es = wal_file_header @ concat (map record_bytes es)"

definition storable :: "Event \<Rightarrow> bool" where
  "storable e \<longleftrightarrow> event_ok e \<and> length (canonical_event e) \<le> kMaxPayloadBytes"

lemma length_record_prefix [simp]: "length (record_prefix e) = 28"
  by (simp add: record_prefix_def)

lemma length_record_bytes [simp]: "length (record_bytes e) = 32 + length (canonical_event e)"
  by (simp add: record_bytes_def record_body_def)

lemma encode_record_layout:
  assumes "length (canonical_event e) \<le> kMaxPayloadBytes"
  shows "encode_record e = Inr (record_bytes e)"
proof -
  let ?p = "canonical_event e" and ?n = "length (canonical_event e)"
  let ?len = "of_nat (length (canonical_event e)) :: u32"
  have 1: "write_u32 (zeros (kRecordPrefix + ?n + 4)) 0 kRecordMagic = le_bytes 4 kRecordMagic @ zeros (?n + 28)"
    using write_zeros(2) [of "[]" 0 "28 + ?n + 4" kRecordMagic] by (simp add: kRecordPrefix_def add.commute)
  have 2: "write_u16 (le_bytes 4 kRecordMagic @ zeros (?n + 28)) 4 kVersion
      = (le_bytes 4 kRecordMagic @ le_bytes 2 kVersion) @ zeros (?n + 26)"
    by (subst write_zeros) (simp_all add: add.commute)
  have 3: "write_u16 ((le_bytes 4 kRecordMagic @ le_bytes 2 kVersion) @ zeros (?n + 26)) 6 0
      = (le_bytes 4 kRecordMagic @ le_bytes 2 kVersion @ le_bytes 2 (0 :: u16)) @ zeros (?n + 24)"
    by (subst write_zeros) (simp_all add: add.commute)
  have 4: "write_u32 ((le_bytes 4 kRecordMagic @ le_bytes 2 kVersion @ le_bytes 2 (0 :: u16)) @ zeros (?n + 24)) 8 ?len
      = (le_bytes 4 kRecordMagic @ le_bytes 2 kVersion @ le_bytes 2 (0 :: u16) @ le_bytes 4 ?len) @ zeros (?n + 20)"
    by (subst write_zeros) (simp_all add: add.commute)
  have 5: "write_u64 ((le_bytes 4 kRecordMagic @ le_bytes 2 kVersion @ le_bytes 2 (0 :: u16) @ le_bytes 4 ?len)
      @ zeros (?n + 20)) 12 (ev_term e)
      = (le_bytes 4 kRecordMagic @ le_bytes 2 kVersion @ le_bytes 2 (0 :: u16) @ le_bytes 4 ?len
        @ le_bytes 8 (ev_term e)) @ zeros (?n + 12)"
    by (subst write_zeros) (simp_all add: add.commute)
  have 6: "write_u64 ((le_bytes 4 kRecordMagic @ le_bytes 2 kVersion @ le_bytes 2 (0 :: u16) @ le_bytes 4 ?len
        @ le_bytes 8 (ev_term e)) @ zeros (?n + 12)) 20 (ev_index e) = record_prefix e @ zeros (?n + 4)"
    by (subst write_zeros) (simp_all add: record_prefix_def add.commute)
  have 7: "put (record_prefix e @ zeros (?n + 4)) kRecordPrefix ?p = record_body e @ zeros 4"
    by (subst put_zeros) (simp_all add: kRecordPrefix_def record_body_def)
  have 8: "write_u32 (record_body e @ zeros 4) (kRecordPrefix + ?n) c = record_body e @ le_bytes 4 c" for c
    by (subst write_zeros) (simp_all add: kRecordPrefix_def record_body_def)
  have 9: "take (kRecordPrefix + ?n) (record_body e @ zeros 4) = record_body e"
    by (simp add: kRecordPrefix_def record_body_def)
  show ?thesis
    using assms unfolding encode_record_def Let_def 1 2 3 4 5 6 7 8 9 by (simp add: record_bytes_def)
qed

lemma append_records_layout:
  "list_all storable es \<Longrightarrow> append_records bytes es = Inr (bytes @ concat (map record_bytes es))"
  by (induction es arbitrary: bytes) (simp_all add: storable_def encode_record_layout)

lemma encode_wal_layout: "list_all storable es \<Longrightarrow> encode_wal es = Inr (wal_bytes es)"
  by (simp add: encode_wal_def wal_bytes_def append_records_layout)

section \<open>Scanning\<close>

lemma record_prefix_fields [simp]:
  "get_u32 (record_prefix e @ post) 0 = kRecordMagic"
  "get_u16 (record_prefix e @ post) 4 = kVersion"
  "get_u32 (record_prefix e @ post) 8 = of_nat (length (canonical_event e))"
  "get_u64 (record_prefix e @ post) 12 = ev_term e"
  "get_u64 (record_prefix e @ post) 20 = ev_index e"
proof -
  let ?len = "of_nat (length (canonical_event e)) :: u32"
  show "get_u32 (record_prefix e @ post) 0 = kRecordMagic"
    using get_written(2) [of "[]" 0 kRecordMagic] by (simp add: record_prefix_def)
  show "get_u16 (record_prefix e @ post) 4 = kVersion"
    using get_written(1) [of "le_bytes 4 kRecordMagic" 4 kVersion] by (simp add: record_prefix_def)
  show "get_u32 (record_prefix e @ post) 8 = ?len"
    using get_written(2) [of "le_bytes 4 kRecordMagic @ le_bytes 2 kVersion @ le_bytes 2 (0 :: u16)" 8 ?len]
    by (simp add: record_prefix_def)
  show "get_u64 (record_prefix e @ post) 12 = ev_term e"
    using get_written(3) [of "le_bytes 4 kRecordMagic @ le_bytes 2 kVersion @ le_bytes 2 (0 :: u16) @ le_bytes 4 ?len" 12]
    by (simp add: record_prefix_def)
  show "get_u64 (record_prefix e @ post) 20 = ev_index e"
    using get_written(3) [of "le_bytes 4 kRecordMagic @ le_bytes 2 kVersion @ le_bytes 2 (0 :: u16) @ le_bytes 4 ?len
        @ le_bytes 8 (ev_term e)" 20]
    by (simp add: record_prefix_def)
qed

lemma unat_payload: "storable e \<Longrightarrow> unat (of_nat (length (canonical_event e)) :: u32) = length (canonical_event e)"
  by (simp add: unat_of_nat storable_def kMaxPayloadBytes_def)

lemma sub_bytes_shift: "sub_bytes (pre @ bs) (length pre + k) n = sub_bytes bs k n" "sub_bytes (pre @ bs) (length pre) n = sub_bytes bs 0 n"
  by (simp_all add: sub_bytes_def)

text \<open>The scan reads one complete record and moves behind it, whatever precedes and follows.\<close>

lemma scan_record:
  assumes "storable e"
  shows "wal_scan (pre @ record_bytes e @ post) (length pre) events ends =
    wal_scan (pre @ record_bytes e @ post) (length pre + length (record_bytes e)) (events @ [e])
      (ends @ [length pre + length (record_bytes e)])"
proof -
  let ?n = "length (canonical_event e)" and ?crc = "le_bytes 4 (crc32 (record_body e)) @ post"
  let ?file = "pre @ record_bytes e @ post"
  have split: "record_bytes e @ post = record_prefix e @ canonical_event e @ ?crc"
    by (simp add: record_bytes_def record_body_def)
  have fields: "get_u32 ?file (length pre) = kRecordMagic" "get_u16 ?file (length pre + 4) = kVersion"
    "get_u32 ?file (length pre + 8) = of_nat ?n" "get_u64 ?file (length pre + 12) = ev_term e"
    "get_u64 ?file (length pre + 20) = ev_index e"
    by (simp_all only: split get_shift record_prefix_fields)
  have body: "sub_bytes ?file (length pre) (28 + ?n) = record_body e"
    by (simp add: split record_body_def sub_bytes_def)
  have payload: "sub_bytes ?file (length pre + 28) ?n = canonical_event e"
    by (simp add: split sub_bytes_def)
  have crc: "get_u32 ?file (length pre + (28 + ?n)) = crc32 (record_body e)"
    using get_written(2) [of "pre @ record_body e" "length pre + (28 + ?n)" "crc32 (record_body e)" post]
    by (simp add: record_bytes_def record_body_def)
  have parse: "parse_event (canonical_event e) = Inr e"
    using assms by (simp add: storable_def parse_canonical_event)
  have "unat (of_nat ?n :: u32) = ?n" "?n \<le> kMaxPayloadBytes"
    using unat_payload [OF assms] assms by (simp_all add: storable_def)
  then show ?thesis
    by (subst wal_scan.simps)
      (simp add: Let_def kRecordPrefix_def fields body payload crc parse add.assoc)
qed

fun ends_from :: "nat \<Rightarrow> Event list \<Rightarrow> nat list" where
  "ends_from offset [] = []"
| "ends_from offset (e # es) = (offset + length (record_bytes e)) # ends_from (offset + length (record_bytes e)) es"

lemma scan_records:
  "list_all storable es \<Longrightarrow>
   wal_scan (pre @ concat (map record_bytes es) @ post) (length pre) events ends =
   wal_scan (pre @ concat (map record_bytes es) @ post) (length pre + length (concat (map record_bytes es)))
     (events @ es) (ends @ ends_from (length pre) es)"
proof (induction es arbitrary: pre events ends)
  case (Cons e es)
  have "wal_scan (pre @ record_bytes e @ concat (map record_bytes es) @ post) (length pre) events ends =
      wal_scan ((pre @ record_bytes e) @ concat (map record_bytes es) @ post) (length (pre @ record_bytes e))
        (events @ [e]) (ends @ [length (pre @ record_bytes e)])"
    using scan_record [of e pre "concat (map record_bytes es) @ post" events ends] Cons.prems by simp
  also have "\<dots> = wal_scan ((pre @ record_bytes e) @ concat (map record_bytes es) @ post)
      (length (pre @ record_bytes e) + length (concat (map record_bytes es)))
      ((events @ [e]) @ es) ((ends @ [length (pre @ record_bytes e)]) @ ends_from (length (pre @ record_bytes e)) es)"
    using Cons.prems by (intro Cons.IH) simp
  finally show ?case by (simp add: add.assoc)
qed simp

lemma scan_cut:
  assumes "get_u32 d 0 = kRecordMagic" "get_u16 d 4 = kVersion" "unat (get_u32 d 8) \<le> kMaxPayloadBytes"
    "length d < 32 + unat (get_u32 d 8)"
  shows "wal_scan (pre @ d) (length pre) events ends = (events, ends, length d, Inr ())"
  using assms by (subst wal_scan.simps) (simp add: Let_def kRecordPrefix_def get_shift)

text \<open>A proper prefix of a record at the end of the file is a torn tail, never an error.\<close>

lemma scan_torn:
  assumes "storable e" "n < length (record_bytes e)"
  shows "wal_scan (pre @ take n (record_bytes e)) (length pre) events ends = (events, ends, n, Inr ())"
proof (cases "n < 32")
  case True
  then show ?thesis using assms by (subst wal_scan.simps) (simp add: Let_def wal_limits min_def)
next
  case False
  let ?n = "length (canonical_event e)" and ?file = "pre @ take n (record_bytes e)"
  have "take n (record_bytes e) = record_prefix e @ take (n - 28) (canonical_event e @ le_bytes 4 (crc32 (record_body e)))"
    using False by (simp add: record_bytes_def record_body_def)
  then obtain rest where torn: "take n (record_bytes e) = record_prefix e @ rest" by blast
  have size: "length (record_prefix e @ rest) = n" using arg_cong [OF torn, of length] assms(2) by simp
  show ?thesis
    unfolding torn using scan_cut [of "record_prefix e @ rest" pre events ends] unat_payload [OF assms(1)] assms size
    by (simp add: storable_def del: length_append)
qed

section \<open>Loading\<close>

definition header_body :: string where
  "header_body = kFileMagic @ le_bytes 2 (1 :: u16) @ le_bytes 2 (0 :: u16)"

lemma wal_file_header_layout: "wal_file_header = header_body @ le_bytes 4 (crc32 header_body)"
proof -
  have 1: "put (zeros 16) 0 kFileMagic = kFileMagic @ zeros 8"
    using put_zeros [of "[]" 0 kFileMagic 16] by (simp add: kFileMagic_def)
  have 2: "write_u16 (kFileMagic @ zeros 8) 8 1 = (kFileMagic @ le_bytes 2 (1 :: u16)) @ zeros 6"
    by (subst write_zeros) (simp_all add: kFileMagic_def)
  have 3: "write_u16 ((kFileMagic @ le_bytes 2 (1 :: u16)) @ zeros 6) 10 0 = header_body @ zeros 4"
    by (subst write_zeros) (simp_all add: kFileMagic_def header_body_def)
  have 4: "write_u32 (header_body @ zeros 4) 12 c = header_body @ le_bytes 4 c" for c
    by (subst write_zeros) (simp_all add: kFileMagic_def header_body_def)
  have 5: "take 12 (header_body @ zeros 4) = header_body" by (simp add: header_body_def kFileMagic_def)
  show ?thesis unfolding wal_file_header_def Let_def 1 2 3 4 5 ..
qed

lemma length_header [simp]: "length header_body = 12" "length wal_file_header = 16"
  by (simp_all add: header_body_def wal_file_header_layout kFileMagic_def)

lemma header_fields:
  "sub_bytes (wal_file_header @ post) 0 8 = kFileMagic"
  "get_u16 (wal_file_header @ post) 8 = kVersion"
  "crc32 (take 12 (wal_file_header @ post)) = get_u32 (wal_file_header @ post) 12"
proof -
  show "sub_bytes (wal_file_header @ post) 0 8 = kFileMagic"
    by (simp add: sub_bytes_def wal_file_header_layout header_body_def kFileMagic_def)
  show "get_u16 (wal_file_header @ post) 8 = kVersion"
    using get_written(1) [of kFileMagic 8 1]
    by (simp add: wal_file_header_layout header_body_def kFileMagic_def kVersion_def)
  show "crc32 (take 12 (wal_file_header @ post)) = get_u32 (wal_file_header @ post) 12"
    using get_written(2) [of header_body 12 "crc32 header_body"] by (simp add: wal_file_header_layout)
qed

lemma ends_from_Nil [simp]: "ends_from k es = [] \<longleftrightarrow> es = []"
  by (cases es) simp_all

lemma ends_from_last: "es \<noteq> [] \<Longrightarrow> last (ends_from k es) = k + length (concat (map record_bytes es))"
proof (induction es arbitrary: k)
  case (Cons e es)
  then show ?case by (cases "es = []") (simp_all add: add.assoc)
qed simp

lemma ends_from_snoc: "ends_from k (es @ [e]) = ends_from k es @ [k + length (concat (map record_bytes (es @ [e])))]"
  by (induction es arbitrary: k) (simp_all add: add.assoc)

lemma length_ends_from [simp]: "length (ends_from k es) = length es"
  by (induction es arbitrary: k) simp_all

lemma ends_from_take: "take n (ends_from k es) = ends_from k (take n es)"
  by (induction es arbitrary: k n) (simp_all add: take_Cons split: nat.split)

lemma ends_from_nth: "n < length es \<Longrightarrow> ends_from k es ! n = k + length (concat (map record_bytes (take (Suc n) es)))"
  by (induction es arbitrary: k n) (auto simp: nth_Cons add.assoc split: nat.split)

text \<open>The object a log of events \<open>es\<close> loads into, after a tail of \<open>n\<close> bytes was cut off.\<close>

definition loaded :: "Wal \<Rightarrow> Event list \<Rightarrow> nat \<Rightarrow> Wal" where
  "loaded w es n = w\<lparr>wal_events := es, record_ends := ends_from kFileHeaderBytes es,
     wal_stats := (wal_stats w)\<lparr>truncated_tail_bytes := truncated_tail_bytes (wal_stats w) + of_nat n\<rparr>\<rparr>"

lemma load_from_scan:
  assumes "list_all storable es" "resized \<or> tail = []"
    "\<And>events ends. wal_scan (wal_bytes es @ tail) (length (wal_bytes es)) events ends = (events, ends, length tail, Inr ())"
  shows "wal_load (Inr ()) resized w (wal_bytes es @ tail) = (loaded w es (length tail), wal_bytes es, Inr ())"
proof -
  have "wal_scan (wal_bytes es @ tail) 16 [] [] =
      wal_scan (wal_bytes es @ tail) (length (wal_bytes es)) es (ends_from 16 es)"
    using scan_records [OF assms(1), of wal_file_header tail "[]" "[]"] by (simp add: wal_bytes_def)
  then have scan: "wal_scan (wal_bytes es @ tail) 16 [] [] = (es, ends_from 16 es, length tail, Inr ())"
    using assms(3) by simp
  have end': "(if es = [] then 16 else last (ends_from 16 es)) = length (wal_bytes es)"
    by (simp add: ends_from_last wal_bytes_def)
  have head: "wal_bytes es @ tail = wal_file_header @ concat (map record_bytes es) @ tail"
    by (simp add: wal_bytes_def)
  note header = header_fields [of "concat (map record_bytes es) @ tail", folded head]
  have "16 \<le> length (wal_bytes es)" by (simp add: wal_bytes_def)
  then show ?thesis
    unfolding wal_load_def kFileHeaderBytes_def
    using header scan end' assms(2) by (auto simp: Let_def loaded_def kFileHeaderBytes_def)
qed

lemma load_image:
  assumes "list_all storable es"
  shows "wal_load (Inr ()) resized w (wal_bytes es) = (loaded w es 0, wal_bytes es, Inr ())"
  using load_from_scan [OF assms, of resized "[]" w] by (simp add: wal_scan.simps)

lemma load_torn:
  assumes "list_all storable es" "storable e" "n < length (record_bytes e)"
  shows "wal_load (Inr ()) True w (wal_bytes es @ take n (record_bytes e)) = (loaded w es n, wal_bytes es, Inr ())"
  using load_from_scan [OF assms(1), of True "take n (record_bytes e)" w] scan_torn [OF assms(2,3)] assms(3) by simp

section \<open>The log as a list of events\<close>

definition wal_ok :: "Wal \<Rightarrow> string \<Rightarrow> bool" where
  "wal_ok w file \<longleftrightarrow> list_all storable (wal_events w) \<and> record_ends w = ends_from kFileHeaderBytes (wal_events w)
     \<and> file = wal_bytes (wal_events w)"

definition recover_events :: "string \<Rightarrow> Event list Result" where
  "recover_events file =
     (case wal_load (Inr ()) True (new_wal [] []) file of (w, _, Inr _) \<Rightarrow> Inr (wal_events w) | (_, _, Inl e) \<Rightarrow> Inl e)"

lemma loaded_events [simp]: "wal_events (loaded w es n) = es"
  by (simp add: loaded_def)

lemma wal_ok_loaded: "list_all storable es \<Longrightarrow> wal_ok (loaded w es n) (wal_bytes es)"
  by (simp add: wal_ok_def loaded_def)

lemma recover_image: "list_all storable es \<Longrightarrow> recover_events (wal_bytes es) = Inr es"
  by (simp add: recover_events_def load_image loaded_def)

lemma recover_torn:
  assumes "list_all storable es" "storable e"
  shows "recover_events (wal_bytes es @ take n (record_bytes e)) = Inr (if n < length (record_bytes e) then es else es @ [e])"
proof (cases "n < length (record_bytes e)")
  case True
  then show ?thesis using load_torn [OF assms] by (simp add: recover_events_def loaded_def)
next
  case False
  then have "wal_bytes es @ take n (record_bytes e) = wal_bytes (es @ [e])" by (simp add: wal_bytes_def)
  then show ?thesis using recover_image [of "es @ [e]"] assms False by simp
qed

lemma wal_append_cases:
  assumes "storable e"
  shows "wal_append fault ns e d w file =
    (case append_bytes fault (wal_path w) file (record_bytes e) (d = Sync) of
       (file', Inl err) \<Rightarrow> (w, file', Inl err)
     | (file', Inr _) \<Rightarrow>
         (w\<lparr>wal_events := wal_events w @ [e],
            record_ends := record_ends w @ [(if record_ends w = [] then kFileHeaderBytes else last (record_ends w))
              + length (record_bytes e)],
            wal_stats := (wal_stats w)\<lparr>append_ns := append_ns (wal_stats w) + ns,
              flush_ns := flush_ns (wal_stats w) + (if d = Sync then ns else 0), appends := appends (wal_stats w) + 1\<rparr>\<rparr>,
          file', Inr ()))"
  using assms by (auto simp: wal_append_def storable_def encode_record_layout Let_def split: prod.split sum.split)

lemma wal_append_done:
  assumes "wal_ok w f" "storable e" "wal_append fault ns e d w f = (w', f', Inr ())"
  shows "wal_ok w' f'" "wal_events w' = wal_events w @ [e]"
proof -
  let ?es = "wal_events w"
  obtain u where "append_bytes fault (wal_path w) f (record_bytes e) (d = Sync) = (f', Inr u)"
    using assms(3) by (auto simp: wal_append_cases [OF assms(2)] split: prod.splits sum.splits)
  then have "f' = f @ record_bytes e"
    using append_bytes_ok [of fault "wal_path w" f "record_bytes e" "d = Sync"] by simp
  then have image: "f' = wal_bytes (?es @ [e])" using assms(1) by (simp add: wal_bytes_def wal_ok_def)
  have ends: "record_ends w' = record_ends w @
      [(if record_ends w = [] then kFileHeaderBytes else last (record_ends w)) + length (record_bytes e)]"
    using assms(3) by (auto simp: wal_append_cases [OF assms(2)] split: prod.splits sum.splits)
  show events: "wal_events w' = ?es @ [e]"
    using assms(3) by (auto simp: wal_append_cases [OF assms(2)] split: prod.splits sum.splits)
  show "wal_ok w' f'"
    using assms(1,2) image ends events by (auto simp: wal_ok_def ends_from_snoc ends_from_last)
qed

lemma wal_append_failed:
  assumes "wal_ok w f" "storable e" "wal_append fault ns e d w f = (w', f', Inl err)"
  shows "w' = w" "recover_events f' = Inr (wal_events w) \<or> recover_events f' = Inr (wal_events w @ [e])"
proof -
  show "w' = w" using assms(3) by (auto simp: wal_append_cases [OF assms(2)] split: prod.splits sum.splits)
  have "f' = fst (append_bytes fault (wal_path w) f (record_bytes e) (d = Sync))"
    using assms(3) by (auto simp: wal_append_cases [OF assms(2)] split: prod.splits sum.splits)
  moreover obtain n where "fst (append_bytes fault (wal_path w) f (record_bytes e) (d = Sync)) = f @ take n (record_bytes e)"
    by (rule append_bytes_prefix)
  moreover have "list_all storable (wal_events w)" "f = wal_bytes (wal_events w)" using assms(1) by (simp_all add: wal_ok_def)
  ultimately show "recover_events f' = Inr (wal_events w) \<or> recover_events f' = Inr (wal_events w @ [e])"
    using recover_torn [of "wal_events w" e n] assms(2) by auto
qed

interpretation wal_log: durable_log wal_ok wal_events storable "\<lambda>(fault, ns, d) e. wal_append fault ns e d" recover_events
proof (unfold_locales, goal_cases)
  case (1 w f x c w' f')
  then show ?case by (cases c) (auto dest: wal_append_done)
next
  case (2 w f x c w' f' e)
  then show ?case using wal_append_failed [of w f x] by (cases c) fastforce
next
  case (3 w f)
  then show ?case by (simp add: wal_ok_def recover_image)
qed

interpretation wal_files: stored_file "list_all storable" wal_bytes recover_events
  by unfold_locales (rule recover_image)

section \<open>What the log promises\<close>

text \<open>
  (C8) Acknowledged events survive: append any events to a log, with any fault on any append, until
  one append fails. The object then holds exactly the acknowledged events, and opening the file again
  recovers exactly those, or those followed by the one event whose append failed. A torn record never
  costs an earlier one.
\<close>

theorem acknowledged_events_survive:
  assumes "wal_ok w f" "list_all (\<lambda>(_, e). storable e) ops"
    "append_until_failure (\<lambda>(fault, ns, d) e. wal_append fault ns e d) ops w f = (w', f', r)"
  shows "\<exists>n. wal_events w' = wal_events w @ map snd (take n ops) \<and> (r = Inr () \<longrightarrow> n = length ops) \<and>
    (recover_events f' = Inr (wal_events w')
     \<or> r \<noteq> Inr () \<and> n < length ops \<and> recover_events f' = Inr (wal_events w' @ [snd (ops ! n)]))"
  using assms by (rule wal_log.survives)

lemma sample_storable: "storable sample_event"
proof -
  have "length (canonical_event sample_event) \<le> 200"
    by (simp add: canonical_event_def sample_event_def show_int_def show_u16_def show_u64_def show_nat.simps)
  then show ?thesis using sample_event_ok by (simp add: storable_def kMaxPayloadBytes_def)
qed

lemma new_wal_ok: "wal_ok (new_wal path parent) wal_file_header"
  by (simp add: wal_ok_def new_wal_def wal_bytes_def)

theorem acknowledged_events_survive_witness:
  "\<exists>w' f' e. append_until_failure (\<lambda>(fault, ns, d) e. wal_append fault ns e d)
       [((NoFault, 5, Sync), sample_event), ((ShortWrite 20, 7, Sync), sample_event)]
       (new_wal ''wal.bin'' []) wal_file_header = (w', f', Inl e)
     \<and> wal_events w' = [sample_event]
     \<and> (recover_events f' = Inr [sample_event] \<or> recover_events f' = Inr [sample_event, sample_event])"
proof -
  let ?ops = "[((NoFault, 5, Sync), sample_event), ((ShortWrite 20, 7, Sync), sample_event)] :: ((io_fault \<times> u64 \<times> Durability) \<times> Event) list"
  let ?run = "append_until_failure (\<lambda>(fault, ns, d) e. wal_append fault ns e d) ?ops (new_wal ''wal.bin'' []) wal_file_header"
  obtain w' f' r where run: "?run = (w', f', r)" by (metis prod_cases3)
  have "r \<noteq> Inr ()" "wal_events w' = [sample_event]"
    using run by (auto simp: wal_append_cases [OF sample_storable] append_bytes_def fwrite_def sync_handle_def
        io_error_def new_wal_def)
  then obtain e where e: "r = Inl e" by (cases r) auto
  have "\<exists>n. wal_events w' = [] @ map snd (take n ?ops) \<and> (r = Inr () \<longrightarrow> n = length ?ops) \<and>
    (recover_events f' = Inr (wal_events w')
     \<or> r \<noteq> Inr () \<and> n < length ?ops \<and> recover_events f' = Inr (wal_events w' @ [snd (?ops ! n)]))"
    using acknowledged_events_survive [OF new_wal_ok _ run] sample_storable by (simp add: new_wal_def)
  then show ?thesis
    using run e \<open>wal_events w' = [sample_event]\<close> by (auto simp: less_Suc_eq numeral_2_eq_2)
qed

lemma keep_count_takeWhile: "keep_count es i = length (takeWhile (\<lambda>e. ev_index e \<le> i) es)"
  by (induction es) simp_all

lemma take_wal_bytes:
  assumes "n \<le> length es"
  shows "take (if n = 0 then kFileHeaderBytes else ends_from kFileHeaderBytes es ! (n - 1)) (wal_bytes es) = wal_bytes (take n es)"
proof -
  have "(if n = 0 then kFileHeaderBytes else ends_from kFileHeaderBytes es ! (n - 1)) = length (wal_bytes (take n es))"
    using assms by (simp add: ends_from_nth wal_bytes_def kFileHeaderBytes_def)
  moreover have "wal_bytes es = wal_bytes (take n es) @ concat (map record_bytes (drop n es))"
    unfolding wal_bytes_def append_assoc by (metis append_take_drop_id concat_append map_append)
  ultimately show ?thesis by simp
qed

lemma truncate_refines:
  assumes "wal_ok w f"
  obtains w' f' where "wal_truncate_after True NoFault i w f = (w', f', Inr ())" "wal_ok w' f'"
    "wal_events w' = takeWhile (\<lambda>e. ev_index e \<le> i) (wal_events w)"
proof -
  let ?es = "wal_events w" and ?n = "keep_count (wal_events w) i"
  have n: "?n \<le> length ?es" by (simp add: keep_count_takeWhile length_takeWhile_le)
  have take: "take ?n ?es = takeWhile (\<lambda>e. ev_index e \<le> i) ?es"
    unfolding keep_count_takeWhile by (rule takeWhile_eq_take [symmetric])
  let ?w = "w\<lparr>wal_events := take ?n ?es, record_ends := take ?n (record_ends w)\<rparr>"
  have "wal_truncate_after True NoFault i w f = (?w, wal_bytes (take ?n ?es), Inr ())"
    using assms take_wal_bytes [OF n]
    by (simp add: wal_truncate_after_def wal_ok_def Let_def sync_file_def sync_handle_def split: if_splits)
  moreover have "wal_ok ?w (wal_bytes (take ?n ?es))"
    using assms by (auto simp: wal_ok_def ends_from_take list_all_iff dest: in_set_takeD)
  ultimately show thesis using that take by simp
qed

lemma rewrite_refines:
  assumes "list_all storable es"
  obtains w' where "wal_rewrite NoFault (Inr ()) resized es w f = (w', wal_bytes es, Inr ())" "wal_ok w' (wal_bytes es)"
    "wal_events w' = es"
  using that [of "loaded w es 0"] wal_ok_loaded [OF assms, of w 0]
  by (simp add: wal_rewrite_def encode_wal_layout [OF assms] load_image [OF assms] write_atomic_def fwrite_def
      sync_handle_def sync_directory_def)

text \<open>
  (C30) The log object refines a list of events. While object and file are in step, a successful append
  adds one event at the end, truncation keeps exactly the leading events up to the index, a rewrite
  replaces the list, and each of them leaves object and file in step; loading the file of such a log
  gives its events back and cuts nothing off.
\<close>

theorem wal_refines_event_list:
  assumes "wal_ok w f" "storable e" "list_all storable es"
  shows "(\<exists>w' f'. wal_append NoFault ns e d w f = (w', f', Inr ()) \<and> wal_ok w' f' \<and> wal_events w' = wal_events w @ [e])
    \<and> (\<exists>w' f'. wal_truncate_after True NoFault i w f = (w', f', Inr ()) \<and> wal_ok w' f'
        \<and> wal_events w' = takeWhile (\<lambda>e. ev_index e \<le> i) (wal_events w))
    \<and> (\<exists>w' f'. wal_rewrite NoFault (Inr ()) True es w f = (w', f', Inr ()) \<and> wal_ok w' f' \<and> wal_events w' = es)
    \<and> (\<exists>w'. wal_load (Inr ()) True w f = (w', f, Inr ()) \<and> wal_ok w' f \<and> wal_events w' = wal_events w
        \<and> truncated_tail_bytes (wal_stats w') = truncated_tail_bytes (wal_stats w))"
proof (intro conjI)
  obtain w' f' where append: "wal_append NoFault ns e d w f = (w', f', Inr ())"
    by (cases d) (simp_all add: wal_append_cases [OF assms(2)] append_bytes_def fwrite_def sync_handle_def)
  then show "\<exists>w' f'. wal_append NoFault ns e d w f = (w', f', Inr ()) \<and> wal_ok w' f' \<and> wal_events w' = wal_events w @ [e]"
    using wal_append_done [OF assms(1,2) append] by blast
  show "\<exists>w' f'. wal_truncate_after True NoFault i w f = (w', f', Inr ()) \<and> wal_ok w' f'
      \<and> wal_events w' = takeWhile (\<lambda>e. ev_index e \<le> i) (wal_events w)"
    using truncate_refines [OF assms(1)] by blast
  show "\<exists>w' f'. wal_rewrite NoFault (Inr ()) True es w f = (w', f', Inr ()) \<and> wal_ok w' f' \<and> wal_events w' = es"
    using rewrite_refines [OF assms(3)] by blast
  show "\<exists>w'. wal_load (Inr ()) True w f = (w', f, Inr ()) \<and> wal_ok w' f \<and> wal_events w' = wal_events w
      \<and> truncated_tail_bytes (wal_stats w') = truncated_tail_bytes (wal_stats w)"
    using assms(1) load_image [of "wal_events w" True w] wal_ok_loaded [of "wal_events w" w 0]
    by (simp add: wal_ok_def loaded_def)
qed

theorem wal_refines_event_list_witness:
  "\<exists>w' f'. wal_append NoFault 5 sample_event Sync (new_wal ''wal.bin'' []) wal_file_header = (w', f', Inr ())
     \<and> wal_ok w' f' \<and> wal_events w' = [sample_event]"
  using wal_refines_event_list [OF new_wal_ok [of "''wal.bin''" "[]"] sample_storable, of "[]" 5 Sync 0] by (simp add: new_wal_def)

section \<open>Damage the scan takes for a torn tail\<close>

text \<open>
  The magic number of the last record and the length field of any record are not covered by a check
  of their own. A last record whose magic number is damaged is dropped as a tail although all its
  bytes are present, unless its payload happens to contain the magic bytes; and a length that was
  damaged upwards makes the scan drop that record and every later one.
\<close>

lemma damaged_magic_drops_record:
  assumes "list_all storable es" "b \<noteq> CHR ''L''" "\<not> later_magic (tl (record_bytes e))"
  shows "recover_events (wal_bytes es @ b # tl (record_bytes e)) = Inr es"
proof -
  let ?pre = "wal_bytes es" and ?tail = "b # tl (record_bytes e)"
  have size: "length ?tail = 32 + length (canonical_event e)" by simp
  have "get_u32 (?pre @ ?tail) (length ?pre) \<noteq> kRecordMagic"
  proof
    assume "get_u32 (?pre @ ?tail) (length ?pre) = kRecordMagic"
    then have "byte_of kRecordMagic 0 = b"
      using byte_of_read_le [where 'a = 32, of 4 0 "?pre @ ?tail" "length ?pre"] by (simp add: get_u32_def)
    moreover have "byte_of kRecordMagic 0 = CHR ''L''" by code_simp
    ultimately show False using assms(2) by simp
  qed
  then have "wal_scan (?pre @ ?tail) (length ?pre) events ends = (events, ends, length ?tail, Inr ())" for events ends
    using assms(3) size by (subst wal_scan.simps) (simp add: Let_def kRecordPrefix_def)
  then show ?thesis
    using load_from_scan [OF assms(1), of True ?tail "new_wal [] []"] by (simp add: recover_events_def)
qed

lemma byte_of_nat: "byte_of v i = char_of (unat v div 256 ^ i)"
proof -
  have "unat (take_bit 8 (drop_bit (8 * i) v)) = take_bit 8 (drop_bit (8 * i) (unat v))"
    by (simp add: unsigned_take_bit_eq unat_drop_bit_eq)
  also have "\<dots> = unat v div 256 ^ i mod 256"
    by (simp add: take_bit_eq_mod drop_bit_eq_div power_mult)
  finally have "code_of (byte_of v i) = unat v div 256 ^ i mod 256" by (simp add: code_byte_of)
  then have "code_of (byte_of v i) = code_of (char_of (unat v div 256 ^ i))" by simp
  then show ?thesis by (simp only: of_char_eq_iff)
qed

lemma unat_u32: "m < 2 ^ 32 \<Longrightarrow> unat (of_nat m :: u32) = m"
  by (simp add: unat_of_nat)

lemma le_bytes_third_byte:
  assumes "n < 65536"
  shows "(le_bytes 4 (of_nat n :: u32))[2 := CHR 0x01] = le_bytes 4 (of_nat (n + 65536) :: u32)"
proof -
  have same: "char_of a = char_of b" if "a mod 256 = b mod 256" for a b :: nat
    using that by (metis of_char_of of_char_eq_iff)
  have "(n + 256 * 256) mod 256 = n mod 256" by (rule mod_mult_self1)
  then have low: "char_of (n + 65536) = char_of n" by (intro same) simp
  have "(n + 256 * 256) div 256 = 256 + n div 256" by (rule div_mult_self1) simp
  then have second: "char_of ((n + 65536) div 256) = char_of (n div 256)" by (intro same) simp
  have "(n + 65536) div 65536 = 1" using assms by (intro div_nat_eqI) simp_all
  moreover have "char_of (1 :: nat) = CHR 0x01" by code_simp
  ultimately have third: "char_of ((n + 65536) div 65536) = CHR 0x01" by simp
  have fourth: "(n + 65536) div 16777216 = 0" "n div 16777216 = 0" using assms by simp_all
  have "[0..<4] = [0, 1, 2, 3 :: nat]" by (simp add: upt_rec)
  moreover note unat_u32 [of n] unat_u32 [of "n + 65536"]
  ultimately show ?thesis
    unfolding le_bytes_def byte_of_nat using assms low second third fourth by (simp del: of_nat_add)
qed

lemma damaged_length_drops_log:
  assumes "length (canonical_event e) < 65536" "length (concat (map record_bytes es)) < 65536"
  shows "recover_events ((wal_bytes (e # es))[26 := CHR 0x01]) = Inr []"
proof -
  let ?n = "length (canonical_event e)"
  let ?head = "le_bytes 4 kRecordMagic @ le_bytes 2 kVersion @ le_bytes 2 (0 :: u16)"
  let ?tail = "le_bytes 8 (ev_term e) @ le_bytes 8 (ev_index e) @ canonical_event e
    @ le_bytes 4 (crc32 (record_body e)) @ concat (map record_bytes es)"
  let ?damaged = "?head @ le_bytes 4 (of_nat (?n + 65536) :: u32) @ ?tail"
  have "wal_bytes (e # es) = wal_file_header @ ?head @ le_bytes 4 (of_nat ?n :: u32) @ ?tail"
    by (simp add: wal_bytes_def record_bytes_def record_body_def record_prefix_def)
  then have image: "(wal_bytes (e # es))[26 := CHR 0x01] = wal_bytes [] @ ?damaged"
    by (simp add: list_update_append wal_bytes_def le_bytes_third_byte [OF assms(1)])
  have fields: "get_u32 ?damaged 0 = kRecordMagic" "get_u16 ?damaged 4 = kVersion"
    "get_u32 ?damaged 8 = of_nat (?n + 65536)"
    using get_written(2) [of "[]" 0 kRecordMagic] get_written(1) [of "le_bytes 4 kRecordMagic" 4 kVersion]
      get_written(2) [of ?head 8 "of_nat (?n + 65536)" ?tail]
    by (simp_all del: of_nat_add)
  have big: "unat (of_nat (?n + 65536) :: u32) = ?n + 65536" by (rule unat_u32) (use assms(1) in simp)
  have "length ?damaged < 32 + unat (get_u32 ?damaged 8)"
    unfolding fields big using assms(2) by simp
  then have "wal_scan (wal_bytes [] @ ?damaged) (length (wal_bytes [])) events ends = (events, ends, length ?damaged, Inr ())"
    for events ends
    using scan_cut [OF fields(1,2)] assms(1) unfolding fields(3) big by (simp add: kMaxPayloadBytes_def)
  then show ?thesis
    using load_from_scan [of "[]" True ?damaged "new_wal [] []"] by (simp add: recover_events_def image)
qed

end
