(* ===== verification/Install_Transaction.thy ===== *)
theory Install_Transaction
  imports Store_Recovery Wal_Recovery
begin

text \<open>
  The redo journal of \<open>storage/transaction.cpp\<close>. Installing a snapshot replaces three files of the
  data directory; one journal file that holds the three replacement images decides the installation,
  and recovery completes a decided one before anything else reads the directory.
\<close>

section \<open>The data directory\<close>

text \<open>
  The files of a node: journal, metadata, write-ahead log and the folder of snapshots, each
  possibly missing.
\<close>

record DataDir =
  dd_journal :: "string option"
  dd_meta :: "string option"
  dd_wal :: "string option"
  dd_snapshots :: "(string, string) smap option"

definition snapshot_file :: "DataDir \<Rightarrow> string \<Rightarrow> string option" where
  "snapshot_file d name = (case dd_snapshots d of None \<Rightarrow> None | Some files \<Rightarrow> map_of files name)"

definition put_snapshot :: "string \<Rightarrow> string option \<Rightarrow> DataDir \<Rightarrow> DataDir" where
  "put_snapshot name bytes d =
     (let files = (case dd_snapshots d of None \<Rightarrow> [] | Some files \<Rightarrow> files) in
      d\<lparr>dd_snapshots := Some (case bytes of None \<Rightarrow> sm_erase name files | Some b \<Rightarrow> sm_assign name b files)\<rparr>)"

section \<open>Journal format\<close>

datatype InstallFault = NoInstallFault | AfterJournal | AfterSnapshot | AfterMetadata | AfterWal

record SnapshotTransaction =
  tx_index :: u64
  tx_snapshot :: string
  tx_metadata :: string
  tx_wal :: string

definition kMaximumBytes :: nat where
  "kMaximumBytes = 128 * 1024 * 1024"

definition kHeaderBytes :: nat where
  "kHeaderBytes = 32"

abbreviation txn_invalid :: "string \<Rightarrow> 'a Result" where
  "txn_invalid why \<equiv> fail StoreError (''snapshot transaction: '' @ why)"

fun fit_parts :: "nat \<Rightarrow> string list \<Rightarrow> nat Result" where
  "fit_parts room [] = Inr room"
| "fit_parts room (part # parts) =
     (if room < length part then txn_invalid ''replacement images exceed 128 MiB''
      else fit_parts (room - length part) parts)"

definition encode_transaction :: "SnapshotTransaction \<Rightarrow> string Result" where
  "encode_transaction v =
     bindE (fit_parts (kMaximumBytes - kHeaderBytes - 4) [tx_snapshot v, tx_metadata v, tx_wal v]) (\<lambda>_.
     if tx_index v = 0 \<or> tx_snapshot v = [] \<or> tx_metadata v = [] \<or> tx_wal v = []
     then txn_invalid ''missing index or replacement image''
     else let
       bytes = zeros kHeaderBytes;
       bytes = put bytes 0 ''CHOSTXN1'';
       bytes = write_u32 bytes 8 1;
       bytes = write_u64 bytes 12 (tx_index v);
       bytes = write_u32 bytes 20 (of_nat (length (tx_snapshot v)));
       bytes = write_u32 bytes 24 (of_nat (length (tx_metadata v)));
       bytes = write_u32 bytes 28 (of_nat (length (tx_wal v)));
       bytes = bytes @ tx_snapshot v;
       bytes = bytes @ tx_metadata v;
       bytes = bytes @ tx_wal v;
       checksum = crc32 bytes;
       end' = length bytes
     in Inr (write_u32 (bytes @ zeros 4) end' checksum))"

text \<open>The loop over the three images: the next length field, the cursor and the images read so far.\<close>

fun take_parts :: "string \<Rightarrow> nat \<Rightarrow> nat \<Rightarrow> nat \<Rightarrow> string list \<Rightarrow> (nat \<times> string list) Result" where
  "take_parts bytes 0 field cursor parts = Inr (cursor, parts)"
| "take_parts bytes (Suc n) field cursor parts =
     (let len = unat (get_u32 bytes field) in
      if len = 0 \<or> length bytes - 4 - cursor < len then txn_invalid ''invalid replacement image length''
      else take_parts bytes n (field + 4) (cursor + len) (parts @ [sub_bytes bytes cursor len]))"

definition decode_transaction :: "string \<Rightarrow> SnapshotTransaction Result" where
  "decode_transaction bytes =
     (if length bytes < kHeaderBytes + 4 \<or> kMaximumBytes < length bytes then txn_invalid ''invalid journal size''
      else if take 8 bytes \<noteq> ''CHOSTXN1'' \<or> get_u32 bytes 8 \<noteq> 1 \<or> get_u64 bytes 12 = 0
         \<or> crc32 (take (length bytes - 4) bytes) \<noteq> get_u32 bytes (length bytes - 4)
      then txn_invalid ''invalid journal header or checksum''
      else bindE (take_parts bytes 3 20 kHeaderBytes []) (\<lambda>(cursor, parts).
        if cursor \<noteq> length bytes - 4 then txn_invalid ''trailing journal data''
        else Inr \<lparr>tx_index = get_u64 bytes 12, tx_snapshot = parts ! 0, tx_metadata = parts ! 1, tx_wal = parts ! 2\<rparr>))"

section \<open>Installation and recovery\<close>

text \<open>
  What the system does to the calls of one run: looking for the journal, resolving the directory and
  syncing its ancestors, writing the journal, creating the snapshot folder and syncing its parent,
  writing the three files, removing the journal and the last sync, and reading an existing journal.
\<close>

record SystemCalls =
  sc_stat :: "string option"
  sc_absolute :: bool
  sc_ancestors :: "(string \<times> io_fault) list"
  sc_journal :: io_fault
  sc_mkdir :: "string option"
  sc_folder :: io_fault
  sc_snapshot :: io_fault
  sc_meta :: io_fault
  sc_wal :: io_fault
  sc_remove :: bool
  sc_last :: io_fault
  sc_size :: bool
  sc_read :: "unit Result"

definition journal_exists :: "SystemCalls \<Rightarrow> DataDir \<Rightarrow> bool Result" where
  "journal_exists sc d =
     (case sc_stat sc of Some why \<Rightarrow> txn_invalid (''stat failed: '' @ why) | None \<Rightarrow> Inr (dd_journal d \<noteq> None))"

definition remove_journal :: "SystemCalls \<Rightarrow> string \<Rightarrow> DataDir \<Rightarrow> DataDir \<times> unit Result" where
  "remove_journal sc directory d =
     (if \<not> sc_remove sc \<or> dd_journal d = None then (d, txn_invalid ''cannot remove completed journal'')
      else (d\<lparr>dd_journal := None\<rparr>, sync_directory (sc_last sc) directory))"

definition install_wal :: "SystemCalls \<Rightarrow> string \<Rightarrow> SnapshotTransaction \<Rightarrow> InstallFault \<Rightarrow> DataDir \<Rightarrow> DataDir \<times> unit Result" where
  "install_wal sc directory v fault d =
     (case write_atomic (sc_wal sc) directory (directory @ ''/wal.bin'') (dd_wal d) (tx_wal v) True None of
        (held, Inl e) \<Rightarrow> (d\<lparr>dd_wal := held\<rparr>, Inl e)
      | (held, Inr _) \<Rightarrow>
          if fault = AfterWal then (d\<lparr>dd_wal := held\<rparr>, txn_invalid ''injected interruption after WAL'')
          else remove_journal sc directory (d\<lparr>dd_wal := held\<rparr>))"

definition install_meta :: "SystemCalls \<Rightarrow> string \<Rightarrow> SnapshotTransaction \<Rightarrow> InstallFault \<Rightarrow> DataDir \<Rightarrow> DataDir \<times> unit Result" where
  "install_meta sc directory v fault d =
     (case write_atomic (sc_meta sc) directory (directory @ ''/meta.bin'') (dd_meta d) (tx_metadata v) True None of
        (held, Inl e) \<Rightarrow> (d\<lparr>dd_meta := held\<rparr>, Inl e)
      | (held, Inr _) \<Rightarrow>
          if fault = AfterMetadata then (d\<lparr>dd_meta := held\<rparr>, txn_invalid ''injected interruption after metadata'')
          else install_wal sc directory v fault (d\<lparr>dd_meta := held\<rparr>))"

definition apply_transaction ::
  "SystemCalls \<Rightarrow> string \<Rightarrow> SnapshotTransaction \<Rightarrow> InstallFault \<Rightarrow> DataDir \<Rightarrow> DataDir \<times> unit Result" where
  "apply_transaction sc directory v fault d =
     (if fault = AfterJournal then (d, txn_invalid ''injected interruption after journal'')
      else case sc_mkdir sc of
        Some why \<Rightarrow> (d, txn_invalid (''cannot create snapshot directory: '' @ why))
      | None \<Rightarrow>
        let d = d\<lparr>dd_snapshots := Some (case dd_snapshots d of None \<Rightarrow> [] | Some files \<Rightarrow> files)\<rparr> in
        case sync_directory (sc_folder sc) directory of
          Inl e \<Rightarrow> (d, Inl e)
        | Inr _ \<Rightarrow>
          let name = snapshot_name (tx_index v) in
          case write_atomic (sc_snapshot sc) (directory @ ''/snapshots'') (directory @ ''/snapshots/'' @ name)
              (snapshot_file d name) (tx_snapshot v) True None of
            (held, Inl e) \<Rightarrow> (put_snapshot name held d, Inl e)
          | (held, Inr _) \<Rightarrow>
              if fault = AfterSnapshot
              then (put_snapshot name held d, txn_invalid ''injected interruption after snapshot'')
              else install_meta sc directory v fault (put_snapshot name held d))"

definition commit_snapshot_transaction ::
  "SystemCalls \<Rightarrow> string \<Rightarrow> SnapshotTransaction \<Rightarrow> InstallFault \<Rightarrow> DataDir \<Rightarrow> DataDir \<times> unit Result" where
  "commit_snapshot_transaction sc directory v fault d =
     (case bindE (journal_exists sc d) (\<lambda>pending.
           if pending then txn_invalid ''pending install requires recovery''
           else bindE (encode_transaction v) (\<lambda>bytes.
             if \<not> sc_absolute sc then txn_invalid ''cannot resolve store directory''
             else bindE (foldE (\<lambda>_ (path, f). sync_directory f path) () (sc_ancestors sc)) (\<lambda>_. Inr bytes))) of
        Inl e \<Rightarrow> (d, Inl e)
      | Inr bytes \<Rightarrow>
          (case write_atomic (sc_journal sc) directory (directory @ ''/snapshot-install.txn'') (dd_journal d) bytes True None of
             (held, Inl e) \<Rightarrow> (d\<lparr>dd_journal := held\<rparr>, Inl e)
           | (held, Inr _) \<Rightarrow> apply_transaction sc directory v fault (d\<lparr>dd_journal := held\<rparr>)))"

definition recover_snapshot_transaction :: "SystemCalls \<Rightarrow> string \<Rightarrow> DataDir \<Rightarrow> DataDir \<times> unit Result" where
  "recover_snapshot_transaction sc directory d =
     (case journal_exists sc d of
        Inl e \<Rightarrow> (d, Inl e)
      | Inr pending \<Rightarrow>
          (case dd_journal d of
             None \<Rightarrow> (d, sync_directory (sc_last sc) directory)
           | Some bytes \<Rightarrow>
               if \<not> sc_size sc \<or> kMaximumBytes < length bytes then (d, txn_invalid ''unreadable or oversized journal'')
               else case bindE (sc_read sc) (\<lambda>_. decode_transaction bytes) of
                 Inl e \<Rightarrow> (d, Inl e)
               | Inr v \<Rightarrow> apply_transaction sc directory v NoInstallFault d))"

end
