(* ===== verification/Install_Recovery.thy ===== *)
theory Install_Recovery
  imports Install_Transaction
begin

text \<open>
  A snapshot installation is atomic: after any interruption recovery finds the old files or completes
  the new ones, and recovery always can complete.
\<close>

section \<open>The journal reads back\<close>

definition transaction_ok :: "SnapshotTransaction \<Rightarrow> bool" where
  "transaction_ok v \<longleftrightarrow> tx_index v \<noteq> 0 \<and> tx_snapshot v \<noteq> [] \<and> tx_metadata v \<noteq> [] \<and> tx_wal v \<noteq> []
     \<and> length (tx_snapshot v) + length (tx_metadata v) + length (tx_wal v) \<le> kMaximumBytes - kHeaderBytes - 4"

definition transaction_header :: "SnapshotTransaction \<Rightarrow> string" where
  "transaction_header v = ''CHOSTXN1'' @ le_bytes 4 (1 :: u32) @ le_bytes 8 (tx_index v)
     @ le_bytes 4 (of_nat (length (tx_snapshot v)) :: u32) @ le_bytes 4 (of_nat (length (tx_metadata v)) :: u32)
     @ le_bytes 4 (of_nat (length (tx_wal v)) :: u32)"

definition transaction_body :: "SnapshotTransaction \<Rightarrow> string" where
  "transaction_body v = transaction_header v @ tx_snapshot v @ tx_metadata v @ tx_wal v"

definition transaction_bytes :: "SnapshotTransaction \<Rightarrow> string" where
  "transaction_bytes v = transaction_body v @ le_bytes 4 (crc32 (transaction_body v))"

lemmas txn_limits = kMaximumBytes_def kHeaderBytes_def

lemma length_transaction_header [simp]: "length (transaction_header v) = 32"
  by (simp add: transaction_header_def)

lemma fit_parts_iff: "is_ok (fit_parts room parts) \<longleftrightarrow> sum_list (map length parts) \<le> room"
  by (induction parts arbitrary: room) (auto simp: le_diff_conv2)

lemma encode_transaction_ok_iff: "is_ok (encode_transaction v) \<longleftrightarrow> transaction_ok v"
proof (cases "fit_parts (kMaximumBytes - kHeaderBytes - 4) [tx_snapshot v, tx_metadata v, tx_wal v]")
  case (Inl e)
  then have "\<not> transaction_ok v"
    using fit_parts_iff [of "kMaximumBytes - kHeaderBytes - 4" "[tx_snapshot v, tx_metadata v, tx_wal v]"]
    by (simp add: transaction_ok_def)
  then show ?thesis unfolding encode_transaction_def Inl by simp
next
  case (Inr n)
  then have "length (tx_snapshot v) + length (tx_metadata v) + length (tx_wal v) \<le> kMaximumBytes - kHeaderBytes - 4"
    using fit_parts_iff [of "kMaximumBytes - kHeaderBytes - 4" "[tx_snapshot v, tx_metadata v, tx_wal v]"] by simp
  then show ?thesis unfolding encode_transaction_def Inr by (simp add: transaction_ok_def Let_def)
qed

lemma encode_transaction_layout:
  assumes "transaction_ok v"
  shows "encode_transaction v = Inr (transaction_bytes v)"
proof -
  let ?n1 = "of_nat (length (tx_snapshot v)) :: u32" and ?n2 = "of_nat (length (tx_metadata v)) :: u32"
    and ?n3 = "of_nat (length (tx_wal v)) :: u32"
  have 1: "put (zeros kHeaderBytes) 0 ''CHOSTXN1'' = ''CHOSTXN1'' @ zeros 24"
    by (simp add: put_first txn_limits)
  have 2: "write_u32 (''CHOSTXN1'' @ zeros 24) 8 1 = (''CHOSTXN1'' @ le_bytes 4 (1 :: u32)) @ zeros 20"
    by (subst write_zeros) simp_all
  have 3: "write_u64 ((''CHOSTXN1'' @ le_bytes 4 (1 :: u32)) @ zeros 20) 12 (tx_index v)
      = (''CHOSTXN1'' @ le_bytes 4 (1 :: u32) @ le_bytes 8 (tx_index v)) @ zeros 12"
    by (subst write_zeros) simp_all
  have 4: "write_u32 ((''CHOSTXN1'' @ le_bytes 4 (1 :: u32) @ le_bytes 8 (tx_index v)) @ zeros 12) 20 ?n1
      = (''CHOSTXN1'' @ le_bytes 4 (1 :: u32) @ le_bytes 8 (tx_index v) @ le_bytes 4 ?n1) @ zeros 8"
    by (subst write_zeros) simp_all
  have 5: "write_u32 ((''CHOSTXN1'' @ le_bytes 4 (1 :: u32) @ le_bytes 8 (tx_index v) @ le_bytes 4 ?n1) @ zeros 8) 24 ?n2
      = (''CHOSTXN1'' @ le_bytes 4 (1 :: u32) @ le_bytes 8 (tx_index v) @ le_bytes 4 ?n1 @ le_bytes 4 ?n2) @ zeros 4"
    by (subst write_zeros) simp_all
  have 6: "write_u32 ((''CHOSTXN1'' @ le_bytes 4 (1 :: u32) @ le_bytes 8 (tx_index v) @ le_bytes 4 ?n1 @ le_bytes 4 ?n2) @ zeros 4) 28 ?n3
      = transaction_header v"
    by (subst write_zeros) (simp_all add: transaction_header_def)
  have 7: "write_u32 (transaction_body v @ zeros 4) (length (transaction_body v)) (crc32 (transaction_body v)) = transaction_bytes v"
    by (subst write_zeros) (simp_all add: transaction_bytes_def)
  obtain room where "fit_parts (kMaximumBytes - kHeaderBytes - 4) [tx_snapshot v, tx_metadata v, tx_wal v] = Inr room"
    using fit_parts_iff [of "kMaximumBytes - kHeaderBytes - 4" "[tx_snapshot v, tx_metadata v, tx_wal v]"] assms
    by (auto simp: transaction_ok_def is_ok_iff)
  then show ?thesis
    using assms 7 unfolding encode_transaction_def
    by (simp only: bindE_simps Let_def 1 2 3 4 5 6) (simp add: transaction_ok_def transaction_body_def)
qed

lemma transaction_fields:
  "take 8 (transaction_bytes v) = ''CHOSTXN1''" "get_u32 (transaction_bytes v) 8 = 1"
  "get_u64 (transaction_bytes v) 12 = tx_index v"
  "get_u32 (transaction_bytes v) 20 = of_nat (length (tx_snapshot v))"
  "get_u32 (transaction_bytes v) 24 = of_nat (length (tx_metadata v))"
  "get_u32 (transaction_bytes v) 28 = of_nat (length (tx_wal v))"
proof -
  let ?n1 = "of_nat (length (tx_snapshot v)) :: u32" and ?n2 = "of_nat (length (tx_metadata v)) :: u32"
  note layout = transaction_bytes_def transaction_body_def transaction_header_def
  show "take 8 (transaction_bytes v) = ''CHOSTXN1''" by (simp add: layout)
  show "get_u32 (transaction_bytes v) 8 = 1"
    using get_written(2) [of "''CHOSTXN1''" 8 1] by (simp add: layout)
  show "get_u64 (transaction_bytes v) 12 = tx_index v"
    using get_written(3) [of "''CHOSTXN1'' @ le_bytes 4 (1 :: u32)" 12 "tx_index v"] by (simp add: layout)
  show "get_u32 (transaction_bytes v) 20 = ?n1"
    using get_written(2) [of "''CHOSTXN1'' @ le_bytes 4 (1 :: u32) @ le_bytes 8 (tx_index v)" 20 ?n1] by (simp add: layout)
  show "get_u32 (transaction_bytes v) 24 = ?n2"
    using get_written(2) [of "''CHOSTXN1'' @ le_bytes 4 (1 :: u32) @ le_bytes 8 (tx_index v) @ le_bytes 4 ?n1" 24 ?n2]
    by (simp add: layout)
  show "get_u32 (transaction_bytes v) 28 = of_nat (length (tx_wal v))"
    using get_written(2) [of "''CHOSTXN1'' @ le_bytes 4 (1 :: u32) @ le_bytes 8 (tx_index v) @ le_bytes 4 ?n1 @ le_bytes 4 ?n2" 28
      "of_nat (length (tx_wal v))"] by (simp add: layout)
qed

lemma sub_bytes_part: "length pre = k \<Longrightarrow> n = length part \<Longrightarrow> sub_bytes (pre @ part @ post) k n = part"
  by (simp add: sub_bytes_def)

lemma decode_transaction_bytes:
  assumes "transaction_ok v"
  shows "decode_transaction (transaction_bytes v) = Inr v"
proof -
  let ?b = "transaction_bytes v" and ?s = "tx_snapshot v" and ?m = "tx_metadata v" and ?w = "tx_wal v"
  have size': "length ?b = 36 + length ?s + length ?m + length ?w"
    by (simp add: transaction_bytes_def transaction_body_def)
  have small: "length ?s + length ?m + length ?w + 36 \<le> 134217728" "tx_index v \<noteq> 0" "?s \<noteq> []" "?m \<noteq> []" "?w \<noteq> []"
    using assms by (simp_all add: transaction_ok_def txn_limits)
  have lens: "unat (of_nat (length ?s) :: u32) = length ?s" "unat (of_nat (length ?m) :: u32) = length ?m"
    "unat (of_nat (length ?w) :: u32) = length ?w"
    by (rule unat_u32, use small in simp)+
  have parts: "sub_bytes ?b 32 (length ?s) = ?s" "sub_bytes ?b (32 + length ?s) (length ?m) = ?m"
    "sub_bytes ?b (32 + length ?s + length ?m) (length ?w) = ?w"
    using sub_bytes_part [of "transaction_header v" 32 "length ?s" ?s "?m @ ?w @ le_bytes 4 (crc32 (transaction_body v))"]
      sub_bytes_part [of "transaction_header v @ ?s" "32 + length ?s" "length ?m" ?m "?w @ le_bytes 4 (crc32 (transaction_body v))"]
      sub_bytes_part [of "transaction_header v @ ?s @ ?m" "32 + length ?s + length ?m" "length ?w" ?w "le_bytes 4 (crc32 (transaction_body v))"]
    by (simp_all add: transaction_bytes_def transaction_body_def)
  have sealed: "crc32 (take (length ?b - 4) ?b) = get_u32 ?b (length ?b - 4)"
    using sealed_iff [of ?b] by (auto simp: transaction_bytes_def sealed_def)
  have "take_parts ?b 3 20 kHeaderBytes [] = Inr (32 + length ?s + length ?m + length ?w, [?s, ?m, ?w])"
    using small lens parts by (simp add: numeral_3_eq_3 transaction_fields Let_def size' kHeaderBytes_def)
  moreover have "\<not> (length ?b < kHeaderBytes + 4 \<or> kMaximumBytes < length ?b)"
    using small(1) by (simp add: size' txn_limits)
  ultimately show ?thesis
    using small(2) sealed unfolding decode_transaction_def
    by (simp add: transaction_fields size')
qed

interpretation journals: stored_file transaction_ok transaction_bytes decode_transaction
  by unfold_locales (rule decode_transaction_bytes)

section \<open>Old files or new files\<close>

definition others_kept :: "SnapshotTransaction \<Rightarrow> DataDir \<Rightarrow> DataDir \<Rightarrow> bool" where
  "others_kept v d0 d \<longleftrightarrow>
     (\<forall>name. name \<noteq> snapshot_name (tx_index v) \<longrightarrow> snapshot_file d name = snapshot_file d0 name)"

definition same_files :: "DataDir \<Rightarrow> DataDir \<Rightarrow> bool" where
  "same_files d0 d \<longleftrightarrow> dd_meta d = dd_meta d0 \<and> dd_wal d = dd_wal d0 \<and> snapshot_file d = snapshot_file d0"

definition installed :: "SnapshotTransaction \<Rightarrow> DataDir \<Rightarrow> DataDir \<Rightarrow> bool" where
  "installed v d0 d \<longleftrightarrow> dd_meta d = Some (tx_metadata v) \<and> dd_wal d = Some (tx_wal v)
     \<and> snapshot_file d (snapshot_name (tx_index v)) = Some (tx_snapshot v) \<and> others_kept v d0 d"

definition decided :: "SnapshotTransaction \<Rightarrow> DataDir \<Rightarrow> DataDir \<Rightarrow> bool" where
  "decided v d0 d \<longleftrightarrow> transaction_ok v \<and> dd_journal d = Some (transaction_bytes v) \<and> others_kept v d0 d"

text \<open>A directory during an installation: untouched, decided, or complete.\<close>

definition install_state :: "SnapshotTransaction \<Rightarrow> DataDir \<Rightarrow> DataDir \<Rightarrow> bool" where
  "install_state v d0 d \<longleftrightarrow> dd_journal d = None \<and> same_files d0 d \<or> decided v d0 d \<or> dd_journal d = None \<and> installed v d0 d
     \<and> transaction_ok v"

lemma snapshot_file_put:
  "snapshot_file (put_snapshot name bytes d) other = (if other = name then bytes else snapshot_file d other)"
  by (auto simp: snapshot_file_def put_snapshot_def Let_def split: option.splits)

lemma put_snapshot_fields [simp]:
  "dd_journal (put_snapshot name bytes d) = dd_journal d" "dd_meta (put_snapshot name bytes d) = dd_meta d"
  "dd_wal (put_snapshot name bytes d) = dd_wal d"
  by (simp_all add: put_snapshot_def Let_def)

lemma others_kept_fields [simp]:
  "others_kept v d0 (d\<lparr>dd_journal := j\<rparr>) = others_kept v d0 d" "others_kept v d0 (d\<lparr>dd_meta := m\<rparr>) = others_kept v d0 d"
  "others_kept v d0 (d\<lparr>dd_wal := w\<rparr>) = others_kept v d0 d"
  "others_kept v d0 (put_snapshot (snapshot_name (tx_index v)) bytes d) = others_kept v d0 d"
  "others_kept v d0 (d\<lparr>dd_snapshots := Some (case dd_snapshots d of None \<Rightarrow> [] | Some files \<Rightarrow> files)\<rparr>) = others_kept v d0 d"
  by (auto simp: others_kept_def snapshot_file_put) (auto simp: snapshot_file_def split: option.splits)

lemma write_atomic_Inr: "write_atomic fault parent path old bytes True None = (held, Inr u) \<Longrightarrow> held = Some bytes"
  using write_atomic_ok [of fault parent path old bytes True None] by simp

text \<open>
  What the remaining stages of an installation may end in: an error with the decision still in the
  journal or all work done, or success with all work done.
\<close>

definition stage_result :: "SnapshotTransaction \<Rightarrow> DataDir \<Rightarrow> DataDir \<times> unit Result \<Rightarrow> bool" where
  "stage_result v d0 res \<longleftrightarrow> (case res of
       (d, Inl e) \<Rightarrow> decided v d0 d \<or> dd_journal d = None \<and> installed v d0 d
     | (d, Inr _) \<Rightarrow> dd_journal d = None \<and> installed v d0 d)"

lemma remove_stage:
  "decided v d0 d \<Longrightarrow> installed v d0 d \<Longrightarrow> stage_result v d0 (remove_journal sc directory d)"
  by (auto simp: stage_result_def remove_journal_def installed_def snapshot_file_def split: sum.split)

lemma wal_stage:
  assumes "decided v d0 d" "dd_meta d = Some (tx_metadata v)" "snapshot_file d (snapshot_name (tx_index v)) = Some (tx_snapshot v)"
  shows "stage_result v d0 (install_wal sc directory v fault d)"
proof (cases "write_atomic (sc_wal sc) directory (directory @ ''/wal.bin'') (dd_wal d) (tx_wal v) True None")
  case (Pair held r)
  have kept: "decided v d0 (d\<lparr>dd_wal := held\<rparr>)" using assms(1) by (simp add: decided_def)
  show ?thesis
  proof (cases r)
    case (Inl e)
    then show ?thesis using Pair kept by (simp add: install_wal_def stage_result_def)
  next
    case (Inr u)
    have "installed v d0 (d\<lparr>dd_wal := held\<rparr>)"
      using write_atomic_Inr [OF Pair [unfolded Inr]] assms by (simp add: installed_def decided_def snapshot_file_def)
    then have "stage_result v d0 (remove_journal sc directory (d\<lparr>dd_wal := held\<rparr>))" by (rule remove_stage [OF kept])
    then show ?thesis using Pair Inr kept by (simp add: install_wal_def) (simp add: stage_result_def)
  qed
qed

lemma meta_stage:
  assumes "decided v d0 d" "snapshot_file d (snapshot_name (tx_index v)) = Some (tx_snapshot v)"
  shows "stage_result v d0 (install_meta sc directory v fault d)"
proof (cases "write_atomic (sc_meta sc) directory (directory @ ''/meta.bin'') (dd_meta d) (tx_metadata v) True None")
  case (Pair held r)
  have kept: "decided v d0 (d\<lparr>dd_meta := held\<rparr>)" using assms(1) by (simp add: decided_def)
  show ?thesis
  proof (cases r)
    case (Inl e)
    then show ?thesis using Pair kept by (simp add: install_meta_def stage_result_def)
  next
    case (Inr u)
    have "stage_result v d0 (install_wal sc directory v fault (d\<lparr>dd_meta := held\<rparr>))"
      by (rule wal_stage [OF kept]) (use write_atomic_Inr [OF Pair [unfolded Inr]] assms(2) in \<open>simp_all add: snapshot_file_def\<close>)
    then show ?thesis using Pair Inr kept by (simp add: install_meta_def) (simp add: stage_result_def)
  qed
qed

lemma apply_stage:
  assumes "decided v d0 d"
  shows "stage_result v d0 (apply_transaction sc directory v fault d)"
proof -
  let ?name = "snapshot_name (tx_index v)"
  define e where "e = d\<lparr>dd_snapshots := Some (case dd_snapshots d of None \<Rightarrow> [] | Some files \<Rightarrow> files)\<rparr>"
  have made: "decided v d0 e" using assms by (simp add: decided_def e_def)
  obtain held r where written: "write_atomic (sc_snapshot sc) (directory @ ''/snapshots'') (directory @ ''/snapshots/'' @ ?name)
      (snapshot_file e ?name) (tx_snapshot v) True None = (held, r)" by fastforce
  have kept: "decided v d0 (put_snapshot ?name held e)" using made by (simp add: decided_def)
  have rest: "stage_result v d0 (install_meta sc directory v fault (put_snapshot ?name held e))" if "r = Inr u" for u
    by (rule meta_stage [OF kept]) (use write_atomic_Inr [OF written [unfolded that]] in \<open>simp add: snapshot_file_put\<close>)
  show ?thesis
    unfolding apply_transaction_def Let_def e_def [symmetric] written
    using assms made kept rest by (auto simp: stage_result_def [of v d0 "(_, Inl _)"] split: option.split sum.split)
qed

section \<open>Interruptions\<close>

text \<open>
  An installation and every later attempt to recover, each interrupted anywhere or not at all; the
  flag says whether the last one reported success. After an unsuccessful one a power loss may undo
  replacements and removals that were not yet synced: while the journal stands the three files may hold
  anything, a journal whose files were not touched may be lost, and a removed journal may return.
\<close>

inductive install_history :: "SnapshotTransaction \<Rightarrow> DataDir \<Rightarrow> DataDir \<Rightarrow> bool \<Rightarrow> bool" for v d0 where
  commit: "commit_snapshot_transaction sc directory v fault d0 = (d, r) \<Longrightarrow> install_history v d0 d (is_ok r)"
| recover: "\<lbrakk>install_history v d0 d b; recover_snapshot_transaction sc directory d = (d', r)\<rbrakk> \<Longrightarrow>
    install_history v d0 d' (is_ok r)"
| files_lost: "\<lbrakk>install_history v d0 d False; dd_journal d = Some j; dd_journal d' = Some j; others_kept v d0 d'\<rbrakk> \<Longrightarrow>
    install_history v d0 d' False"
| journal_lost: "\<lbrakk>install_history v d0 d False; same_files d0 d\<rbrakk> \<Longrightarrow> install_history v d0 (d\<lparr>dd_journal := None\<rparr>) False"
| journal_back: "\<lbrakk>install_history v d0 d False; transaction_ok v; installed v d0 d\<rbrakk> \<Longrightarrow>
    install_history v d0 (d\<lparr>dd_journal := Some (transaction_bytes v)\<rparr>) False"

lemma same_files_fields [simp]: "same_files d0 (d\<lparr>dd_journal := j\<rparr>) = same_files d0 d" "same_files d d"
  by (simp_all add: same_files_def snapshot_file_def [abs_def])

lemma same_files_others: "same_files d0 d \<Longrightarrow> others_kept v d0 d"
  by (simp add: same_files_def others_kept_def)

lemma stage_result_state:
  "stage_result v d0 (d, r) \<Longrightarrow> transaction_ok v \<Longrightarrow>
     install_state v d0 d \<and> (is_ok r \<longrightarrow> dd_journal d = None \<and> installed v d0 d)"
  by (cases r) (auto simp: stage_result_def install_state_def)

lemma commit_outcome:
  assumes fresh: "dd_journal d0 = None" and run: "commit_snapshot_transaction sc directory v fault d0 = (d, r)"
  shows "install_state v d0 d \<and> (is_ok r \<longrightarrow> dd_journal d = None \<and> installed v d0 d)"
proof (cases "d = d0 \<and> \<not> is_ok r")
  case True
  then show ?thesis using fresh by (simp add: install_state_def)
next
  case False
  let ?path = "directory @ ''/snapshot-install.txn''"
  obtain bytes where bytes: "encode_transaction v = Inr bytes"
    and writing: "(case write_atomic (sc_journal sc) directory ?path None bytes True None of
        (held, Inl e) \<Rightarrow> (d0\<lparr>dd_journal := held\<rparr>, Inl e)
      | (held, Inr _) \<Rightarrow> apply_transaction sc directory v fault (d0\<lparr>dd_journal := held\<rparr>)) = (d, r)"
  proof -
    let ?pre = "bindE (journal_exists sc d0) (\<lambda>pending.
           if pending then txn_invalid ''pending install requires recovery''
           else bindE (encode_transaction v) (\<lambda>bytes.
             if \<not> sc_absolute sc then txn_invalid ''cannot resolve store directory''
             else bindE (foldE (\<lambda>_ (path, f). sync_directory f path) () (sc_ancestors sc)) (\<lambda>_. Inr bytes)))"
    obtain bytes where pre: "?pre = Inr bytes"
      using run False unfolding commit_snapshot_transaction_def by (cases ?pre) auto
    then have "encode_transaction v = Inr bytes" by (auto simp: bindE_Inr_iff split: if_splits)
    then show thesis using that run fresh unfolding commit_snapshot_transaction_def pre by simp
  qed
  have ok: "transaction_ok v" using bytes encode_transaction_ok_iff [of v] by simp
  then have image: "bytes = transaction_bytes v" using encode_transaction_layout bytes by simp
  obtain held w where written: "write_atomic (sc_journal sc) directory ?path None bytes True None = (held, w)" by fastforce
  then have held: "held = None \<or> held = Some bytes"
    using write_atomic_old_or_new [of "sc_journal sc" directory ?path None bytes True None] by simp
  have decided: "decided v d0 (d0\<lparr>dd_journal := Some bytes\<rparr>)"
    by (simp add: decided_def ok image same_files_others)
  show ?thesis
  proof (cases w)
    case (Inl e)
    then have "d = d0\<lparr>dd_journal := held\<rparr>" "r = Inl e" using writing by (simp_all add: written)
    then show ?thesis using held decided fresh by (auto simp: install_state_def)
  next
    case (Inr u)
    then have "held = Some bytes" using write_atomic_Inr written by blast
    then have "apply_transaction sc directory v fault (d0\<lparr>dd_journal := Some bytes\<rparr>) = (d, r)"
      using writing Inr by (simp add: written)
    then show ?thesis using apply_stage [OF decided, of sc directory fault] stage_result_state ok by simp
  qed
qed

lemma recover_outcome:
  assumes "install_state v d0 d" "recover_snapshot_transaction sc directory d = (d', r)"
  shows "install_state v d0 d' \<and> (is_ok r \<longrightarrow> dd_journal d' = None)"
proof (cases "dd_journal d")
  case None
  then have "d' = d" using assms(2) by (auto simp: recover_snapshot_transaction_def split: sum.splits)
  then show ?thesis using assms(1) None by simp
next
  case (Some bytes)
  then have decided: "decided v d0 d" using assms(1) by (auto simp: install_state_def)
  then have ok: "transaction_ok v" and image: "decode_transaction bytes = Inr v"
    using Some decode_transaction_bytes by (auto simp: decided_def)
  consider "d' = d" "\<not> is_ok r" | "apply_transaction sc directory v NoInstallFault d = (d', r)"
    using assms(2) image Some by (auto simp: recover_snapshot_transaction_def bindE_Inr_iff split: sum.splits if_splits)
  then show ?thesis
  proof cases
    case 1
    then show ?thesis using assms(1) by simp
  next
    case 2
    then show ?thesis using apply_stage [OF decided, of sc directory NoInstallFault] stage_result_state ok by simp
  qed
qed

lemma history_state:
  assumes "install_history v d0 d b" "dd_journal d0 = None"
  shows "install_state v d0 d \<and> (b \<longrightarrow> dd_journal d = None)"
  using assms
proof (induction rule: install_history.induct)
  case (commit sc directory fault d r)
  then show ?case using commit_outcome by blast
next
  case (recover d b sc directory d' r)
  then show ?case using recover_outcome by blast
next
  case (files_lost d j d')
  then show ?case by (auto simp: install_state_def decided_def)
next
  case (journal_lost d)
  then show ?case by (simp add: install_state_def)
next
  case (journal_back d)
  then show ?case by (simp add: install_state_def decided_def installed_def)
qed


text \<open>The calls of a run in which nothing fails.\<close>

definition calm :: SystemCalls where
  "calm = \<lparr>sc_stat = None, sc_absolute = True, sc_ancestors = [], sc_journal = NoFault, sc_mkdir = None,
     sc_folder = NoFault, sc_snapshot = NoFault, sc_meta = NoFault, sc_wal = NoFault, sc_remove = True,
     sc_last = NoFault, sc_size = True, sc_read = Inr ()\<rparr>"

lemma write_atomic_calm: "write_atomic NoFault parent path old bytes True None = (Some bytes, Inr ())"
  by (simp add: write_atomic_def fwrite_def sync_handle_def sync_directory_def Let_def)

lemma apply_calm:
  assumes "dd_journal d \<noteq> None"
  shows "snd (apply_transaction calm directory v NoInstallFault d) = Inr ()"
  using assms by (simp add: apply_transaction_def calm_def Let_def sync_directory_def write_atomic_calm install_meta_def
      install_wal_def remove_journal_def)

text \<open>
  (C19) Recovery is never stuck: from every directory that an interrupted installation and interrupted
  recoveries can leave behind, a recovery in which no call fails succeeds.
\<close>

theorem recovery_completes:
  assumes "dd_journal d0 = None" "install_history v d0 d b"
  shows "\<exists>d'. recover_snapshot_transaction calm directory d = (d', Inr ()) \<and> dd_journal d' = None"
proof (cases "dd_journal d")
  case None
  then show ?thesis
    by (simp add: recover_snapshot_transaction_def journal_exists_def calm_def sync_directory_def)
next
  case (Some bytes)
  have state: "install_state v d0 d" using history_state [OF assms(2,1)] by simp
  then have ok: "transaction_ok v" and image: "bytes = transaction_bytes v"
    using Some by (auto simp: install_state_def decided_def)
  have "length bytes \<le> kMaximumBytes"
    using ok by (simp add: image transaction_bytes_def transaction_body_def transaction_ok_def txn_limits)
  then have run: "recover_snapshot_transaction calm directory d = apply_transaction calm directory v NoInstallFault d"
    using Some decode_transaction_bytes [OF ok]
    by (simp add: recover_snapshot_transaction_def journal_exists_def image) (simp add: calm_def)
  have "snd (apply_transaction calm directory v NoInstallFault d) = Inr ()" using Some by (intro apply_calm) simp
  then obtain d' where finished: "recover_snapshot_transaction calm directory d = (d', Inr ())" by (metis run prod.collapse)
  then show ?thesis using recover_outcome [OF state finished] by simp
qed

text \<open>An installation that stops after the metadata file, and the recovery after it.\<close>

definition sample_transaction :: SnapshotTransaction where
  "sample_transaction = \<lparr>tx_index = 5, tx_snapshot = ''s'', tx_metadata = ''m'', tx_wal = ''w''\<rparr>"

definition sample_directory :: DataDir where
  "sample_directory = \<lparr>dd_journal = None, dd_meta = Some ''old'', dd_wal = Some ''old'', dd_snapshots = None\<rparr>"

lemma sample_transaction_ok: "transaction_ok sample_transaction"
  by (simp add: transaction_ok_def sample_transaction_def txn_limits)

definition interrupted :: DataDir where
  "interrupted = fst (commit_snapshot_transaction calm ''n'' sample_transaction AfterMetadata sample_directory)"

definition recovered :: DataDir where
  "recovered = fst (recover_snapshot_transaction calm ''n'' interrupted)"

lemma interrupted_run:
  "commit_snapshot_transaction calm ''n'' sample_transaction AfterMetadata sample_directory
     = (interrupted, txn_invalid ''injected interruption after metadata'')"
  "dd_meta interrupted = Some ''m''" "dd_wal interrupted = Some ''old''"
  unfolding interrupted_def commit_snapshot_transaction_def encode_transaction_layout [OF sample_transaction_ok]
  by (simp_all add: journal_exists_def calm_def sample_directory_def write_atomic_calm apply_transaction_def Let_def
      sync_directory_def install_meta_def put_snapshot_def sample_transaction_def)

lemma interrupted_history: "install_history sample_transaction sample_directory interrupted False"
  using install_history.commit [OF interrupted_run(1)] by simp


theorem recovery_completes_witness:
  "\<exists>d'. recover_snapshot_transaction calm ''n'' interrupted = (d', Inr ()) \<and> dd_journal d' = None"
  by (rule recovery_completes [OF _ interrupted_history]) (simp add: sample_directory_def)

end
