(* ===== verification/File_Engine.thy ===== *)
theory File_Engine
  imports Install_Recovery Machine_Retention
begin

text \<open>
  The durable store (\<open>FileEngine\<close> of \<open>state/store.hpp\<close> and \<open>state/store.cpp\<close>): the write-ahead log, the
  metadata file, the snapshot files and the install journal of one data directory, composed with the
  in-memory engine. An operation takes the store and the directory and returns both with its result.
  What the operating system does to the calls of one operation is a record of answers. Operations are
  serialised by the store's mutex, so that each is one step.
\<close>

section \<open>Options, reports and the store\<close>

record StoreOptions =
  snapshot_every :: u64
  durability :: Durability
  commit_on_append :: bool
  test_mode :: bool
  compact_log :: bool

datatype StorageFault = NoStorageFault | FailBeforeFlush | FailAfterFlush

record RecoveryReport =
  rr_used_snapshot :: bool
  rr_snapshot_index :: u64
  rr_replayed_after_snapshot :: u64
  rr_truncated_tail_bytes :: u64
  rr_commit_index :: u64
  rr_state_hash :: string

record FileEngine =
  fe_directory :: string
  fe_options :: StoreOptions
  fe_wal :: Wal
  fe_engine :: Engine
  fe_recovery :: RecoveryReport
  fe_commit_index :: u64
  fe_snapshot :: "Snapshot option"
  fe_fault :: StorageFault
  fe_install_fault :: InstallFault
  fe_recovery_required :: bool

type_synonym 'a store_result = "FileEngine \<times> DataDir \<times> 'a Result"

text \<open>
  The answers of the system to the calls of one operation: creating the directory, the install
  transaction, inspecting, creating, reading, shrinking and appending to the log with the measured
  time, the flush after a truncation, the rewrite of the log and its reload, inspecting, reading and
  replacing the metadata, and enumerating, reading, writing and pruning the snapshots.
\<close>

record StoreCalls =
  io_mkdir :: bool
  io_txn :: SystemCalls
  io_wal_stat :: "string option"
  io_header :: io_fault
  io_reading :: "unit Result"
  io_resized :: bool
  io_append :: io_fault
  io_elapsed :: u64
  io_truncate :: io_fault
  io_rewrite :: io_fault
  io_reload :: "unit Result"
  io_reload_resized :: bool
  io_meta_stat :: "string option"
  io_meta_read :: "unit Result"
  io_meta :: io_fault
  io_snap_list :: "string option"
  io_snap_read :: "string \<Rightarrow> unit Result"
  io_snap_made :: bool
  io_snap_dir :: io_fault
  io_snap :: io_fault
  io_prune :: "string option"
  io_stuck :: "string \<Rightarrow> bool"

section \<open>The files of the directory\<close>

definition event_log_path :: "string \<Rightarrow> string" where
  "event_log_path directory = directory @ ''/wal.bin''"

definition sync_mode :: "StoreOptions \<Rightarrow> bool" where
  "sync_mode options \<longleftrightarrow> durability options = Sync"

definition wal_bytes_of :: "DataDir \<Rightarrow> string" where
  "wal_bytes_of d = (case dd_wal d of Some bytes \<Rightarrow> bytes | None \<Rightarrow> [])"

text \<open>What opening the log leaves on disk, besides its result.\<close>

definition open_wal :: "StoreCalls \<Rightarrow> string \<Rightarrow> DataDir \<Rightarrow> DataDir \<times> Wal Result" where
  "open_wal io directory d =
     (case wal_open (case io_wal_stat io of Some why \<Rightarrow> Inl why | None \<Rightarrow> Inr (dd_wal d))
         (io_header io) (io_reading io) (io_resized io) (event_log_path directory) directory of
        Inr (w, file') \<Rightarrow> (d\<lparr>dd_wal := Some file'\<rparr>, Inr w)
      | Inl e \<Rightarrow>
          (if io_wal_stat io = None \<and> dd_wal d = None \<and> io_header io \<noteq> OpenFails
           then d\<lparr>dd_wal := Some (fst (write_new_header (io_header io) directory))\<rparr> else d,
           Inl e))"

definition read_metadata :: "StoreCalls \<Rightarrow> DataDir \<Rightarrow> NodeMetadata Result" where
  "read_metadata io d =
     load_metadata (case io_meta_stat io of
        Some why \<Rightarrow> Inl why
      | None \<Rightarrow> Inr (map_option (\<lambda>bytes. bindE (io_meta_read io) (\<lambda>_. Inr bytes)) (dd_meta d)))"

definition put_metadata :: "StoreCalls \<Rightarrow> string \<Rightarrow> StoreOptions \<Rightarrow> NodeMetadata \<Rightarrow> DataDir \<Rightarrow> DataDir \<times> unit Result" where
  "put_metadata io directory options metadata d =
     (case store_metadata (io_meta io) directory (directory @ ''/meta.bin'') (dd_meta d) metadata (sync_mode options) None of
        (held, r) \<Rightarrow> (d\<lparr>dd_meta := held\<rparr>, r))"

definition snapshot_folder :: "string option \<Rightarrow> DataDir \<Rightarrow> string + string list option" where
  "snapshot_folder fails d =
     (case fails of Some why \<Rightarrow> Inl why | None \<Rightarrow> Inr (map_option (map fst) (dd_snapshots d)))"

definition latest_snapshot_file :: "StoreCalls \<Rightarrow> DataDir \<Rightarrow> Snapshot option Result" where
  "latest_snapshot_file io d =
     load_latest_snapshot (snapshot_folder (io_snap_list io) d) (\<lambda>name.
       bindE (io_snap_read io name) (\<lambda>_.
       case snapshot_file d name of Some bytes \<Rightarrow> Inr bytes | None \<Rightarrow> fail StoreError ''unable to read snapshot''))"

definition put_state_snapshot :: "StoreCalls \<Rightarrow> string \<Rightarrow> StoreOptions \<Rightarrow> ChoreographyState \<Rightarrow> DataDir \<Rightarrow> DataDir \<times> unit Result" where
  "put_state_snapshot io directory options state d =
     (let name = snapshot_name (st_last_applied state) in
      case save_snapshot (io_snap_made io) (io_snap_dir io) (io_snap io) directory (snapshot_file d name) state
          (sync_mode options) of
        (held, r) \<Rightarrow>
          (if is_ok (encode_snapshot state) \<and> io_snap_made io then put_snapshot name held d else d, r))"

definition prune_folder :: "StoreCalls \<Rightarrow> nat \<Rightarrow> DataDir \<Rightarrow> DataDir \<times> PruneResult Result" where
  "prune_folder io keep d =
     (case prune_snapshots (snapshot_folder (io_prune io) d) (io_stuck io) keep of
        (Some left, r) \<Rightarrow> (d\<lparr>dd_snapshots := map_option (filter (\<lambda>(name, _). name \<in> set left)) (dd_snapshots d)\<rparr>, r)
      | (None, r) \<Rightarrow> (d, r))"

section \<open>Looking up the log\<close>

definition log_entry :: "FileEngine \<Rightarrow> u64 \<Rightarrow> Event option" where
  "log_entry fe index =
     (let events = wal_events (fe_wal fe) in
      if events = [] \<or> index < ev_index (hd events) \<or> ev_index (last events) < index then None
      else Some (events ! unat (index - ev_index (hd events))))"

definition last_log_index :: "FileEngine \<Rightarrow> u64" where
  "last_log_index fe =
     (let events = wal_events (fe_wal fe) in
      if events = [] then st_last_applied (en_state (fe_engine fe)) else ev_index (last events))"

definition log_first_index :: "FileEngine \<Rightarrow> u64" where
  "log_first_index fe =
     (let events = wal_events (fe_wal fe) in
      if events = [] then st_last_applied (en_state (fe_engine fe)) + 1 else ev_index (hd events))"

definition log_term_at :: "FileEngine \<Rightarrow> u64 \<Rightarrow> u64 option" where
  "log_term_at fe index =
     (if index = 0 then Some 0
      else case log_entry fe index of
        Some entry \<Rightarrow> Some (ev_term entry)
      | None \<Rightarrow>
          (case fe_snapshot fe of
             Some snapshot \<Rightarrow> if ss_index snapshot = index then Some (ss_term snapshot) else None
           | None \<Rightarrow> None))"

section \<open>Faults and the write gate\<close>

text \<open>An early return ends an operation; otherwise the next step gets the store, the files and the value.\<close>

definition and_then :: "'a store_result \<Rightarrow> (FileEngine \<Rightarrow> DataDir \<Rightarrow> 'a \<Rightarrow> 'b store_result) \<Rightarrow> 'b store_result" where
  "and_then outcome continue =
     (case outcome of (fe, d, Inl e) \<Rightarrow> (fe, d, Inl e) | (fe, d, Inr x) \<Rightarrow> continue fe d x)"

definition arm_storage_fault :: "StorageFault \<Rightarrow> FileEngine \<Rightarrow> FileEngine \<times> unit Result" where
  "arm_storage_fault fault fe =
     (if \<not> test_mode (fe_options fe) then (fe, fail StoreError ''storage faults require test mode'')
      else (fe\<lparr>fe_fault := fault\<rparr>, Inr ()))"

definition arm_snapshot_install_fault :: "InstallFault \<Rightarrow> FileEngine \<Rightarrow> FileEngine \<times> unit Result" where
  "arm_snapshot_install_fault fault fe =
     (if \<not> test_mode (fe_options fe) then (fe, fail StoreError ''snapshot install faults require test mode'')
      else (fe\<lparr>fe_install_fault := fault\<rparr>, Inr ()))"

definition require_writable :: "FileEngine \<Rightarrow> unit Result" where
  "require_writable fe =
     (if fe_recovery_required fe then fail StoreError ''storage failure requires reopen before further writes''
      else Inr ())"

definition storage_failure :: "FileEngine \<Rightarrow> FileEngine" where
  "storage_failure fe = fe\<lparr>fe_recovery_required := True\<rparr>"

definition checked_mutation :: "'a store_result \<Rightarrow> 'a store_result" where
  "checked_mutation outcome =
     (case outcome of (fe, d, Inl e) \<Rightarrow> (storage_failure fe, d, Inl e) | (fe, d, Inr x) \<Rightarrow> (fe, d, Inr x))"

definition fail_before_flush :: "FileEngine \<Rightarrow> FileEngine \<times> unit Result" where
  "fail_before_flush fe =
     (if fe_fault fe \<noteq> FailBeforeFlush then (fe, Inr ())
      else (fe\<lparr>fe_fault := NoStorageFault\<rparr>, fail StoreError ''injected failure before flush''))"

definition fail_after_flush :: "FileEngine \<Rightarrow> FileEngine \<times> unit Result" where
  "fail_after_flush fe =
     (if fe_fault fe \<noteq> FailAfterFlush then (fe, Inr ())
      else (fe\<lparr>fe_fault := NoStorageFault\<rparr>, fail StoreError ''injected failure after flush''))"

text \<open>Writing one event to the log, between the two injected faults.\<close>

definition write_event :: "StoreCalls \<Rightarrow> Event \<Rightarrow> FileEngine \<Rightarrow> DataDir \<Rightarrow> unit store_result" where
  "write_event io event fe d =
     (if kMaxPayloadBytes < length (canonical_event event) then (fe, d, fail StoreError ''event payload exceeds 1 MiB'')
      else and_then (case fail_before_flush fe of (fe, r) \<Rightarrow> (fe, d, r)) (\<lambda>fe d _.
        and_then
          (checked_mutation
            (case wal_append (io_append io) (io_elapsed io) event (durability (fe_options fe)) (fe_wal fe) (wal_bytes_of d) of
               (w, file', r) \<Rightarrow> (fe\<lparr>fe_wal := w\<rparr>, d\<lparr>dd_wal := Some file'\<rparr>, r))) (\<lambda>fe d _.
        checked_mutation (case fail_after_flush fe of (fe, r) \<Rightarrow> (fe, d, r)))))"

definition append_event :: "StoreCalls \<Rightarrow> Event \<Rightarrow> FileEngine \<Rightarrow> DataDir \<Rightarrow> unit store_result" where
  "append_event io event fe d =
     and_then (fe, d, require_writable fe) (\<lambda>fe d _.
       let events = wal_events (fe_wal fe);
           expected = (if events = [] then st_last_applied (en_state (fe_engine fe)) + 1
                       else next_log_index (ev_index (last events))) in
       if ev_index event \<noteq> expected then (fe, d, fail IndexGap ''appended event is not the next log index'')
       else write_event io event fe d)"

definition truncate_after :: "StoreCalls \<Rightarrow> u64 \<Rightarrow> FileEngine \<Rightarrow> DataDir \<Rightarrow> unit store_result" where
  "truncate_after io index fe d =
     and_then (fe, d, require_writable fe) (\<lambda>fe d _.
       if index < fe_commit_index fe then (fe, d, fail StoreError ''committed log prefix cannot be truncated'')
       else checked_mutation
         (case wal_truncate_after (io_resized io) (io_truncate io) index (fe_wal fe) (wal_bytes_of d) of
            (w, file', r) \<Rightarrow> (fe\<lparr>fe_wal := w\<rparr>, d\<lparr>dd_wal := Some file'\<rparr>, r)))"

section \<open>Snapshots and compaction\<close>

definition retain_from :: "u64 \<Rightarrow> FileEngine \<Rightarrow> DataDir \<Rightarrow> unit store_result" where
  "retain_from anchor fe d =
     (case retain_history_from (fe_engine fe) anchor of
        Inl e \<Rightarrow> (fe, d, Inl e)
      | Inr engine \<Rightarrow> (fe\<lparr>fe_engine := engine\<rparr>, d, Inr ()))"

definition compact :: "StoreCalls \<Rightarrow> u64 \<Rightarrow> FileEngine \<Rightarrow> DataDir \<Rightarrow> unit store_result" where
  "compact io anchor fe d =
     (let events = wal_events (fe_wal fe) in
      if events = [] \<or> anchor \<le> ev_index (hd events) \<or> ev_index (last events) < anchor then (fe, d, Inr ())
      else let kept = drop (unat (anchor - ev_index (hd events))) events in
        and_then
          (checked_mutation
            (case wal_rewrite (io_rewrite io) (io_reload io) (io_reload_resized io) kept (fe_wal fe) (wal_bytes_of d) of
               (w, file', r) \<Rightarrow> (fe\<lparr>fe_wal := w\<rparr>, d\<lparr>dd_wal := Some file'\<rparr>, r))) (\<lambda>fe d _.
        if compact_log (fe_options fe) then checked_mutation (retain_from anchor fe d) else (fe, d, Inr ())))"

definition state_snapshot :: "ChoreographyState \<Rightarrow> Snapshot" where
  "state_snapshot state =
     \<lparr>ss_index = st_last_applied state, ss_term = st_term state, ss_state_hash = state_hash state,
      ss_events = [], ss_state_payload = snapshot_payload state\<rparr>"

definition take_snapshot :: "StoreCalls \<Rightarrow> FileEngine \<Rightarrow> DataDir \<Rightarrow> unit store_result" where
  "take_snapshot io fe d =
     (let state = en_state (fe_engine fe) in
      and_then (case put_state_snapshot io (fe_directory fe) (fe_options fe) state d of (d, r) \<Rightarrow> (fe, d, r)) (\<lambda>fe d _.
      and_then
        (case prune_folder io 2 d of (d, r) \<Rightarrow> (fe\<lparr>fe_snapshot := Some (state_snapshot state)\<rparr>, d, r)) (\<lambda>fe d pruned.
      if compact_log (fe_options fe) \<and> 2 \<le> remaining pruned then compact io (oldest_index pruned) fe d
      else (fe, d, Inr ()))))"

definition maybe_snapshot :: "StoreCalls \<Rightarrow> FileEngine \<Rightarrow> DataDir \<Rightarrow> unit store_result" where
  "maybe_snapshot io fe d =
     (let every = snapshot_every (fe_options fe);
          applied = st_last_applied (en_state (fe_engine fe));
          last' = (case fe_snapshot fe of Some snapshot \<Rightarrow> ss_index snapshot | None \<Rightarrow> 0) in
      if every = 0 \<or> applied div every \<le> last' div every then (fe, d, Inr ())
      else checked_mutation (take_snapshot io fe d))"

definition checkpoint :: "StoreCalls \<Rightarrow> FileEngine \<Rightarrow> DataDir \<Rightarrow> unit store_result" where
  "checkpoint io fe d =
     and_then (fe, d, require_writable fe) (\<lambda>fe d _.
       if st_last_applied (en_state (fe_engine fe)) = 0 then (fe, d, Inr ())
       else checked_mutation (take_snapshot io fe d))"

definition discard_compacted_prefix :: "StoreCalls \<Rightarrow> FileEngine \<Rightarrow> DataDir \<Rightarrow> unit store_result" where
  "discard_compacted_prefix io fe d =
     and_then (fe, d, require_writable fe) (\<lambda>fe d _.
       case fe_snapshot fe of
         None \<Rightarrow> (fe, d, fail StoreError ''no snapshot to compact against'')
       | Some snapshot \<Rightarrow> compact io (ss_index snapshot) fe d)"

section \<open>Committing\<close>

definition consensus_metadata :: "StoreCalls \<Rightarrow> DataDir \<Rightarrow> NodeMetadata Result" where
  "consensus_metadata io d = read_metadata io d"

definition persist_consensus :: "StoreCalls \<Rightarrow> u64 \<Rightarrow> string option \<Rightarrow> FileEngine \<Rightarrow> DataDir \<Rightarrow> unit store_result" where
  "persist_consensus io term' voted_for fe d =
     and_then (fe, d, require_writable fe) (\<lambda>fe d _.
     and_then (checked_mutation (fe, d, read_metadata io d)) (\<lambda>fe d metadata.
       if term' < md_term metadata then (fe, d, fail StoreError ''consensus term cannot move backwards'')
       else checked_mutation
         (case put_metadata io (fe_directory fe) (fe_options fe) (metadata\<lparr>md_term := term', md_voted_for := voted_for\<rparr>) d of
            (d, r) \<Rightarrow> (fe, d, r))))"

text \<open>The metadata a commit at \<open>index\<close> writes: the election term never moves back.\<close>

definition advance_commit :: "u64 \<Rightarrow> u64 \<Rightarrow> NodeMetadata \<Rightarrow> NodeMetadata" where
  "advance_commit index term' metadata =
     (let updated = metadata\<lparr>md_commit_index := index\<rparr> in
      if md_term updated < term' then updated\<lparr>md_term := term'\<rparr> else updated)"

text \<open>Reading the metadata, advancing it and replacing the file; any failure closes the store for writes.\<close>

definition store_commit :: "StoreCalls \<Rightarrow> u64 \<Rightarrow> u64 \<Rightarrow> FileEngine \<Rightarrow> DataDir \<Rightarrow> unit store_result" where
  "store_commit io index term' fe d =
     checked_mutation (and_then (fe, d, read_metadata io d) (\<lambda>fe d metadata.
       case put_metadata io (fe_directory fe) (fe_options fe) (advance_commit index term' metadata) d of
         (d, r) \<Rightarrow> (fe, d, r)))"

definition note_commit :: "FileEngine \<Rightarrow> FileEngine" where
  "note_commit fe =
     fe\<lparr>fe_recovery := (fe_recovery fe)
       \<lparr>rr_commit_index := fe_commit_index fe, rr_state_hash := state_hash (en_state (fe_engine fe))\<rparr>\<rparr>"

definition publish_submitted :: "Event \<Rightarrow> FileEngine \<Rightarrow> DataDir \<Rightarrow> unit store_result" where
  "publish_submitted event fe d =
     (case apply_committed (fe_engine fe) event of
        Inl e \<Rightarrow> (fe, d, Inl e)
      | Inr engine \<Rightarrow>
          (note_commit (fe\<lparr>fe_engine := engine, fe_commit_index := st_last_applied (en_state engine)\<rparr>), d, Inr ()))"

definition fe_submit :: "StoreCalls \<Rightarrow> Command \<Rightarrow> FileEngine \<Rightarrow> DataDir \<Rightarrow> SubmitResult store_result" where
  "fe_submit io command fe d =
     and_then (fe, d, require_writable fe) (\<lambda>fe d _.
     let state = en_state (fe_engine fe) in
     if map_of (st_applied_commands state) (cmd_id command) \<noteq> None \<or> map_of (st_receipts state) (cmd_id command) \<noteq> None
     then (fe, d, bindE (resolve_receipt state command) (\<lambda>event. Inr \<lparr>sr_event = event, sr_duplicate = True\<rparr>))
     else and_then (fe, d, propose state command) (\<lambda>fe d event.
       and_then (write_event io event fe d) (\<lambda>fe d _.
       and_then (store_commit io (ev_index event) (ev_term event) fe d) (\<lambda>fe d _.
       and_then (checked_mutation (publish_submitted event fe d)) (\<lambda>fe d _.
       and_then (checked_mutation (maybe_snapshot io fe d)) (\<lambda>fe d _.
       (fe, d, Inr \<lparr>sr_event = event, sr_duplicate = False\<rparr>)))))))"

text \<open>
  The batch of a commit: the entries behind the commit index, up to the first missing one. The loop
  counter can only wrap behind the largest index, where the log holds no entry 0 and the loop ends.
\<close>

fun commit_batch :: "FileEngine \<Rightarrow> nat \<Rightarrow> u64 \<Rightarrow> Event list" where
  "commit_batch fe 0 next' = []"
| "commit_batch fe (Suc n) next' =
     (case log_entry fe next' of None \<Rightarrow> [] | Some event \<Rightarrow> event # commit_batch fe n (next' + 1))"

definition commit_through :: "StoreCalls \<Rightarrow> u64 \<Rightarrow> FileEngine \<Rightarrow> DataDir \<Rightarrow> unit store_result" where
  "commit_through io index fe d =
     and_then (fe, d, require_writable fe) (\<lambda>fe d _.
     if index < fe_commit_index fe then (fe, d, Inr ())
     else let batch = commit_batch fe (unat (index - fe_commit_index fe)) (fe_commit_index fe + 1) in
     and_then (fe, d, prepare_committed (fe_engine fe) batch) (\<lambda>fe d replacement.
     if st_last_applied (en_state replacement) \<noteq> index
     then (fe, d, fail IndexGap ''commit index is not present in the log'')
     else and_then (store_commit io index (st_term (en_state replacement)) fe d) (\<lambda>fe d _.
       checked_mutation (maybe_snapshot io
         (note_commit (fe\<lparr>fe_engine := publish_committed (fe_engine fe) replacement, fe_commit_index := index\<rparr>)) d))))"

section \<open>Installing a snapshot\<close>

text \<open>The records kept beside an installed snapshot: its own and what follows, if the log agrees with it.\<close>

definition install_suffix :: "Snapshot \<Rightarrow> FileEngine \<Rightarrow> Event list" where
  "install_suffix snapshot fe =
     (case log_entry fe (ss_index snapshot) of
        Some anchor \<Rightarrow>
          if ev_term anchor = ss_term snapshot
          then filter (\<lambda>event. ss_index snapshot \<le> ev_index event) (wal_events (fe_wal fe)) else []
      | None \<Rightarrow> [])"

definition install_engine :: "Snapshot \<Rightarrow> Engine Result" where
  "install_engine snapshot =
     bindE (verify_snapshot snapshot) (\<lambda>restored.
     if legacy snapshot then foldE apply_committed empty_engine (ss_events snapshot)
     else Inr (Machine.restore restored []))"

definition install_images :: "Snapshot \<Rightarrow> Engine \<Rightarrow> NodeMetadata \<Rightarrow> FileEngine \<Rightarrow> SnapshotTransaction Result" where
  "install_images snapshot replacement metadata fe =
     (let state = en_state replacement;
          updated = advance_commit (ss_index snapshot) (st_term state) metadata in
      bindE (encode_snapshot state) (\<lambda>snapshot_bytes.
      bindE (encode_metadata updated) (\<lambda>metadata_bytes.
      bindE (encode_wal (install_suffix snapshot fe)) (\<lambda>wal_bytes.
      Inr \<lparr>tx_index = ss_index snapshot, tx_snapshot = snapshot_bytes, tx_metadata = metadata_bytes, tx_wal = wal_bytes\<rparr>))))"

text \<open>The end of an installation, once its files are in place and the log is open again.\<close>

definition finish_install :: "StoreCalls \<Rightarrow> Snapshot \<Rightarrow> Engine \<Rightarrow> FileEngine \<Rightarrow> DataDir \<Rightarrow> unit store_result" where
  "finish_install io snapshot replacement fe d =
     (let fe = fe\<lparr>fe_engine := replacement, fe_commit_index := ss_index snapshot,
            fe_snapshot := Some (snapshot\<lparr>ss_events := [], ss_state_payload := snapshot_payload (en_state replacement)\<rparr>)\<rparr>;
          d = fst (prune_folder io 1 d) in
      and_then
        (if compact_log (fe_options fe) then checked_mutation (retain_from (log_first_index fe) fe d) else (fe, d, Inr ()))
        (\<lambda>fe d _.
          (fe\<lparr>fe_recovery := (fe_recovery fe)\<lparr>rr_used_snapshot := True, rr_snapshot_index := ss_index snapshot,
             rr_commit_index := ss_index snapshot, rr_state_hash := ss_state_hash snapshot\<rparr>\<rparr>, d, Inr ())))"

definition fe_install_snapshot :: "StoreCalls \<Rightarrow> Snapshot \<Rightarrow> FileEngine \<Rightarrow> DataDir \<Rightarrow> unit store_result" where
  "fe_install_snapshot io snapshot fe d =
     and_then (fe, d, require_writable fe) (\<lambda>fe d _.
     if ss_index snapshot \<le> fe_commit_index fe then (fe, d, Inr ())
     else and_then (fe, d, install_engine snapshot) (\<lambda>fe d replacement.
       and_then (checked_mutation (fe, d, read_metadata io d)) (\<lambda>fe d metadata.
       and_then (fe, d, install_images snapshot replacement metadata fe) (\<lambda>fe d transaction.
       and_then
         (checked_mutation
           (case commit_snapshot_transaction (io_txn io) (fe_directory fe) transaction (fe_install_fault fe) d of
              (d, r) \<Rightarrow> (fe\<lparr>fe_install_fault := NoInstallFault\<rparr>, d, r))) (\<lambda>fe d _.
       and_then (checked_mutation (case open_wal io (fe_directory fe) d of (d, r) \<Rightarrow> (fe, d, r))) (\<lambda>fe d w.
       finish_install io snapshot replacement (fe\<lparr>fe_wal := w\<rparr>) d))))))"

section \<open>Opening a directory\<close>

definition new_store :: "string \<Rightarrow> StoreOptions \<Rightarrow> Wal \<Rightarrow> FileEngine" where
  "new_store directory options w =
     \<lparr>fe_directory = directory, fe_options = options, fe_wal = w, fe_engine = empty_engine,
      fe_recovery = \<lparr>rr_used_snapshot = False, rr_snapshot_index = 0, rr_replayed_after_snapshot = 0,
        rr_truncated_tail_bytes = truncated_tail_bytes (wal_stats w), rr_commit_index = 0, rr_state_hash = []\<rparr>,
      fe_commit_index = 0, fe_snapshot = None, fe_fault = NoStorageFault, fe_install_fault = NoInstallFault,
      fe_recovery_required = False\<rparr>"

fun retained_contiguous :: "u64 \<Rightarrow> Event list \<Rightarrow> bool" where
  "retained_contiguous previous [] \<longleftrightarrow> True"
| "retained_contiguous previous (event # events) \<longleftrightarrow>
     \<not> (ev_index event = 0 \<or> previous \<noteq> 0 \<and> (previous = max_u64 \<or> ev_index event \<noteq> previous + 1))
     \<and> retained_contiguous (ev_index event) events"

text \<open>The committed records kept in memory beside a snapshot, if the log still starts at index 1.\<close>

definition snapshot_history :: "u64 \<Rightarrow> Event list \<Rightarrow> Event list" where
  "snapshot_history index records =
     (if records \<noteq> [] \<and> ev_index (hd records) = 1 \<and> index \<le> ev_index (last records)
      then takeWhile (\<lambda>event. ev_index event \<le> index) records else [])"

definition open_snapshot :: "u64 \<Rightarrow> Snapshot option \<Rightarrow> FileEngine \<Rightarrow> (FileEngine \<times> u64) Result" where
  "open_snapshot apply_limit snapshot fe =
     (case snapshot of
        None \<Rightarrow> Inr (fe, 0)
      | Some selected \<Rightarrow>
          if apply_limit < ss_index selected then Inr (fe, 0)
          else bindE (verify_snapshot selected) (\<lambda>restored.
            let in_memory = (if legacy selected
                  then selected\<lparr>ss_state_payload := snapshot_payload restored, ss_events := []\<rparr> else selected) in
            bindE (if legacy selected then foldE apply_committed (fe_engine fe) (ss_events selected)
                   else Inr (Machine.restore restored (snapshot_history (ss_index selected) (wal_events (fe_wal fe)))))
              (\<lambda>engine.
            Inr (fe\<lparr>fe_engine := engine,
                   fe_recovery := (fe_recovery fe)\<lparr>rr_used_snapshot := True, rr_snapshot_index := ss_index selected\<rparr>,
                   fe_snapshot := Some in_memory\<rparr>, ss_index selected))))"

text \<open>The retained records against the boundary of the snapshot, with the repair of an old interrupted install.\<close>

definition open_boundary :: "StoreCalls \<Rightarrow> u64 \<Rightarrow> NodeMetadata \<Rightarrow> FileEngine \<Rightarrow> DataDir \<Rightarrow> unit store_result" where
  "open_boundary io start_after metadata fe d =
     (let events = wal_events (fe_wal fe) in
      if start_after = 0 \<and> events \<noteq> [] \<and> 1 < ev_index (hd events)
      then (fe, d, fail StoreError ''the log was compacted but no valid snapshot covers its missing prefix'')
      else case fe_snapshot fe of
        None \<Rightarrow> (fe, d, Inr ())
      | Some snapshot \<Rightarrow>
          if events = [] then (fe, d, Inr ())
          else let boundary = ss_index snapshot; first = ev_index (hd events) in
            and_then
              (if ev_index (last events) < boundary then
                 (if md_commit_index metadata \<noteq> boundary \<or> md_term metadata < ss_term snapshot
                  then (fe, d, fail StoreError ''snapshot and WAL cannot cover durable commit metadata'')
                  else case wal_rewrite (io_rewrite io) (io_reload io) (io_reload_resized io) [] (fe_wal fe) (wal_bytes_of d) of
                    (w, file', r) \<Rightarrow> (fe\<lparr>fe_wal := w\<rparr>, d\<lparr>dd_wal := Some file'\<rparr>, r))
               else if boundary < first \<and> first - boundary \<noteq> 1
               then (fe, d, fail StoreError ''retained WAL does not join the recovered snapshot boundary'')
               else (fe, d, Inr ())) (\<lambda>fe d _.
            case log_entry fe boundary of
              None \<Rightarrow> (fe, d, Inr ())
            | Some anchor \<Rightarrow>
                if ev_term anchor \<noteq> ss_term snapshot
                then (fe, d, fail StoreError ''retained WAL anchor disagrees with recovered snapshot term'')
                else (fe, d, Inr ())))"

fun replay_records :: "u64 \<Rightarrow> u64 \<Rightarrow> FileEngine \<Rightarrow> Event list \<Rightarrow> FileEngine Result" where
  "replay_records start_after apply_limit fe [] = Inr fe"
| "replay_records start_after apply_limit fe (event # events) =
     (if ev_index event \<le> start_after then replay_records start_after apply_limit fe events
      else if apply_limit < ev_index event then Inr fe
      else bindE (apply_committed (fe_engine fe) event) (\<lambda>engine.
        replay_records start_after apply_limit
          (fe\<lparr>fe_engine := engine,
             fe_recovery := (fe_recovery fe)\<lparr>rr_replayed_after_snapshot := rr_replayed_after_snapshot (fe_recovery fe) + 1\<rparr>\<rparr>)
          events))"

definition open_commit :: "StoreCalls \<Rightarrow> NodeMetadata \<Rightarrow> FileEngine \<Rightarrow> DataDir \<Rightarrow> unit store_result" where
  "open_commit io metadata fe d =
     (let options = fe_options fe; state = en_state (fe_engine fe) in
      if st_last_applied state < md_commit_index metadata
      then (fe, d, fail StoreError ''committed history is missing from snapshot and WAL'')
      else let commit = (if commit_on_append options then st_last_applied state else md_commit_index metadata) in
        and_then
          (if commit_on_append options \<and> (md_commit_index metadata < commit \<or> md_term metadata < st_term state)
           then case put_metadata io (fe_directory fe) options (advance_commit commit (st_term state) metadata) d of
             (d, r) \<Rightarrow> (fe\<lparr>fe_commit_index := commit\<rparr>, d, r)
           else (fe\<lparr>fe_commit_index := commit\<rparr>, d, Inr ())) (\<lambda>fe d _.
        and_then (if compact_log options then retain_from (log_first_index fe) fe d else (fe, d, Inr ())) (\<lambda>fe d _.
        (note_commit fe, d, Inr ()))))"

definition open_store :: "StoreCalls \<Rightarrow> FileEngine \<Rightarrow> DataDir \<Rightarrow> unit store_result" where
  "open_store io fe d =
     and_then (fe, d, if retained_contiguous 0 (wal_events (fe_wal fe)) then Inr ()
                      else fail StoreError ''retained WAL indexes are not contiguous'') (\<lambda>fe d _.
     and_then (fe, d, latest_snapshot_file io d) (\<lambda>fe d snapshot.
     and_then (fe, d, read_metadata io d) (\<lambda>fe d metadata.
     let apply_limit = (if commit_on_append (fe_options fe) then max_u64 else md_commit_index metadata) in
     and_then (fe, d, open_snapshot apply_limit snapshot fe) (\<lambda>_ d (fe, start_after).
     and_then (open_boundary io start_after metadata fe d) (\<lambda>fe d _.
     and_then (fe, d, replay_records start_after apply_limit fe (wal_events (fe_wal fe))) (\<lambda>_ d fe.
     open_commit io metadata fe d))))))"

definition fe_open :: "StoreCalls \<Rightarrow> string \<Rightarrow> StoreOptions \<Rightarrow> DataDir \<Rightarrow> DataDir \<times> FileEngine Result" where
  "fe_open io directory options d =
     (if \<not> io_mkdir io then (d, fail StoreError ''unable to create store directory'')
      else case recover_snapshot_transaction (io_txn io) directory d of
        (d, Inl e) \<Rightarrow> (d, Inl e)
      | (d, Inr _) \<Rightarrow>
          (case open_wal io directory d of
             (d, Inl e) \<Rightarrow> (d, Inl e)
           | (d, Inr w) \<Rightarrow>
               (case open_store io (new_store directory options w) d of
                  (fe, d, r) \<Rightarrow> (d, bindE r (\<lambda>_. Inr fe)))))"

end
