(* ===== verification/File_Engine_Steps.thy ===== *)
theory File_Engine_Steps
  imports File_Engine
begin

text \<open>
  The operations of the durable store, one by one: what the files of the directory hold, when a store
  agrees with them, and that every operation, whatever the system does to its calls, leaves valid files
  that extend the committed log and either a store that agrees with them or one that refuses to write.
\<close>

section \<open>Logs that start at one\<close>

definition log_from_one :: "Event list \<Rightarrow> bool" where
  "log_from_one es \<longleftrightarrow> (\<forall>i < length es. unat (ev_index (es ! i)) = Suc i)"

lemma log_from_one_length:
  assumes "log_from_one es"
  shows "length es < 2 ^ 64"
proof (cases es rule: rev_cases)
  case (snoc xs x)
  then have "unat (ev_index x) = length es" using assms by (auto simp: log_from_one_def nth_append)
  then show ?thesis using unat_lt_u64 [of "ev_index x"] by simp
qed simp

lemma log_from_one_take: "log_from_one es \<Longrightarrow> log_from_one (take n es)"
  by (simp add: log_from_one_def)

lemma log_from_one_snoc:
  "log_from_one (es @ [e]) \<longleftrightarrow> log_from_one es \<and> unat (ev_index e) = Suc (length es)"
  by (auto simp: log_from_one_def nth_append less_Suc_eq)

lemma log_from_one_hd: "log_from_one es \<Longrightarrow> es \<noteq> [] \<Longrightarrow> ev_index (hd es) = 1"
  by (auto simp: log_from_one_def hd_conv_nth word_unat_eq_iff)

lemma log_from_one_last: "log_from_one es \<Longrightarrow> es \<noteq> [] \<Longrightarrow> unat (ev_index (last es)) = length es"
  by (auto simp: log_from_one_def last_conv_nth)

lemma log_from_one_index:
  "log_from_one es \<Longrightarrow> i < length es \<Longrightarrow> ev_index (es ! i) = of_nat (Suc i)"
  using log_from_one_length [of es]
  by (simp add: log_from_one_def word_unat_eq_iff unat_of_nat_exact del: of_nat_Suc)

lemma log_from_one_take_while:
  assumes "log_from_one es"
  shows "takeWhile (\<lambda>e. ev_index e \<le> i) es = take (unat i) es"
  by (rule takeWhile_eq_take_P_nth) (use assms in \<open>simp_all add: log_from_one_def word_le_nat_alt\<close>)

lemma contiguous_from:
  assumes "\<forall>i < length xs. unat (ev_index (xs ! i)) = Suc (n + i)" "unat p = n"
  shows "retained_contiguous p xs"
  using assms
proof (induction xs arbitrary: n p)
  case (Cons x xs)
  have x: "unat (ev_index x) = Suc (unat p)" using Cons.prems spec [OF Cons.prems(1), of 0] by simp
  then have "ev_index x \<noteq> 0" by auto
  moreover have "p \<noteq> max_u64"
  proof
    assume "p = max_u64"
    then have "unat p = 2 ^ 64 - 1" by simp
    then show False using x unat_lt_u64 [of "ev_index x"] by simp
  qed
  moreover from this have "ev_index x = p + 1" using x by (simp add: word_unat_eq_iff unat_Suc_exact)
  moreover have "retained_contiguous (ev_index x) xs"
  proof (rule Cons.IH)
    show "\<forall>i < length xs. unat (ev_index (xs ! i)) = Suc (Suc n + i)"
      using Cons.prems(1) by fastforce
    show "unat (ev_index x) = Suc n" using x Cons.prems(2) by simp
  qed
  ultimately show ?case unfolding retained_contiguous.simps by blast
qed simp

lemma log_from_one_contiguous: "log_from_one es \<Longrightarrow> retained_contiguous 0 es"
  by (rule contiguous_from [of _ 0]) (simp_all add: log_from_one_def)

lemma log_entry_from_one:
  assumes "log_from_one (wal_events (fe_wal fe))"
  shows "log_entry fe i =
    (if i = 0 \<or> length (wal_events (fe_wal fe)) < unat i then None else Some (wal_events (fe_wal fe) ! (unat i - 1)))"
proof (cases "wal_events (fe_wal fe) = []")
  case True
  then show ?thesis by (auto simp: log_entry_def unat_gt_0)
next
  case False
  note hd' = log_from_one_hd [OF assms False] and last' = log_from_one_last [OF assms False]
  have outside: "wal_events (fe_wal fe) = [] \<or> i < 1 \<or> ev_index (last (wal_events (fe_wal fe))) < i \<longleftrightarrow>
      i = 0 \<or> length (wal_events (fe_wal fe)) < unat i"
    using False last' by (auto simp: word_less_nat_alt unat_eq_0)
  have "i \<noteq> 0 \<Longrightarrow> unat (i - 1) = unat i - 1" by (rule unat_minus_one)
  then show ?thesis unfolding log_entry_def Let_def hd' outside by auto
qed

lemma commit_batch_from_one:
  assumes "log_from_one (wal_events (fe_wal fe))" "unat c + n < 2 ^ 64"
  shows "commit_batch fe n (c + 1) = take n (drop (unat c) (wal_events (fe_wal fe)))"
  using assms(2)
proof (induction n arbitrary: c)
  case (Suc n)
  let ?es = "wal_events (fe_wal fe)"
  have "c \<noteq> max_u64" using Suc.prems by auto
  then have c: "unat (c + 1) = Suc (unat c)" by (simp add: unat_Suc_exact)
  then have "c + 1 \<noteq> 0" by (metis Zero_not_Suc unat_0)
  then have entry: "log_entry fe (c + 1) = (if length ?es \<le> unat c then None else Some (?es ! unat c))"
    unfolding log_entry_from_one [OF assms(1)] c by auto
  have "commit_batch fe n (c + 1 + 1) = take n (drop (Suc (unat c)) ?es)"
    using Suc.IH [of "c + 1"] Suc.prems unfolding c by simp
  then show ?case
    unfolding commit_batch.simps entry by (cases "length ?es \<le> unat c") (simp_all add: Cons_nth_drop_Suc [symmetric])
qed simp

section \<open>Early returns\<close>

lemma store_steps [simp]:
  "and_then (fe, d, Inl e) k = (fe, d, Inl e)" "and_then (fe, d, Inr x) k = k fe d x"
  "checked_mutation (fe, d, Inl e) = (storage_failure fe, d, Inl e)" "checked_mutation (fe, d, Inr x) = (fe, d, Inr x)"
  by (simp_all add: and_then_def checked_mutation_def)

lemma storage_failure_fields [simp]:
  "fe_recovery_required (storage_failure fe)" "fe_options (storage_failure fe) = fe_options fe"
  "fe_directory (storage_failure fe) = fe_directory fe"
  by (simp_all add: storage_failure_def)

lemma note_commit_fields [simp]:
  "fe_recovery_required (note_commit fe) = fe_recovery_required fe" "fe_options (note_commit fe) = fe_options fe"
  "fe_directory (note_commit fe) = fe_directory fe" "fe_wal (note_commit fe) = fe_wal fe"
  "fe_engine (note_commit fe) = fe_engine fe" "fe_commit_index (note_commit fe) = fe_commit_index fe"
  "fe_snapshot (note_commit fe) = fe_snapshot fe"
  by (simp_all add: note_commit_def)

section \<open>What the files hold\<close>

definition wal_holds :: "string \<Rightarrow> Event list \<Rightarrow> bool" where
  "wal_holds f es \<longleftrightarrow> list_all storable es \<and>
     (\<exists>n. \<forall>w. wal_load (Inr ()) True w f = (loaded w es n, wal_bytes es, Inr ()))"

lemma wal_holds_image: "list_all storable es \<Longrightarrow> wal_holds (wal_bytes es) es"
  using load_image by (auto simp: wal_holds_def)

lemma wal_holds_torn:
  assumes "list_all storable es" "storable e"
  shows "wal_holds (wal_bytes es @ take n (record_bytes e)) es \<or> wal_holds (wal_bytes es @ take n (record_bytes e)) (es @ [e])"
proof (cases "n < length (record_bytes e)")
  case True
  then show ?thesis using load_torn [OF assms] assms(1) by (auto simp: wal_holds_def)
next
  case False
  then have "wal_bytes es @ take n (record_bytes e) = wal_bytes (es @ [e])" by (simp add: wal_bytes_def)
  then show ?thesis using wal_holds_image [of "es @ [e]"] assms by simp
qed

text \<open>Loading with any answers of the system: the events of the file, or an error and an unchanged file.\<close>

lemma wal_load_cases:
  assumes "wal_load (Inr ()) True w f = (w1, f1, Inr ())"
  obtains (loaded) "wal_load answer resized w f = (w1, f1, Inr ())" | (failed) w2 e where "wal_load answer resized w f = (w2, f, Inl e)"
proof (cases answer)
  case (Inl e)
  then show ?thesis using failed by (simp add: wal_load_def)
next
  case (Inr u)
  obtain events ends torn ended where scan: "wal_scan f kFileHeaderBytes [] [] = (events, ends, torn, ended)"
    by (metis prod_cases4)
  have "wal_load answer resized w f = wal_load (Inr ()) True w f \<or> (\<exists>w2 e. wal_load answer resized w f = (w2, f, Inl e))"
    using Inr unfolding wal_load_def scan Let_def prod.case by (cases ended) simp_all
  then show ?thesis using loaded failed assms by fastforce
qed

definition meta_holds :: "DataDir \<Rightarrow> NodeMetadata \<Rightarrow> bool" where
  "meta_holds d m \<longleftrightarrow> metadata_ok m \<and>
     (dd_meta d = None \<and> m = initial_metadata \<or> dd_meta d = Some (metadata_bytes m))"

lemma meta_holds_fields [simp]:
  "meta_holds (d\<lparr>dd_wal := f\<rparr>) m = meta_holds d m" "meta_holds (d\<lparr>dd_journal := j\<rparr>) m = meta_holds d m"
  "meta_holds (d\<lparr>dd_snapshots := x\<rparr>) m = meta_holds d m"
  by (simp_all add: meta_holds_def)

lemma read_metadata_holds:
  assumes "meta_holds d m"
  shows "read_metadata io d = Inr m \<or> (\<exists>e. read_metadata io d = Inl e)"
  using assms parse_metadata_bytes [of m]
  by (cases "io_meta_stat io"; cases "io_meta_read io")
    (auto simp: read_metadata_def load_metadata_def meta_holds_def)

lemma put_metadata_holds:
  assumes "metadata_ok m'" "put_metadata io directory options m' d = (d', r)"
  shows "\<exists>held. d' = d\<lparr>dd_meta := held\<rparr> \<and> (held = dd_meta d \<or> meta_holds d' m')" "r = Inr () \<Longrightarrow> meta_holds d' m'"
proof -
  let ?w = "write_atomic (io_meta io) directory (directory @ ''/meta.bin'') (dd_meta d) (metadata_bytes m') (sync_mode options) None"
  have "store_metadata (io_meta io) directory (directory @ ''/meta.bin'') (dd_meta d) m' (sync_mode options) None = ?w"
    by (simp add: store_metadata_def encode_metadata_layout [OF voted_short [OF assms(1)]])
  then have d': "d' = d\<lparr>dd_meta := fst ?w\<rparr>" "r = snd ?w"
    using assms(2) by (auto simp: put_metadata_def split: prod.splits)
  have holds: "fst ?w = Some (metadata_bytes m') \<Longrightarrow> meta_holds d' m'"
    using assms(1) d' by (simp add: meta_holds_def)
  then show "\<exists>held. d' = d\<lparr>dd_meta := held\<rparr> \<and> (held = dd_meta d \<or> meta_holds d' m')"
    using d' write_atomic_old_or_new [of "io_meta io" directory "directory @ ''/meta.bin''" "dd_meta d" "metadata_bytes m'"] by blast
  show "r = Inr () \<Longrightarrow> meta_holds d' m'" using d'(2) write_atomic_ok holds by metis
qed

text \<open>A run over a log: the engine it gives stands at the end of the log.\<close>

definition runs :: "Event list \<Rightarrow> Engine \<Rightarrow> bool" where
  "runs es en \<longleftrightarrow> foldE apply_committed empty_engine es = Inr en \<and> st_last_applied (en_state en) = of_nat (length es)"

lemma runs_replay: "runs es en \<Longrightarrow> replay es None None = Inr (en_state en) \<and> en_events en = es"
  using commits_are_applies [of empty_engine es en] by (simp add: runs_def replay_def through_def empty_engine_def)

lemma runs_ok:
  assumes "runs es en" "log_from_one es" "list_all storable es"
  shows "engine_ok en"
proof -
  have "\<forall>e \<in> set es. ev_index e \<noteq> 0" using assms(2) by (fastforce simp: log_from_one_def in_set_conv_nth)
  then have "list_all op_ok (map Commit es)" using assms(3) by (auto simp: op_ok_def list_all_iff storable_def)
  moreover have "foldE engine_step empty_engine (map Commit es) = Inr en" using assms(1) by (simp add: runs_def commits_run)
  ultimately show ?thesis using engine_run_ok [OF empty_engine_ok] by blast
qed

section \<open>The invariant\<close>

text \<open>
  How much of the log an opening applies: everything where an append commits, else up to the durable
  commit index.
\<close>

definition applied_count :: "StoreOptions \<Rightarrow> Event list \<Rightarrow> NodeMetadata \<Rightarrow> nat" where
  "applied_count options es m = (if commit_on_append options then length es else unat (md_commit_index m))"

definition log_valid :: "StoreOptions \<Rightarrow> Event list \<Rightarrow> NodeMetadata \<Rightarrow> bool" where
  "log_valid options es m \<longleftrightarrow> log_from_one es \<and> list_all own_id es \<and> unat (md_commit_index m) \<le> applied_count options es m
     \<and> applied_count options es m \<le> length es \<and> (\<exists>en. runs (take (applied_count options es m) es) en)
     \<and> (commit_on_append options \<longrightarrow> list_all (\<lambda>e. ev_type e \<noteq> NoOp) es)"

definition files_valid :: "DataDir \<Rightarrow> Event list \<Rightarrow> NodeMetadata \<Rightarrow> bool" where
  "files_valid d es m \<longleftrightarrow> dd_journal d = None \<and> dd_snapshots d = None \<and> meta_holds d m \<and>
     (\<exists>f. dd_wal d = Some f \<and> wal_holds f es)"

text \<open>A store that accepts writes agrees with its directory.\<close>

definition store_live :: "FileEngine \<Rightarrow> DataDir \<Rightarrow> Event list \<Rightarrow> NodeMetadata \<Rightarrow> bool" where
  "store_live fe d es m \<longleftrightarrow> \<not> fe_recovery_required fe \<and> wal_ok (fe_wal fe) (wal_bytes_of d) \<and> wal_events (fe_wal fe) = es
     \<and> fe_commit_index fe = md_commit_index m \<and> runs (take (unat (md_commit_index m)) es) (fe_engine fe)
     \<and> (commit_on_append (fe_options fe) \<longrightarrow> unat (md_commit_index m) = length es) \<and> fe_snapshot fe = None"

definition grows :: "Event list \<Rightarrow> NodeMetadata \<Rightarrow> Event list \<Rightarrow> NodeMetadata \<Rightarrow> bool" where
  "grows es m es' m' \<longleftrightarrow> md_commit_index m \<le> md_commit_index m' \<and> md_term m \<le> md_term m'
     \<and> take (unat (md_commit_index m)) es' = take (unat (md_commit_index m)) es"

text \<open>What one operation leaves: valid files, and a store that agrees with them or refuses to write.\<close>

definition step_result :: "FileEngine \<Rightarrow> Event list \<Rightarrow> NodeMetadata \<Rightarrow> FileEngine \<Rightarrow> DataDir \<Rightarrow> Event list \<Rightarrow> NodeMetadata \<Rightarrow> bool" where
  "step_result fe es m fe' d' es' m' \<longleftrightarrow> fe_options fe' = fe_options fe \<and> fe_directory fe' = fe_directory fe \<and>
     files_valid d' es' m' \<and> log_valid (fe_options fe) es' m' \<and> grows es m es' m' \<and>
     (fe_recovery_required fe' \<or> store_live fe' d' es' m')"

lemma grows_refl [simp]: "grows es m es m"
  by (simp add: grows_def)

lemma store_live_fault [simp]:
  "store_live (fe\<lparr>fe_fault := x\<rparr>) d es m = store_live fe d es m"
  "store_live (fe\<lparr>fe_install_fault := y\<rparr>) d es m = store_live fe d es m"
  by (simp_all add: store_live_def)

lemma step_same:
  "\<lbrakk>files_valid d es m; log_valid (fe_options fe) es m; store_live fe d es m\<rbrakk> \<Longrightarrow> step_result fe es m fe d es m"
  "\<lbrakk>files_valid d es m; log_valid (fe_options fe) es m; store_live fe d es m\<rbrakk> \<Longrightarrow>
    step_result fe es m (storage_failure fe) d es m"
  by (simp_all add: step_result_def)

lemma live_commit:
  assumes "store_live fe d es m" "log_valid (fe_options fe) es m"
  shows "unat (md_commit_index m) \<le> length es" "applied_count (fe_options fe) es m = unat (md_commit_index m)"
  using assms by (auto simp: store_live_def log_valid_def applied_count_def)

section \<open>Appending\<close>

lemma append_outcome:
  assumes "wal_ok w f" "storable e" "wal_append fault ns e dur w f = (w', f', q)"
  obtains (written) "q = Inr ()" "wal_ok w' f'" "wal_events w' = wal_events w @ [e]" "wal_holds f' (wal_events w @ [e])"
  | (failed) err where "q = Inl err" "wal_holds f' (wal_events w) \<or> wal_holds f' (wal_events w @ [e])"
proof (cases q)
  case (Inl err)
  have f: "f = wal_bytes (wal_events w)" "list_all storable (wal_events w)" using assms(1) by (simp_all add: wal_ok_def)
  have "f' = fst (append_bytes fault (wal_path w) f (record_bytes e) (dur = Sync))"
    using assms(3) by (auto simp: wal_append_cases [OF assms(2)] split: prod.splits sum.splits)
  then obtain n where "f' = wal_bytes (wal_events w) @ take n (record_bytes e)" using append_bytes_prefix f(1) by metis
  then show thesis using failed Inl wal_holds_torn [OF f(2) assms(2)] by simp
next
  case (Inr u)
  then have "wal_ok w' f'" "wal_events w' = wal_events w @ [e]" using wal_append_done [OF assms(1,2)] assms(3) by auto
  moreover from this have "wal_holds f' (wal_events w @ [e])" using wal_holds_image by (auto simp: wal_ok_def)
  ultimately show thesis using written Inr by simp
qed

lemma write_event_cases:
  assumes "dd_wal d = Some f" "wal_ok (fe_wal fe) f" "event_ok e" "write_event io e fe d = (fe', d', r)"
  obtains (refused) x err where "fe' = fe\<lparr>fe_fault := x\<rparr>" "d' = d" "r = Inl err"
  | (failed) f' err where "fe_recovery_required fe'" "fe_options fe' = fe_options fe" "fe_directory fe' = fe_directory fe"
      "d' = d\<lparr>dd_wal := Some f'\<rparr>" "storable e" "wal_holds f' (wal_events (fe_wal fe)) \<or> wal_holds f' (wal_events (fe_wal fe) @ [e])"
      "r = Inl err"
  | (written) w f' where "fe' = fe\<lparr>fe_wal := w\<rparr>" "d' = d\<lparr>dd_wal := Some f'\<rparr>" "wal_ok w f'" "storable e"
      "wal_events w = wal_events (fe_wal fe) @ [e]" "r = Inr ()"
proof (cases "kMaxPayloadBytes < length (canonical_event e)")
  case True
  then have "(fe', d', r) = (fe, d, fail StoreError ''event payload exceeds 1 MiB'')"
    using assms(4) by (simp add: write_event_def)
  then show thesis using refused [of "fe_fault fe"] by simp
next
  case short: False
  then have e: "storable e" using assms(3) by (simp add: storable_def)
  show thesis
  proof (cases "fe_fault fe = FailBeforeFlush")
    case True
    then have "(fe', d', r) = (fe\<lparr>fe_fault := NoStorageFault\<rparr>, d, fail StoreError ''injected failure before flush'')"
      using assms(4) short by (simp add: write_event_def fail_before_flush_def)
    then show thesis using refused [of NoStorageFault] by simp
  next
    case False
    obtain w f' q where append: "wal_append (io_append io) (io_elapsed io) e (durability (fe_options fe)) (fe_wal fe) f = (w, f', q)"
      by (metis prod_cases3)
    have steps: "(fe', d', r) = and_then (checked_mutation (fe\<lparr>fe_wal := w\<rparr>, d\<lparr>dd_wal := Some f'\<rparr>, q)) (\<lambda>fe d _.
        checked_mutation (case fail_after_flush fe of (fe, r) \<Rightarrow> (fe, d, r)))"
      using assms(1,4) short append False by (simp add: write_event_def fail_before_flush_def wal_bytes_of_def)
    from assms(2) e append show thesis
    proof (cases rule: append_outcome)
      case appended: written
      then show thesis
        using steps e failed [of f'] written [of w f'] by (simp add: fail_after_flush_def split: if_splits)
    next
      case lost: (failed err)
      then show thesis using steps e failed [of f'] by simp
    qed
  qed
qed

lemma log_valid_cluster:
  assumes "\<not> commit_on_append options" "log_valid options es m" "log_from_one es'" "list_all own_id es'"
    "take (unat (md_commit_index m)) es' = take (unat (md_commit_index m)) es" "unat (md_commit_index m) \<le> length es'"
  shows "log_valid options es' m" "grows es m es' m"
  using assms by (simp_all add: log_valid_def applied_count_def grows_def)

lemma live_file:
  assumes "files_valid d es m" "store_live fe d es m"
  obtains f where "dd_wal d = Some f" "wal_ok (fe_wal fe) f" "f = wal_bytes es" "list_all storable es" "wal_bytes_of d = f"
proof -
  obtain f where f: "dd_wal d = Some f" using assms(1) unfolding files_valid_def by blast
  then have "wal_bytes_of d = f" by (simp add: wal_bytes_of_def)
  moreover from this have "wal_ok (fe_wal fe) f" "wal_events (fe_wal fe) = es" using assms(2) by (simp_all add: store_live_def)
  moreover from this have "f = wal_bytes es" "list_all storable es" by (simp_all add: wal_ok_def)
  ultimately show thesis using that f by blast
qed

lemma live_log_end:
  assumes "log_valid (fe_options fe) es m" "store_live fe d es m" "es \<noteq> [] \<Longrightarrow> e' = next_log_index (ev_index (last es))"
    "es = [] \<Longrightarrow> e' = st_last_applied (en_state (fe_engine fe)) + 1" "e' \<noteq> 0"
  shows "unat e' = Suc (length es)"
proof (cases "es = []")
  case True
  then show ?thesis using assms(1,2,4) by (simp add: log_valid_def store_live_def runs_def)
next
  case False
  then have last': "unat (ev_index (last es)) = length es"
    using assms(1) log_from_one_last by (simp add: log_valid_def)
  have e': "e' = ev_index (last es) + 1" using assms(3) False by (simp add: next_log_index_def)
  then have "ev_index (last es) \<noteq> max_u64" using assms(5) by auto
  then show ?thesis unfolding e' using last' by (simp add: unat_Suc_exact)
qed

lemma append_event_step:
  assumes inv: "files_valid d es m" "log_valid (fe_options fe) es m" "store_live fe d es m"
    and e: "\<not> commit_on_append (fe_options fe)" "event_ok e" "own_id e" "ev_index e \<noteq> 0"
    and run: "append_event io e fe d = (fe', d', r)"
  shows "\<exists>es'. step_result fe es m fe' d' es' m"
proof -
  obtain f where f: "dd_wal d = Some f" "wal_ok (fe_wal fe) f" "f = wal_bytes es" "list_all storable es"
    using live_file [OF inv(1,3)] by blast
  have wal: "wal_events (fe_wal fe) = es" "require_writable fe = Inr ()"
    using inv(3) by (simp_all add: store_live_def require_writable_def)
  let ?expected = "if es = [] then st_last_applied (en_state (fe_engine fe)) + 1 else next_log_index (ev_index (last es))"
  have unfolded: "append_event io e fe d =
      (if ev_index e \<noteq> ?expected then (fe, d, fail IndexGap ''appended event is not the next log index'') else write_event io e fe d)"
    unfolding append_event_def wal store_steps Let_def by (rule refl)
  show ?thesis
  proof (cases "ev_index e = ?expected")
    case False
    then have "fe' = fe" "d' = d" using run unfolding unfolded by simp_all
    then show ?thesis using step_same(1) [OF inv] by auto
  next
    case True
    then have step: "write_event io e fe d = (fe', d', r)" using run unfolding unfolded by simp
    have "unat (ev_index e) = Suc (length es)"
      using live_log_end [OF inv(2,3), of "ev_index e"] True e(4) by simp
    then have "log_from_one (es @ [e])" using inv(2) by (simp add: log_from_one_snoc log_valid_def)
    then have longer: "log_valid (fe_options fe) (es @ [e]) m" "grows es m (es @ [e]) m"
      using log_valid_cluster [OF e(1) inv(2), of "es @ [e]"] inv(2) e(3) live_commit(1) [OF inv(3,2)] by (simp_all add: log_valid_def)
    from f(1,2) e(2) step show ?thesis
    proof (cases rule: write_event_cases)
      case (refused x err)
      then show ?thesis using step_same(1) [OF inv] by (auto simp: step_result_def)
    next
      case (failed f' err)
      then show ?thesis
        using inv longer wal(1) by (auto simp: step_result_def files_valid_def)
    next
      case (written w f')
      then have "files_valid d' (es @ [e]) m" using inv(1) wal(1) wal_holds_image by (auto simp: files_valid_def wal_ok_def)
      moreover have "store_live fe' d' (es @ [e]) m"
        using written inv(3) wal(1) e(1) live_commit(1) [OF inv(3,2)] by (simp add: store_live_def wal_bytes_of_def)
      ultimately show ?thesis using longer written by (auto simp: step_result_def)
    qed
  qed
qed

section \<open>Truncating\<close>

lemma truncate_outcome:
  assumes "wal_ok w f" "wal_truncate_after resized fault i w f = (w', f', r)"
  obtains (cut) "r = Inr ()" "wal_ok w' f'" "wal_events w' = takeWhile (\<lambda>e. ev_index e \<le> i) (wal_events w)"
  | (failed) err where "r = Inl err" "f' = f \<or> f' = wal_bytes (takeWhile (\<lambda>e. ev_index e \<le> i) (wal_events w))"
proof -
  obtain w1 f1 where full: "wal_truncate_after True NoFault i w f = (w1, f1, Inr ())" "wal_ok w1 f1"
    "wal_events w1 = takeWhile (\<lambda>e. ev_index e \<le> i) (wal_events w)"
    using truncate_refines [OF assms(1)] by blast
  have f1: "f1 = wal_bytes (takeWhile (\<lambda>e. ev_index e \<le> i) (wal_events w))" using full(2,3) by (simp add: wal_ok_def)
  show thesis
  proof (cases "resized \<and> is_ok (sync_file fault (wal_path w))")
    case True
    then have "wal_truncate_after resized fault i w f = wal_truncate_after True NoFault i w f"
      by (auto simp: wal_truncate_after_def Let_def is_ok_iff sync_file_def sync_handle_def)
    then show thesis using assms(2) full by (intro cut) simp_all
  next
    case False
    then have "f' = f \<or> f' = f1" "\<exists>err. r = Inl err"
      using assms(2) full(1)
      by (auto simp: wal_truncate_after_def Let_def is_ok_iff sync_file_def sync_handle_def io_error_def split: if_splits sum.splits)
    then show thesis using failed f1 by blast
  qed
qed

lemma truncate_after_step:
  assumes inv: "files_valid d es m" "log_valid (fe_options fe) es m" "store_live fe d es m"
    and mode: "\<not> commit_on_append (fe_options fe)"
    and run: "truncate_after io i fe d = (fe', d', r)"
  shows "\<exists>es'. step_result fe es m fe' d' es' m"
proof -
  obtain f where f: "dd_wal d = Some f" "wal_ok (fe_wal fe) f" "f = wal_bytes es" "list_all storable es" "wal_bytes_of d = f"
    using live_file [OF inv(1,3)] by blast
  have wal: "wal_events (fe_wal fe) = es" "require_writable fe = Inr ()" "fe_commit_index fe = md_commit_index m"
    using inv(3) by (simp_all add: store_live_def require_writable_def)
  show ?thesis
  proof (cases "i < md_commit_index m")
    case True
    then have "fe' = fe" "d' = d" using run wal by (simp_all add: truncate_after_def)
    then show ?thesis using step_same(1) [OF inv] by auto
  next
    case False
    obtain w f' q where cut: "wal_truncate_after (io_resized io) (io_truncate io) i (fe_wal fe) f = (w, f', q)" by (metis prod_cases3)
    have step: "(fe', d', r) = checked_mutation (fe\<lparr>fe_wal := w\<rparr>, d\<lparr>dd_wal := Some f'\<rparr>, q)"
      using run wal False f(5) cut by (simp add: truncate_after_def)
    let ?es = "take (unat i) es"
    have seq: "log_from_one es" using inv(2) by (simp add: log_valid_def)
    note es = log_from_one_take_while [OF seq, of i]
    have i: "unat (md_commit_index m) \<le> unat i" using False by (simp add: word_le_nat_alt not_less)
    have "list_all own_id ?es" "list_all storable ?es" using inv(2) f(4) by (auto simp: log_valid_def list_all_iff dest: in_set_takeD)
    then have shorter: "log_valid (fe_options fe) ?es m" "grows es m ?es m" "wal_holds (wal_bytes ?es) ?es"
      using log_valid_cluster [OF mode inv(2), of ?es] log_from_one_take [OF seq] i live_commit(1) [OF inv(3,2)] wal_holds_image
      by (simp_all add: min_absorb1)
    from f(2) cut show ?thesis
    proof (cases rule: truncate_outcome)
      case cut
      then have "files_valid d' ?es m" "fe' = fe\<lparr>fe_wal := w\<rparr>"
        using inv(1) shorter(3) step es wal(1) by (auto simp: files_valid_def wal_ok_def)
      moreover from this have "store_live fe' d' ?es m"
        using cut step inv(3) es wal(1) i mode by (simp add: store_live_def wal_bytes_of_def min_absorb1)
      ultimately show ?thesis using shorter by (auto simp: step_result_def)
    next
      case (failed err)
      then have "files_valid d' es m \<or> files_valid d' ?es m"
        using inv(1) shorter(3) step es wal(1) f(1) by (auto simp: files_valid_def)
      then show ?thesis using shorter inv(2) step failed by (auto simp: step_result_def)
    qed
  qed
qed

section \<open>Committing\<close>

lemma step_required: "fe_recovery_required fe \<Longrightarrow> require_writable fe = fail StoreError ''storage failure requires reopen before further writes''"
  by (simp add: require_writable_def)

lemma advance_commit_fields [simp]:
  "md_commit_index (advance_commit i t m) = i" "md_term m \<le> md_term (advance_commit i t m)"
  "metadata_ok m \<Longrightarrow> metadata_ok (advance_commit i t m)"
  by (auto simp: advance_commit_def Let_def metadata_ok_def)

lemma files_valid_meta:
  assumes "files_valid d es m" "metadata_ok m'" "put_metadata io directory options m' d = (d', r)"
  shows "files_valid d' es m \<or> files_valid d' es m'" "r = Inr () \<Longrightarrow> files_valid d' es m'" "dd_wal d' = dd_wal d"
proof -
  obtain held where held: "d' = d\<lparr>dd_meta := held\<rparr>" "held = dd_meta d \<or> meta_holds d' m'"
    using put_metadata_holds(1) [OF assms(2,3)] by blast
  show "dd_wal d' = dd_wal d" using held(1) by simp
  show "files_valid d' es m \<or> files_valid d' es m'"
    using assms(1) held by (auto simp: files_valid_def meta_holds_def)
  show "r = Inr () \<Longrightarrow> files_valid d' es m'"
    using assms(1) held(1) put_metadata_holds(2) [OF assms(2,3)] by (auto simp: files_valid_def)
qed

lemma store_commit_outcome:
  assumes "files_valid d es m" "store_commit io i t fe d = (fe', d', r)"
  obtains (stored) "r = Inr ()" "fe' = fe" "files_valid d' es (advance_commit i t m)" "dd_wal d' = dd_wal d"
  | (failed) err where "r = Inl err" "fe' = storage_failure fe" "files_valid d' es m \<or> files_valid d' es (advance_commit i t m)"
proof -
  have m: "metadata_ok m" "read_metadata io d = Inr m \<or> (\<exists>e. read_metadata io d = Inl e)"
    using assms(1) read_metadata_holds by (auto simp: files_valid_def meta_holds_def)
  show thesis
  proof (cases "read_metadata io d = Inr m")
    case False
    then show thesis using m(2) assms failed by (auto simp: store_commit_def)
  next
    case True
    obtain d1 q where put: "put_metadata io (fe_directory fe) (fe_options fe) (advance_commit i t m) d = (d1, q)" by fastforce
    have step: "(fe', d', r) = checked_mutation (fe, d1, q)" using True put assms(2) by (simp add: store_commit_def)
    note valid = files_valid_meta [OF assms(1) advance_commit_fields(3) [OF m(1)] put]
    show thesis
      using step valid failed stored by (cases q) auto
  qed
qed

lemma log_valid_vote: "log_valid options es (m\<lparr>md_term := t, md_voted_for := v\<rparr>) = log_valid options es m"
  by (simp add: log_valid_def applied_count_def)

lemma persist_consensus_step:
  assumes inv: "files_valid d es m" "log_valid (fe_options fe) es m" "store_live fe d es m"
    and args: "t \<noteq> 0" "pred_option id_ok v" and run: "persist_consensus io t v fe d = (fe', d', r)"
  shows "\<exists>m'. step_result fe es m fe' d' es m' \<and> (r = Inr () \<longrightarrow> md_term m' = t \<and> md_voted_for m' = v)"
proof -
  have m: "metadata_ok m" "read_metadata io d = Inr m \<or> (\<exists>e. read_metadata io d = Inl e)"
    using inv(1) read_metadata_holds by (auto simp: files_valid_def meta_holds_def)
  have writable: "require_writable fe = Inr ()" using inv(3) by (simp add: store_live_def require_writable_def)
  show ?thesis
  proof (cases "read_metadata io d = Inr m")
    case False
    then obtain e where "read_metadata io d = Inl e" using m(2) by blast
    then have "fe' = storage_failure fe" "d' = d" "r = Inl e" using run writable by (simp_all add: persist_consensus_def)
    then show ?thesis using step_same(2) [OF inv] by auto
  next
    case True
    show ?thesis
    proof (cases "t < md_term m")
      case t: True
      then have "fe' = fe" "d' = d" "r \<noteq> Inr ()" using run writable True by (auto simp: persist_consensus_def)
      then show ?thesis using step_same(1) [OF inv] by auto
    next
      case False
      let ?m = "m\<lparr>md_term := t, md_voted_for := v\<rparr>"
      obtain d1 q where put: "put_metadata io (fe_directory fe) (fe_options fe) ?m d = (d1, q)" by fastforce
      have step: "(fe', d', r) = checked_mutation (fe, d1, q)" using True False put run writable by (simp add: persist_consensus_def)
      have "metadata_ok ?m" using args by (simp add: metadata_ok_def)
      note valid = files_valid_meta [OF inv(1) this put]
      have "log_valid (fe_options fe) es ?m" "grows es m es ?m"
        using inv(2) False by (simp_all add: log_valid_vote grows_def)
      moreover have "store_live fe d1 es ?m" using inv(3) valid(3) by (simp add: store_live_def wal_bytes_of_def)
      ultimately show ?thesis
        using step valid inv(2) by (cases q) (auto simp: step_result_def)
    qed
  qed
qed

lemma run_last_applied:
  "foldE apply_committed en es = Inr en' \<Longrightarrow>
   st_last_applied (en_state en') \<in> insert (st_last_applied (en_state en)) (ev_index ` set es)"
proof (induction es arbitrary: en)
  case (Cons e es)
  then obtain en1 where "apply_committed en e = Inr en1" "foldE apply_committed en1 es = Inr en'" by (auto simp: bindE_Inr_iff)
  moreover from this(1) have "st_last_applied (en_state en1) \<in> {st_last_applied (en_state en), ev_index e}"
    by (auto simp: apply_committed_def bindE_Inr_iff apply_state_Inr)
  ultimately show ?case using Cons.IH by fastforce
qed simp

lemma published_state:
  "st_last_applied (en_state (publish_committed en staged)) = st_last_applied (en_state staged)"
  "st_term (en_state (publish_committed en staged)) = st_term (en_state staged)"
  by (simp_all add: publish_committed_def)

lemma commit_run:
  assumes log: "log_from_one es" "list_all storable es" "list_all own_id es" and en: "runs (take c es) en" and c: "c \<le> unat i"
    and batch: "prepare_committed en (take (unat i - c) (drop c es)) = Inr staged" "st_last_applied (en_state staged) = i"
    and bound: "c \<le> length es"
  shows "unat i \<le> length es" "runs (take (unat i) es) (publish_committed en staged)"
proof -
  let ?batch = "take (unat i - c) (drop c es)"
  have "engine_ok en" using runs_ok [OF en log_from_one_take [OF log(1)]] log(2) by (auto simp: list_all_iff dest: in_set_takeD)
  moreover have "list_all (\<lambda>e. event_ok e \<and> own_id e) ?batch"
    using log(2,3) by (auto simp: list_all_iff storable_def dest: in_set_takeD in_set_dropD)
  ultimately have run: "foldE apply_committed en ?batch = Inr (publish_committed en staged)"
    using staged_run batch(1) by (auto simp: engine_ok_def)
  have last': "st_last_applied (en_state (publish_committed en staged)) = i" using batch(2) by (simp add: published_state)
  have "i \<in> insert (of_nat c) (ev_index ` set es)"
    using run_last_applied [OF run] en bound unfolding last'
    by (auto simp: runs_def min_absorb2 dest: in_set_takeD in_set_dropD)
  moreover have "unat (of_nat c :: u64) = c" using bound log_from_one_length [OF log(1)] by (simp add: unat_of_nat_exact)
  ultimately show i: "unat i \<le> length es"
    using bound log(1) by (auto simp: log_from_one_def in_set_conv_nth)
  have "take (unat i) es = take c es @ ?batch" using c by (metis le_add_diff_inverse take_add)
  then have "foldE apply_committed empty_engine (take (unat i) es) = Inr (publish_committed en staged)"
    using en run by (simp add: runs_def foldE_append)
  moreover have "length (take (unat i) es) = unat i" using i by simp
  ultimately show "runs (take (unat i) es) (publish_committed en staged)" using last' by (simp add: runs_def del: length_take)
qed

text \<open>Metadata that advances to a prefix which replays keeps the log valid.\<close>

lemma log_valid_advance:
  assumes "\<not> commit_on_append options" "log_valid options es m" "unat i \<le> length es" "runs (take (unat i) es) en"
  shows "log_valid options es (advance_commit i t m)"
  using assms by (auto simp: log_valid_def applied_count_def)

lemma maybe_snapshot_off [simp]: "snapshot_every (fe_options fe) = 0 \<Longrightarrow> maybe_snapshot io fe d = (fe, d, Inr ())"
  by (simp add: maybe_snapshot_def)

lemma commit_through_step:
  assumes inv: "files_valid d es m" "log_valid (fe_options fe) es m" "store_live fe d es m"
    and mode: "\<not> commit_on_append (fe_options fe)" "snapshot_every (fe_options fe) = 0"
    and run: "commit_through io i fe d = (fe', d', r)"
  shows "\<exists>m'. step_result fe es m fe' d' es m' \<and>
    (r = Inr () \<longrightarrow> unat i \<le> length es \<and> i \<le> md_commit_index m' \<and> (md_commit_index m \<le> i \<longrightarrow> md_commit_index m' = i))"
proof -
  let ?c = "md_commit_index m"
  obtain f where f: "list_all storable es" using live_file [OF inv(1,3)] by blast
  have wal: "wal_events (fe_wal fe) = es" "require_writable fe = Inr ()" "fe_commit_index fe = ?c"
    and en: "runs (take (unat ?c) es) (fe_engine fe)"
    using inv(3) by (simp_all add: store_live_def require_writable_def)
  have seq: "log_from_one es" "list_all own_id es" using inv(2) by (simp_all add: log_valid_def)
  note c = live_commit(1) [OF inv(3,2)]
  show ?thesis
  proof (cases "i < ?c")
    case True
    then have "fe' = fe" "d' = d" "r = Inr ()" using run wal by (simp_all add: commit_through_def)
    moreover have "unat i \<le> length es" "i \<le> ?c" using True c by (auto simp: word_less_nat_alt word_le_nat_alt)
    ultimately show ?thesis using step_same(1) [OF inv] True by (intro exI [of _ m]) auto
  next
    case False
    then have i: "?c \<le> i" "unat ?c \<le> unat i" by (simp_all add: word_le_nat_alt not_less)
    let ?batch = "take (unat i - unat ?c) (drop (unat ?c) es)"
    have "commit_batch fe (unat (i - ?c)) (?c + 1) = ?batch"
      using commit_batch_from_one [of fe ?c "unat (i - ?c)"] wal(1) seq(1) i unat_lt_u64 [of i] by (simp add: unat_sub_exact)
    then have step: "commit_through io i fe d =
        and_then (fe, d, prepare_committed (fe_engine fe) ?batch) (\<lambda>fe d replacement.
          if st_last_applied (en_state replacement) \<noteq> i then (fe, d, fail IndexGap ''commit index is not present in the log'')
          else and_then (store_commit io i (st_term (en_state replacement)) fe d) (\<lambda>fe d _.
            checked_mutation (maybe_snapshot io
              (note_commit (fe\<lparr>fe_engine := publish_committed (fe_engine fe) replacement, fe_commit_index := i\<rparr>)) d)))"
      using False wal by (simp add: commit_through_def)
    show ?thesis
    proof (cases "\<exists>staged. prepare_committed (fe_engine fe) ?batch = Inr staged \<and> st_last_applied (en_state staged) = i")
      case False
      then have "fe' = fe" "d' = d" "r \<noteq> Inr ()"
        using run unfolding step by (cases "prepare_committed (fe_engine fe) ?batch"; auto)+
      then show ?thesis using step_same(1) [OF inv] by blast
    next
      case True
      then obtain staged where staged: "prepare_committed (fe_engine fe) ?batch = Inr staged" "st_last_applied (en_state staged) = i"
        by blast
      note runs' = commit_run [OF seq(1) f seq(2) en i(2) staged c]
      let ?m = "advance_commit i (st_term (en_state staged)) m"
      note valid = log_valid_advance [OF mode(1) inv(2) runs', of "st_term (en_state staged)"]
      have grow: "grows es m es ?m" using i(1) by (simp add: grows_def)
      obtain fe1 d1 q where commit: "store_commit io i (st_term (en_state staged)) fe d = (fe1, d1, q)" by (metis prod_cases3)
      from inv(1) commit show ?thesis
      proof (cases rule: store_commit_outcome)
        case stored
        let ?fe = "note_commit (fe\<lparr>fe_engine := publish_committed (fe_engine fe) staged, fe_commit_index := i\<rparr>)"
        have "fe' = ?fe" "d' = d1" using run commit staged stored mode(2) unfolding step by simp_all
        moreover have "store_live ?fe d1 es ?m"
          using inv(3) stored(4) runs'(2) mode(1) by (simp add: store_live_def wal_bytes_of_def)
        ultimately have "step_result fe es m fe' d' es ?m" using stored valid grow by (simp add: step_result_def)
        then show ?thesis using runs'(1) by auto
      next
        case (failed err)
        then have "fe' = storage_failure fe" "d' = d1" "r = Inl err" using run commit staged unfolding step by simp_all
        then show ?thesis using failed(3) valid grow inv(2) by (auto simp: step_result_def)
      qed
    qed
  qed
qed

section \<open>Submitting\<close>

lemma run_applied_events:
  "foldE apply_committed en es = Inr en' \<Longrightarrow> map_of (st_applied_events (en_state en')) i = Some t \<Longrightarrow>
   map_of (st_applied_events (en_state en)) i = Some t \<or> (\<exists>e \<in> set es. ev_id e = i \<and> t = canonical_event e)"
proof (induction es arbitrary: en)
  case (Cons e es)
  then obtain en1 where step: "apply_committed en e = Inr en1" "foldE apply_committed en1 es = Inr en'" by (auto simp: bindE_Inr_iff)
  have "map_of (st_applied_events (en_state en1)) i = Some t \<Longrightarrow>
      map_of (st_applied_events (en_state en)) i = Some t \<or> ev_id e = i \<and> t = canonical_event e"
    using step(1) by (auto simp: apply_committed_def bindE_Inr_iff apply_state_Inr split: if_splits)
  then show ?case using Cons.IH [OF step(2) Cons.prems(2)] by auto
qed simp

text \<open>Without leadership markers every applied event id is a command id with a receipt.\<close>

lemma command_id_fresh:
  assumes "runs es en" "log_from_one es" "list_all storable es" "list_all own_id es" "list_all (\<lambda>e. ev_type e \<noteq> NoOp) es"
    "map_of (st_receipts (en_state en)) i = None"
  shows "map_of (st_applied_events (en_state en)) i = None"
proof (rule ccontr)
  assume "map_of (st_applied_events (en_state en)) i \<noteq> None"
  then obtain t where t: "map_of (st_applied_events (en_state en)) i = Some t" by blast
  have "foldE apply_committed empty_engine es = Inr en" using assms(1) by (simp add: runs_def)
  from run_applied_events [OF this t] obtain e where e: "e \<in> set es" "ev_id e = i" "t = canonical_event e"
    by (auto simp: empty_engine_def initial_state_def)
  have props: "event_ok e" "ev_command e = i" "ev_type e \<noteq> NoOp"
    using e assms(3-5) by (auto simp: list_all_iff storable_def own_id_def)
  have "log_ok (en_state en)" using runs_ok [OF assms(1-3)] by (simp add: engine_ok_def)
  moreover have "logged (en_state en) e" using t e props(1) by (simp add: logged_def)
  ultimately have "recorded (en_state en) e" by (simp add: log_ok_def events_recorded_def)
  then show False using props assms(6) by (simp add: recorded_def)
qed

text \<open>What a proposal of a store that commits on append is worth: the longer log is valid and replays.\<close>

lemma proposal_extends:
  assumes inv: "log_valid (fe_options fe) es m" "store_live fe d es m" "list_all storable es" "commit_on_append (fe_options fe)"
    and args: "command_ok cmd" "md_commit_index m \<noteq> max_u64" "propose (en_state (fe_engine fe)) cmd = Inr e"
  obtains en where "apply_committed (fe_engine fe) e = Inr en" "runs (es @ [e]) en" "event_ok e"
    "log_valid (fe_options fe) (es @ [e]) m" "st_last_applied (en_state en) = ev_index e" "unat (ev_index e) = Suc (length es)"
proof -
  let ?s = "en_state (fe_engine fe)"
  have c: "unat (md_commit_index m) = length es" and runs': "runs es (fe_engine fe)"
    using inv(2,4) by (auto simp: store_live_def)
  have log: "log_from_one es" "list_all own_id es" "list_all (\<lambda>e. ev_type e \<noteq> NoOp) es"
    using inv(1,4) by (simp_all add: log_valid_def)
  have ok: "engine_ok (fe_engine fe)" by (rule runs_ok [OF runs' log(1) inv(3)])
  have last': "st_last_applied ?s = md_commit_index m" using runs' by (simp add: runs_def c [symmetric])
  have e: "own_id e" "ev_type e \<noteq> NoOp" "ev_index e = md_commit_index m + 1" "map_of (st_receipts ?s) (cmd_id cmd) = None"
    "ev_command e = cmd_id cmd" "ev_id e = cmd_id cmd" "map_of (st_applied_commands ?s) (cmd_id cmd) = None"
    using args(3) last' by (auto simp: propose_Inr own_id_def next_log_index_def)
  have fresh: "map_of (st_applied_events ?s) (cmd_id cmd) = None" by (rule command_id_fresh [OF runs' log(1) inv(3) log(2,3) e(4)])
  obtain s' where s': "apply_state ?s e Contiguous = Inr s'"
    using proposed_applies [OF args(3) fresh] by (auto simp: is_ok_iff)
  moreover have "existing_event ?s e = Inr False" using fresh e by (simp add: existing_event_False)
  ultimately have s'_last: "st_last_applied s' = ev_index e" by (auto simp: apply_state_Inr)
  let ?en = "(fe_engine fe)\<lparr>en_state := s', en_events := en_events (fe_engine fe) @ [e]\<rparr>"
  have applied: "apply_committed (fe_engine fe) e = Inr ?en" using s' by (simp add: apply_committed_def)
  have index: "unat (ev_index e) = Suc (length es)" using e(3) args(2) c by (simp add: unat_Suc_exact)
  then have "of_nat (Suc (length es)) = ev_index e" by (simp only: index [symmetric]) simp
  then have longer: "runs (es @ [e]) ?en" using runs' applied s'_last by (simp add: runs_def foldE_append)
  have "event_ok e" using proposed_event_ok [OF args(3,1)] ok by (simp add: engine_ok_def domain_ok_term)
  moreover have "log_valid (fe_options fe) (es @ [e]) m"
    using inv(4) log e(1,2) index longer c by (auto simp: log_valid_def applied_count_def log_from_one_snoc)
  ultimately show thesis using that [of ?en] applied longer s'_last index by simp
qed

lemma fe_submit_step:
  assumes inv: "files_valid d es m" "log_valid (fe_options fe) es m" "store_live fe d es m"
    and mode: "commit_on_append (fe_options fe)" "snapshot_every (fe_options fe) = 0"
    and args: "command_ok cmd" "md_commit_index m \<noteq> max_u64" and run: "fe_submit io cmd fe d = (fe', d', r)"
  shows "\<exists>es' m'. step_result fe es m fe' d' es' m' \<and>
    (\<forall>s. r = Inr s \<longrightarrow> \<not> sr_duplicate s \<longrightarrow> es' = es @ [sr_event s] \<and> unat (md_commit_index m') = length es')"
proof -
  let ?s = "en_state (fe_engine fe)"
  obtain f where f: "dd_wal d = Some f" "wal_ok (fe_wal fe) f" "list_all storable es" using live_file [OF inv(1,3)] by blast
  have wal: "wal_events (fe_wal fe) = es" "require_writable fe = Inr ()" "fe_commit_index fe = md_commit_index m"
    "unat (md_commit_index m) = length es" using inv(3) mode(1) by (simp_all add: store_live_def require_writable_def)
  note same = step_same(1) [OF inv]
  show ?thesis
  proof (cases "map_of (st_applied_commands ?s) (cmd_id cmd) \<noteq> None \<or> map_of (st_receipts ?s) (cmd_id cmd) \<noteq> None
      \<or> \<not> is_ok (propose ?s cmd)")
    case True
    then have "fe' = fe" "d' = d" "\<And>s. r = Inr s \<Longrightarrow> sr_duplicate s"
      using run wal(2) by (cases "propose ?s cmd"; auto simp: fe_submit_def Let_def bindE_Inr_iff split: if_splits)+
    then show ?thesis using same by blast
  next
    case False
    then obtain e where e: "propose ?s cmd = Inr e" by (auto simp: is_ok_iff)
    obtain en where en: "apply_committed (fe_engine fe) e = Inr en" "runs (es @ [e]) en" "event_ok e"
      "log_valid (fe_options fe) (es @ [e]) m" "st_last_applied (en_state en) = ev_index e" "unat (ev_index e) = Suc (length es)"
      using proposal_extends [OF inv(2,3) f(3) mode(1) args e] by blast
    let ?m = "advance_commit (ev_index e) (ev_term e) m"
    have valid: "log_valid (fe_options fe) (es @ [e]) ?m"
      using en(4,6) mode(1) by (auto simp: log_valid_def applied_count_def)
    have index: "md_commit_index m \<le> ev_index e" using wal(4) en(6) by (simp add: word_le_nat_alt)
    then have grow: "grows es m (es @ [e]) m" "grows es m (es @ [e]) ?m"
      using index wal(4) by (simp_all add: grows_def)
    have step: "fe_submit io cmd fe d = and_then (write_event io e fe d) (\<lambda>fe d _.
        and_then (store_commit io (ev_index e) (ev_term e) fe d) (\<lambda>fe d _.
        and_then (checked_mutation (publish_submitted e fe d)) (\<lambda>fe d _.
        and_then (checked_mutation (maybe_snapshot io fe d)) (\<lambda>fe d _. (fe, d, Inr \<lparr>sr_event = e, sr_duplicate = False\<rparr>)))))"
      using wal(2) False e by (simp add: fe_submit_def Let_def)
    obtain fe1 d1 q where wrote: "write_event io e fe d = (fe1, d1, q)" by (metis prod_cases3)
    from f(1,2) en(3) wrote show ?thesis
    proof (cases rule: write_event_cases)
      case (refused x err)
      then have "step_result fe es m fe' d' es m" "r = Inl err"
        using run wrote same unfolding step by (auto simp: step_result_def)
      then show ?thesis by blast
    next
      case (failed f' err)
      then have "files_valid d1 es m \<or> files_valid d1 (es @ [e]) m" using inv(1) wal(1) by (auto simp: files_valid_def)
      then have "step_result fe es m fe' d' es m \<or> step_result fe es m fe' d' (es @ [e]) m" "r = Inl err"
        using run wrote failed grow(1) en(4) inv(2) unfolding step by (auto simp: step_result_def)
      then show ?thesis by blast
    next
      case (written w f')
      then have files: "files_valid d1 (es @ [e]) m" using inv(1) wal(1) wal_holds_image by (auto simp: files_valid_def wal_ok_def)
      obtain fe2 d2 q2 where commit: "store_commit io (ev_index e) (ev_term e) fe1 d1 = (fe2, d2, q2)" by (metis prod_cases3)
      from files commit show ?thesis
      proof (cases rule: store_commit_outcome)
        case (failed err)
        then have "step_result fe es m fe' d' (es @ [e]) m \<or> step_result fe es m fe' d' (es @ [e]) ?m" "r = Inl err"
          using run wrote written(1,6) commit grow en(4) valid unfolding step by (auto simp: step_result_def)
        then show ?thesis by blast
      next
        case stored
        let ?fe = "note_commit (fe1\<lparr>fe_engine := en, fe_commit_index := st_last_applied (en_state en)\<rparr>)"
        have "fe' = ?fe" "d' = d2" "r = Inr \<lparr>sr_event = e, sr_duplicate = False\<rparr>"
          using run wrote written(1,6) commit stored en(1) mode(2) unfolding step by (simp_all add: publish_submitted_def)
        moreover have "store_live ?fe d2 (es @ [e]) ?m"
          using inv(3) written stored(4) en(2,5,6) wal(1) by (simp add: store_live_def wal_bytes_of_def)
        ultimately have "step_result fe es m fe' d' (es @ [e]) ?m" "r = Inr \<lparr>sr_event = e, sr_duplicate = False\<rparr>"
          using stored(3) valid grow(2) written(1) by (simp_all add: step_result_def)
        then show ?thesis using en(6) by auto
      qed
    qed
  qed
qed

end
