(* ===== verification/File_Engine_Recovery.thy ===== *)
theory File_Engine_Recovery
  imports File_Engine_Steps
begin

text \<open>
  What the durable store keeps, for stores that take no snapshots: after any sequence of operations,
  system faults, process crashes and failed openings, the directory opens again with every acknowledged
  commit, and a store that is open for writes and its directory describe the same log, commit index and
  state.
\<close>

section \<open>Opening\<close>

lemma replay_records_run:
  assumes "\<forall>e \<in> set es. ev_index e \<noteq> 0" "foldE apply_committed (fe_engine fe) (takeWhile (\<lambda>e. ev_index e \<le> limit) es) = Inr en"
  shows "\<exists>report. replay_records 0 limit fe es = Inr (fe\<lparr>fe_engine := en, fe_recovery := report\<rparr>)"
  using assms
proof (induction es arbitrary: fe)
  case Nil
  then show ?case by (intro exI [of _ "fe_recovery fe"]) simp
next
  case (Cons e es)
  show ?case
  proof (cases "ev_index e \<le> limit")
    case True
    then obtain en1 where "apply_committed (fe_engine fe) e = Inr en1"
      "foldE apply_committed en1 (takeWhile (\<lambda>e. ev_index e \<le> limit) es) = Inr en"
      using Cons.prems(2) by (auto simp: bindE_Inr_iff)
    then show ?thesis using Cons.IH [of "fe\<lparr>fe_engine := en1, fe_recovery := _\<rparr>"] Cons.prems(1) True by simp
  next
    case False
    then have "fe_engine fe = en" "limit < ev_index e" using Cons.prems(2) by simp_all
    then show ?thesis using Cons.prems(1) by (intro exI [of _ "fe_recovery fe"]) auto
  qed
qed

definition apply_limit_of :: "StoreOptions \<Rightarrow> NodeMetadata \<Rightarrow> u64" where
  "apply_limit_of options m = (if commit_on_append options then max_u64 else md_commit_index m)"

lemma limit_count:
  assumes "log_valid options es m"
  shows "takeWhile (\<lambda>e. ev_index e \<le> apply_limit_of options m) es = take (applied_count options es m) es"
proof -
  have seq: "log_from_one es" using assms by (simp add: log_valid_def)
  have "length es \<le> 2 ^ 64 - 1" using log_from_one_length [OF seq] by simp
  then show ?thesis
    unfolding log_from_one_take_while [OF seq] by (auto simp: apply_limit_of_def applied_count_def)
qed

text \<open>The last stage of an opening, on a store whose engine has replayed the log.\<close>

lemma open_commit_outcome:
  assumes inv: "files_valid d es m" "log_valid options es m" "\<not> compact_log options"
    and fe: "fe_options fe = options" "\<not> fe_recovery_required fe" "wal_ok (fe_wal fe) (wal_bytes_of d)" "wal_events (fe_wal fe) = es"
      "runs (take (applied_count options es m) es) (fe_engine fe)" "fe_snapshot fe = None"
    and run: "open_commit io m fe d = (fe', d', r)"
  shows "\<exists>m'. files_valid d' es m' \<and> log_valid options es m' \<and> grows es m es m' \<and>
    (r = Inr () \<longrightarrow> fe_options fe' = options \<and> fe_directory fe' = fe_directory fe \<and> store_live fe' d' es m')"
proof -
  let ?s = "en_state (fe_engine fe)" and ?n = "applied_count options es m"
  have n: "?n \<le> length es" "unat (md_commit_index m) \<le> ?n" "length es < 2 ^ 64"
    using inv(2) log_from_one_length by (auto simp: log_valid_def)
  have last': "unat (st_last_applied ?s) = ?n" using fe(5) n by (simp add: runs_def unat_of_nat_exact)
  then have reached: "\<not> st_last_applied ?s < md_commit_index m" using n(2) by (simp add: word_less_nat_alt)
  show ?thesis
  proof (cases "commit_on_append options")
    case False
    then have "(fe', d', r) = (note_commit (fe\<lparr>fe_commit_index := md_commit_index m\<rparr>), d, Inr ())"
      using run reached inv(3) fe(1) by (simp add: open_commit_def Let_def)
    moreover have "store_live (note_commit (fe\<lparr>fe_commit_index := md_commit_index m\<rparr>)) d es m"
      using fe False by (simp add: store_live_def applied_count_def)
    ultimately show ?thesis using inv(1,2) fe(1) by (intro exI [of _ m]) simp
  next
    case True
    then have all: "?n = length es" by (simp add: applied_count_def)
    let ?commit = "st_last_applied ?s" and ?fe = "fe\<lparr>fe_commit_index := st_last_applied ?s\<rparr>"
    let ?m = "advance_commit ?commit (st_term ?s) m"
    have live: "store_live (note_commit ?fe) d1 es m1" if "md_commit_index m1 = ?commit" "dd_wal d1 = dd_wal d" for d1 m1
      using that fe all last' by (simp add: store_live_def wal_bytes_of_def)
    show ?thesis
    proof (cases "md_commit_index m < ?commit \<or> md_term m < st_term ?s")
      case False
      then have "md_commit_index m = ?commit" using reached by simp
      moreover have "(fe', d', r) = (note_commit ?fe, d, Inr ())"
        using run reached inv(3) fe(1) True False by (simp add: open_commit_def Let_def)
      ultimately show ?thesis using live [of m d] inv(1,2) fe(1) by (intro exI [of _ m]) simp
    next
      case change: True
      obtain d1 q where put: "put_metadata io (fe_directory fe) options ?m d = (d1, q)" by fastforce
      have "metadata_ok ?m" using inv(1) by (simp add: files_valid_def meta_holds_def)
      note valid = files_valid_meta [OF inv(1) this put]
      have step: "(fe', d', r) = and_then (?fe, d1, q) (\<lambda>fe d _. (note_commit fe, d, Inr ()))"
        using run reached inv(3) fe(1) True change put by (simp add: open_commit_def Let_def)
      have "log_valid options es ?m" "grows es m es ?m"
        using inv(2) True all last' reached by (simp_all add: log_valid_def applied_count_def grows_def not_less)
      then show ?thesis
        using step valid live [of ?m d1] inv(2) fe(1) by (cases q) auto
    qed
  qed
qed

text \<open>Once snapshots and metadata are read, an opening replays the log and ends with its last stage.\<close>

lemma open_store_replays:
  assumes inv: "files_valid d es m" "log_valid options es m" and w: "wal_events w = es"
    and read: "latest_snapshot_file io d = Inr None" "read_metadata io d = Inr m"
  obtains en report where "runs (take (applied_count options es m) es) en"
    "open_store io (new_store directory options w) d =
       open_commit io m ((new_store directory options w)\<lparr>fe_engine := en, fe_recovery := report\<rparr>) d"
proof -
  let ?fe = "new_store directory options w"
  have fe: "fe_options ?fe = options" "fe_wal ?fe = w" "fe_engine ?fe = empty_engine" "fe_snapshot ?fe = None"
    by (simp_all add: new_store_def)
  have seq: "log_from_one es" using inv(2) by (simp add: log_valid_def)
  have nonzero: "\<forall>e \<in> set es. ev_index e \<noteq> 0" using seq by (fastforce simp: log_from_one_def in_set_conv_nth)
  obtain en where en: "runs (take (applied_count options es m) es) en" using inv(2) by (auto simp: log_valid_def)
  then have "foldE apply_committed (fe_engine ?fe) (takeWhile (\<lambda>e. ev_index e \<le> apply_limit_of options m) es) = Inr en"
    unfolding limit_count [OF inv(2)] fe(3) by (simp add: runs_def)
  from replay_records_run [OF nonzero this] obtain report where
    replay: "replay_records 0 (apply_limit_of options m) ?fe es = Inr (?fe\<lparr>fe_engine := en, fe_recovery := report\<rparr>)"
    by blast
  have boundary: "open_boundary io 0 m ?fe d = (?fe, d, Inr ())"
    using log_from_one_hd [OF seq] w fe(2,4) by (auto simp: open_boundary_def Let_def)
  have "open_store io ?fe d = open_commit io m (?fe\<lparr>fe_engine := en, fe_recovery := report\<rparr>) d"
    using read log_from_one_contiguous [OF seq] w fe(1,2) boundary replay
    by (simp add: open_store_def open_snapshot_def Let_def apply_limit_of_def [symmetric])
  then show thesis using that en by blast
qed

lemma open_store_outcome:
  assumes inv: "files_valid d es m" "log_valid options es m" "\<not> compact_log options"
    and w: "wal_ok w (wal_bytes_of d)" "wal_events w = es"
    and run: "open_store io (new_store directory options w) d = (fe', d', r)"
  shows "\<exists>m'. files_valid d' es m' \<and> log_valid options es m' \<and> grows es m es m' \<and>
    (r = Inr () \<longrightarrow> fe_options fe' = options \<and> fe_directory fe' = directory \<and> store_live fe' d' es m')"
proof -
  let ?fe = "new_store directory options w"
  have fe: "fe_options ?fe = options" "fe_directory ?fe = directory" "fe_wal ?fe = w"
    "\<not> fe_recovery_required ?fe" "fe_snapshot ?fe = None"
    by (simp_all add: new_store_def)
  have seq: "log_from_one es" using inv(2) by (simp add: log_valid_def)
  have snapshots: "latest_snapshot_file io d = Inr None \<or> (\<exists>e. latest_snapshot_file io d = Inl e)"
    using inv(1) by (cases "io_snap_list io")
      (simp_all add: latest_snapshot_file_def load_latest_snapshot_def snapshot_folder_def files_valid_def)
  have metadata: "read_metadata io d = Inr m \<or> (\<exists>e. read_metadata io d = Inl e)"
    using inv(1) read_metadata_holds by (auto simp: files_valid_def)
  show ?thesis
  proof (cases "latest_snapshot_file io d = Inr None \<and> read_metadata io d = Inr m")
    case False
    then have "d' = d" "r \<noteq> Inr ()"
      using run snapshots metadata log_from_one_contiguous [OF seq] w(2) fe(3)
      by (auto simp: open_store_def)
    then show ?thesis using inv by (intro exI [of _ m]) simp
  next
    case True
    obtain en report where en: "runs (take (applied_count options es m) es) en"
      and last': "open_store io ?fe d = open_commit io m (?fe\<lparr>fe_engine := en, fe_recovery := report\<rparr>) d"
      using open_store_replays [OF inv(1,2) w(2) conjunct1 [OF True] conjunct2 [OF True]] by blast
    then show ?thesis
      using open_commit_outcome [OF inv, of "?fe\<lparr>fe_engine := en, fe_recovery := report\<rparr>" io fe' d' r] run w fe by simp
  qed
qed

lemma open_outcome:
  assumes inv: "files_valid d es m" "log_valid options es m" "\<not> compact_log options"
    and run: "fe_open io directory options d = (d', r)"
  shows "\<exists>m'. files_valid d' es m' \<and> log_valid options es m' \<and> grows es m es m' \<and>
    (\<forall>fe. r = Inr fe \<longrightarrow> fe_options fe = options \<and> fe_directory fe = directory \<and> store_live fe d' es m')"
proof -
  obtain f where f: "dd_wal d = Some f" "wal_holds f es" using inv(1) by (auto simp: files_valid_def)
  obtain n where load: "wal_load (Inr ()) True w f = (loaded w es n, wal_bytes es, Inr ())" for w
    using f(2) by (auto simp: wal_holds_def)
  have es: "list_all storable es" using f(2) by (simp add: wal_holds_def)
  have unchanged: ?thesis if "d' = d" "\<exists>e. r = Inl e" using that inv by (intro exI [of _ m]) auto
  let ?w = "new_wal (event_log_path directory) directory"
  have journal: "recover_snapshot_transaction (io_txn io) directory d = (d, Inr ())
      \<or> (\<exists>e. recover_snapshot_transaction (io_txn io) directory d = (d, Inl e))"
    using inv(1) by (cases "journal_exists (io_txn io) d"; cases "sync_directory (sc_last (io_txn io)) directory")
      (simp_all add: recover_snapshot_transaction_def files_valid_def)
  have wal: "open_wal io directory d = (d\<lparr>dd_wal := Some (wal_bytes es)\<rparr>, Inr (loaded ?w es n))
      \<or> (\<exists>e. open_wal io directory d = (d, Inl e))"
  proof (cases "io_wal_stat io")
    case (Some why)
    then show ?thesis by (simp add: open_wal_def wal_open_def Let_def)
  next
    case None
    from load [of ?w] show ?thesis
      by (cases rule: wal_load_cases [where answer = "io_reading io" and resized = "io_resized io"])
        (simp_all add: open_wal_def wal_open_def Let_def None f(1))
  qed
  show ?thesis
  proof (cases "io_mkdir io \<and> recover_snapshot_transaction (io_txn io) directory d = (d, Inr ())
      \<and> open_wal io directory d = (d\<lparr>dd_wal := Some (wal_bytes es)\<rparr>, Inr (loaded ?w es n))")
    case False
    then show ?thesis using run journal wal by (intro unchanged) (auto simp: fe_open_def split: if_splits)
  next
    case True
    let ?d = "d\<lparr>dd_wal := Some (wal_bytes es)\<rparr>"
    obtain fe1 d1 q where store: "open_store io (new_store directory options (loaded ?w es n)) ?d = (fe1, d1, q)"
      by (metis prod_cases3)
    have result: "d' = d1" "r = bindE q (\<lambda>_. Inr fe1)" using run True store by (simp_all add: fe_open_def)
    have "files_valid ?d es m" using inv(1) wal_holds_image [OF es] by (simp add: files_valid_def)
    moreover have "wal_ok (loaded ?w es n) (wal_bytes_of ?d)" using wal_ok_loaded [OF es] by (simp add: wal_bytes_of_def)
    ultimately show ?thesis
      using open_store_outcome [OF _ inv(2,3) _ _ store] result by (auto simp: bindE_Inr_iff)
  qed
qed

text \<open>The answers of a system on which no call fails.\<close>

definition quiet :: StoreCalls where
  "quiet = \<lparr>io_mkdir = True, io_txn = calm, io_wal_stat = None, io_header = NoFault, io_reading = Inr (), io_resized = True,
     io_append = NoFault, io_elapsed = 0, io_truncate = NoFault, io_rewrite = NoFault, io_reload = Inr (),
     io_reload_resized = True, io_meta_stat = None, io_meta_read = Inr (), io_meta = NoFault, io_snap_list = None,
     io_snap_read = (\<lambda>_. Inr ()), io_snap_made = True, io_snap_dir = NoFault, io_snap = NoFault, io_prune = None,
     io_stuck = (\<lambda>_. False)\<rparr>"

lemma put_metadata_quiet:
  assumes "metadata_ok m"
  shows "\<exists>d'. put_metadata quiet directory options m d = (d', Inr ())"
  by (simp add: put_metadata_def store_metadata_def encode_metadata_layout [OF voted_short [OF assms]] quiet_def
      write_atomic_def fwrite_def sync_handle_def sync_directory_def Let_def split: if_splits)

lemma open_commit_quiet:
  assumes "metadata_ok m" "\<not> compact_log (fe_options fe)" "md_commit_index m \<le> st_last_applied (en_state (fe_engine fe))"
  shows "\<exists>fe' d'. open_commit quiet m fe d = (fe', d', Inr ())"
proof -
  let ?m = "advance_commit (st_last_applied (en_state (fe_engine fe))) (st_term (en_state (fe_engine fe))) m"
  obtain d1 where "put_metadata quiet (fe_directory fe) (fe_options fe) ?m d = (d1, Inr ())"
    using put_metadata_quiet advance_commit_fields(3) [OF assms(1)] by blast
  then show ?thesis using assms(2,3) by (auto simp: open_commit_def Let_def not_less)
qed

lemma open_store_quiet:
  assumes inv: "files_valid d es m" "log_valid options es m" "\<not> compact_log options" and w: "wal_events w = es"
  shows "\<exists>fe d'. open_store quiet (new_store directory options w) d = (fe, d', Inr ())"
proof -
  have m: "metadata_ok m" "read_metadata quiet d = Inr m"
    using inv(1) parse_metadata_bytes by (auto simp: files_valid_def meta_holds_def read_metadata_def load_metadata_def quiet_def)
  have "latest_snapshot_file quiet d = Inr None"
    using inv(1) by (simp add: latest_snapshot_file_def load_latest_snapshot_def snapshot_folder_def files_valid_def quiet_def)
  then obtain en report where en: "runs (take (applied_count options es m) es) en"
    and last': "open_store quiet (new_store directory options w) d =
      open_commit quiet m ((new_store directory options w)\<lparr>fe_engine := en, fe_recovery := report\<rparr>) d"
    using open_store_replays [OF inv(1,2) w _ m(2)] by blast
  have n: "applied_count options es m \<le> length es" "unat (md_commit_index m) \<le> applied_count options es m" "length es < 2 ^ 64"
    using inv(2) log_from_one_length by (auto simp: log_valid_def)
  then have "md_commit_index m \<le> st_last_applied (en_state en)"
    using en by (simp add: runs_def word_le_nat_alt unat_of_nat_exact)
  then show ?thesis
    using open_commit_quiet [OF m(1), of "(new_store directory options w)\<lparr>fe_engine := en, fe_recovery := report\<rparr>" d] inv(3)
    unfolding last' by (auto simp: new_store_def)
qed

lemma quiet_journal:
  assumes "dd_journal d = None"
  shows "recover_snapshot_transaction (io_txn quiet) directory d = (d, Inr ())"
  using assms by (simp add: recover_snapshot_transaction_def quiet_def calm_def journal_exists_def sync_directory_def)

lemma quiet_open:
  assumes "dd_journal d = None" "open_wal quiet directory d = (d1, Inr w)"
    "\<exists>fe d'. open_store quiet (new_store directory options w) d1 = (fe, d', Inr ())"
  shows "\<exists>d' fe. fe_open quiet directory options d = (d', Inr fe)"
proof -
  have "io_mkdir quiet" by (simp add: quiet_def)
  then show ?thesis using assms quiet_journal [OF assms(1), of directory] by (auto simp: fe_open_def)
qed

lemma open_quiet:
  assumes inv: "files_valid d es m" "log_valid options es m" "\<not> compact_log options"
  shows "\<exists>d' fe. fe_open quiet directory options d = (d', Inr fe)"
proof -
  obtain f where f: "dd_wal d = Some f" "wal_holds f es" using inv(1) by (auto simp: files_valid_def)
  obtain n where load: "wal_load (Inr ()) True w f = (loaded w es n, wal_bytes es, Inr ())" for w
    using f(2) by (auto simp: wal_holds_def)
  let ?w = "loaded (new_wal (event_log_path directory) directory) es n" and ?d = "d\<lparr>dd_wal := Some (wal_bytes es)\<rparr>"
  have wal: "open_wal quiet directory d = (?d, Inr ?w)" using load f(1) by (simp add: open_wal_def wal_open_def quiet_def Let_def)
  have "files_valid ?d es m" "dd_journal d = None" using inv(1) f(2) wal_holds_image by (simp_all add: files_valid_def wal_holds_def)
  then show ?thesis using quiet_open [OF _ wal] open_store_quiet [OF _ inv(2,3) loaded_events] by blast
qed

section \<open>Histories of a data directory\<close>

definition committed_log :: "FileEngine \<Rightarrow> Event list" where
  "committed_log fe = take (unat (fe_commit_index fe)) (wal_events (fe_wal fe))"

text \<open>What a caller may rely on after an operation: the committed log of a store that still accepts writes.\<close>

definition acknowledged :: "Event list \<Rightarrow> FileEngine \<Rightarrow> Event list" where
  "acknowledged acked fe = (if fe_recovery_required fe then acked else committed_log fe)"

definition empty_directory :: DataDir where
  "empty_directory = \<lparr>dd_journal = None, dd_meta = None, dd_wal = None, dd_snapshots = None\<rparr>"

text \<open>
  The life of a directory from its creation on: operations with any answers of the system, crashes of
  the process between and, as operations whose calls fail half-way, within them, and openings that
  succeed or fail. The list is the committed log last acknowledged, the option the open store. A cluster
  node appends, truncates and commits; a single node submits.
\<close>

inductive store_history :: "StoreOptions \<Rightarrow> string \<Rightarrow> Event list \<Rightarrow> FileEngine option \<Rightarrow> DataDir \<Rightarrow> bool"
  for options directory where
  created: "fe_open io directory options empty_directory = (d, Inr fe) \<Longrightarrow> store_history options directory [] (Some fe) d"
| appended: "\<lbrakk>store_history options directory acked (Some fe) d; \<not> commit_on_append options;
    event_ok e; own_id e; ev_index e \<noteq> 0; append_event io e fe d = (fe', d', r)\<rbrakk> \<Longrightarrow>
    store_history options directory (acknowledged acked fe') (Some fe') d'"
| truncated: "\<lbrakk>store_history options directory acked (Some fe) d; \<not> commit_on_append options;
    truncate_after io i fe d = (fe', d', r)\<rbrakk> \<Longrightarrow>
    store_history options directory (acknowledged acked fe') (Some fe') d'"
| committed: "\<lbrakk>store_history options directory acked (Some fe) d; \<not> commit_on_append options;
    commit_through io i fe d = (fe', d', r)\<rbrakk> \<Longrightarrow>
    store_history options directory (acknowledged acked fe') (Some fe') d'"
| submitted: "\<lbrakk>store_history options directory acked (Some fe) d; commit_on_append options;
    command_ok c; fe_commit_index fe \<noteq> max_u64; fe_submit io c fe d = (fe', d', s)\<rbrakk> \<Longrightarrow>
    store_history options directory (acknowledged acked fe') (Some fe') d'"
| voted: "\<lbrakk>store_history options directory acked (Some fe) d; t \<noteq> 0; pred_option id_ok v;
    persist_consensus io t v fe d = (fe', d', r)\<rbrakk> \<Longrightarrow>
    store_history options directory (acknowledged acked fe') (Some fe') d'"
| armed: "\<lbrakk>store_history options directory acked (Some fe) d; arm_storage_fault fault fe = (fe', r)\<rbrakk> \<Longrightarrow>
    store_history options directory acked (Some fe') d"
| crashed: "store_history options directory acked x d \<Longrightarrow> store_history options directory acked None d"
| reopened: "\<lbrakk>store_history options directory acked x d; fe_open io directory options d = (d', Inr fe)\<rbrakk> \<Longrightarrow>
    store_history options directory (committed_log fe) (Some fe) d'"
| not_opened: "\<lbrakk>store_history options directory acked x d; fe_open io directory options d = (d', Inl e)\<rbrakk> \<Longrightarrow>
    store_history options directory acked None d'"

definition history_ok :: "StoreOptions \<Rightarrow> Event list \<Rightarrow> FileEngine option \<Rightarrow> DataDir \<Rightarrow> bool" where
  "history_ok options acked x d \<longleftrightarrow> (\<exists>es m rest. files_valid d es m \<and> log_valid options es m \<and>
     take (unat (md_commit_index m)) es = acked @ rest \<and>
     (\<forall>fe. x = Some fe \<longrightarrow> fe_options fe = options \<and> (fe_recovery_required fe \<or> store_live fe d es m)))"

lemma live_committed: "store_live fe d es m \<Longrightarrow> committed_log fe = take (unat (md_commit_index m)) es"
  by (simp add: store_live_def committed_log_def)

lemma grows_prefix:
  assumes "grows es m es' m'" "take (unat (md_commit_index m)) es = acked @ rest"
  obtains rest' where "take (unat (md_commit_index m')) es' = acked @ rest'"
proof -
  have le: "unat (md_commit_index m) \<le> unat (md_commit_index m')" using assms(1) by (simp add: grows_def word_le_nat_alt)
  have "take (unat (md_commit_index m')) es' =
      take (unat (md_commit_index m)) es' @ drop (unat (md_commit_index m)) (take (unat (md_commit_index m')) es')"
    using append_take_drop_id [of "unat (md_commit_index m)" "take (unat (md_commit_index m')) es'"] le by (simp add: min_absorb1)
  then show thesis using that assms by (simp add: grows_def)
qed

lemma step_result_history:
  assumes "step_result fe es m fe' d' es' m'" "fe_options fe = options" "take (unat (md_commit_index m)) es = acked @ rest"
  shows "history_ok options (acknowledged acked fe') (Some fe') d'"
proof (cases "fe_recovery_required fe'")
  case True
  obtain rest' where "take (unat (md_commit_index m')) es' = acked @ rest'"
    using grows_prefix assms(1,3) by (metis step_result_def)
  then show ?thesis
    using assms(1,2) True unfolding history_ok_def acknowledged_def step_result_def by auto
next
  case False
  then have "store_live fe' d' es' m'" using assms(1) by (simp add: step_result_def)
  then show ?thesis
    using assms(1,2) False live_committed unfolding history_ok_def acknowledged_def step_result_def by fastforce
qed

text \<open>One operation of a history: nothing happens to a store that refuses to write.\<close>

lemma history_step:
  assumes inv: "history_ok options acked (Some fe) d"
    and refuses: "fe_recovery_required fe \<Longrightarrow> fe' = fe \<and> d' = d"
    and works: "\<And>es m. \<lbrakk>fe_options fe = options; files_valid d es m; log_valid (fe_options fe) es m; store_live fe d es m\<rbrakk> \<Longrightarrow>
      \<exists>es' m'. step_result fe es m fe' d' es' m'"
  shows "history_ok options (acknowledged acked fe') (Some fe') d'"
proof (cases "fe_recovery_required fe")
  case True
  then show ?thesis using refuses inv by (simp add: acknowledged_def)
next
  case False
  then obtain es m rest where live: "files_valid d es m" "log_valid options es m" "store_live fe d es m"
    "take (unat (md_commit_index m)) es = acked @ rest" "fe_options fe = options"
    using inv by (auto simp: history_ok_def)
  then obtain es' m' where "step_result fe es m fe' d' es' m'" using works by metis
  then show ?thesis using step_result_history live(4,5) by blast
qed

lemma refused_writes:
  assumes "fe_recovery_required fe"
  shows "append_event io e fe d = (fe', d', r) \<Longrightarrow> fe' = fe \<and> d' = d"
    "truncate_after io i fe d = (fe', d', r) \<Longrightarrow> fe' = fe \<and> d' = d"
    "commit_through io i fe d = (fe', d', r) \<Longrightarrow> fe' = fe \<and> d' = d"
    "persist_consensus io t v fe d = (fe', d', r) \<Longrightarrow> fe' = fe \<and> d' = d"
    "fe_submit io c fe d = (fe', d', s) \<Longrightarrow> fe' = fe \<and> d' = d"
  using assms
  by (simp_all add: require_writable_def append_event_def truncate_after_def commit_through_def persist_consensus_def fe_submit_def)

lemma wal_bytes_Nil: "wal_bytes [] = wal_file_header"
  by (simp add: wal_bytes_def)

lemma new_header_ok:
  assumes "write_new_header fault parent = (bytes, Inr u)"
  shows "bytes = wal_file_header"
  using assms by (cases fault) (auto simp: write_new_header_def fwrite_def Let_def io_error_def split: if_splits)

lemma created_wal:
  assumes "open_wal io directory empty_directory = (d, Inr w)"
  shows "d = empty_directory\<lparr>dd_wal := Some (wal_bytes [])\<rparr>" "wal_ok w (wal_bytes [])" "wal_events w = []"
proof -
  let ?w = "new_wal (event_log_path directory) directory"
  obtain f where opened: "wal_open (Inr None) (io_header io) (io_reading io) (io_resized io) (event_log_path directory) directory = Inr (w, f)"
    and d: "d = empty_directory\<lparr>dd_wal := Some f\<rparr>"
    using assms by (cases "io_wal_stat io") (auto simp: open_wal_def empty_directory_def wal_open_def Let_def split: sum.splits)
  then obtain bytes where "write_new_header (io_header io) directory = (bytes, Inr ())"
    and load: "wal_load (io_reading io) (io_resized io) ?w bytes = (w, f, Inr ())"
    by (auto simp: wal_open_def Let_def bindE_Inr_iff split: prod.splits sum.splits)
  then have bytes: "bytes = wal_bytes []" using new_header_ok wal_bytes_Nil by metis
  have "wal_load (Inr ()) True ?w (wal_bytes []) = (loaded ?w [] 0, wal_bytes [], Inr ())" by (simp add: load_image)
  then have "w = loaded ?w [] 0" "f = wal_bytes []"
    using load unfolding bytes
    by (cases rule: wal_load_cases [where answer = "io_reading io" and resized = "io_resized io"]; simp)+
  then show "d = empty_directory\<lparr>dd_wal := Some (wal_bytes [])\<rparr>" "wal_ok w (wal_bytes [])" "wal_events w = []"
    using d wal_ok_loaded [of "[]" ?w 0] by simp_all
qed

lemma empty_runs: "runs [] empty_engine"
  by (simp add: runs_def empty_engine_def initial_state_def)

lemma empty_log_valid: "log_valid options [] initial_metadata"
  using empty_runs by (auto simp: log_valid_def log_from_one_def applied_count_def initial_metadata_def)

lemma created_live:
  assumes "\<not> compact_log options" "fe_open io directory options empty_directory = (d, Inr fe)"
  shows "\<exists>m. files_valid d [] m \<and> log_valid options [] m \<and> fe_options fe = options \<and> store_live fe d [] m"
proof -
  have "recover_snapshot_transaction (io_txn io) directory empty_directory =
      (empty_directory, snd (recover_snapshot_transaction (io_txn io) directory empty_directory))"
    by (cases "journal_exists (io_txn io) empty_directory") (simp_all add: recover_snapshot_transaction_def empty_directory_def)
  then obtain d1 w where wal: "open_wal io directory empty_directory = (d1, Inr w)"
    and store: "open_store io (new_store directory options w) d1 = (fe, d, Inr ())"
    using assms(2) by (auto simp: fe_open_def bindE_Inr_iff split: if_splits prod.splits sum.splits)
  note w = created_wal [OF wal]
  have "metadata_ok initial_metadata" by (simp add: metadata_ok_def initial_metadata_def)
  then have files: "files_valid d1 [] initial_metadata"
    using wal_holds_image [of "[]"] unfolding w(1) by (simp add: files_valid_def meta_holds_def empty_directory_def)
  have "wal_ok w (wal_bytes_of d1)" using w(1,2) by (simp add: wal_bytes_of_def)
  from open_store_outcome [OF files empty_log_valid assms(1) this w(3) store] show ?thesis by blast
qed

lemma created_ok:
  assumes "\<not> compact_log options" "fe_open io directory options empty_directory = (d, Inr fe)"
  shows "history_ok options [] (Some fe) d"
  using created_live [OF assms] by (auto simp: history_ok_def)

lemma reopened_ok:
  assumes inv: "history_ok options acked x d" "\<not> compact_log options" and run: "fe_open io directory options d = (d', r)"
  shows "case r of Inl _ \<Rightarrow> history_ok options acked None d'
    | Inr fe \<Rightarrow> history_ok options (committed_log fe) (Some fe) d' \<and> (\<exists>rest. committed_log fe = acked @ rest)
        \<and> replay (committed_log fe) None None = Inr (en_state (fe_engine fe)) \<and> en_events (fe_engine fe) = committed_log fe"
proof -
  obtain es m rest where valid: "files_valid d es m" "log_valid options es m" "take (unat (md_commit_index m)) es = acked @ rest"
    using inv(1) by (auto simp: history_ok_def)
  obtain m' where m': "files_valid d' es m'" "log_valid options es m'" "grows es m es m'"
    "\<And>fe. r = Inr fe \<Longrightarrow> fe_options fe = options \<and> store_live fe d' es m'"
    using open_outcome [OF valid(1,2) inv(2) run] by blast
  obtain rest' where rest': "take (unat (md_commit_index m')) es = acked @ rest'" using grows_prefix [OF m'(3) valid(3)] .
  show ?thesis
  proof (cases r)
    case (Inl e)
    then show ?thesis using m'(1,2) rest' by (auto simp: history_ok_def)
  next
    case (Inr fe)
    then have live: "fe_options fe = options" "store_live fe d' es m'" using m'(4) by simp_all
    have runs': "runs (committed_log fe) (fe_engine fe)" using live(2) unfolding live_committed [OF live(2)] by (simp add: store_live_def)
    have "history_ok options (committed_log fe) (Some fe) d'"
      unfolding history_ok_def
      by (intro exI [of _ es] exI [of _ m'] exI [of _ "[]"]) (use live live_committed [OF live(2)] m'(1,2) in simp)
    then show ?thesis using Inr live_committed [OF live(2)] rest' runs_replay [OF runs'] by simp
  qed
qed

lemma history_ok_fault: "history_ok options acked (Some (fe\<lparr>fe_fault := f\<rparr>)) d = history_ok options acked (Some fe) d"
  by (simp add: history_ok_def)

lemma history_invariant:
  assumes "store_history options directory acked x d" "\<not> compact_log options" "snapshot_every options = 0"
  shows "history_ok options acked x d"
  using assms(1)
proof (induction rule: store_history.induct)
  case (created io d fe)
  then show ?case using created_ok assms(2) by blast
next
  case (appended acked fe d e io fe' d' r)
  from appended.IH show ?case
  proof (rule history_step)
    show "fe_recovery_required fe \<Longrightarrow> fe' = fe \<and> d' = d" using refused_writes(1) appended.hyps(6) by blast
  qed (use appended.hyps append_event_step in metis)
next
  case (truncated acked fe d io i fe' d' r)
  from truncated.IH show ?case
  proof (rule history_step)
    show "fe_recovery_required fe \<Longrightarrow> fe' = fe \<and> d' = d" using refused_writes(2) truncated.hyps(3) by blast
  qed (use truncated.hyps truncate_after_step in metis)
next
  case (committed acked fe d io i fe' d' r)
  from committed.IH show ?case
  proof (rule history_step)
    show "fe_recovery_required fe \<Longrightarrow> fe' = fe \<and> d' = d" using refused_writes(3) committed.hyps(3) by blast
  qed (use committed.hyps commit_through_step assms(3) in metis)
next
  case (submitted acked fe d c io fe' d' s)
  from submitted.IH show ?case
  proof (rule history_step)
    assume "fe_recovery_required fe"
    then show "fe' = fe \<and> d' = d" using refused_writes(5) submitted.hyps(5) by blast
  next
    fix es m
    assume live: "fe_options fe = options" "files_valid d es m" "log_valid (fe_options fe) es m" "store_live fe d es m"
    then have "md_commit_index m \<noteq> max_u64" using submitted.hyps(4) by (simp add: store_live_def)
    then show "\<exists>es' m'. step_result fe es m fe' d' es' m'"
      using fe_submit_step [OF live(2-4), of c io fe' d' s] live(1) submitted.hyps assms(3) by blast
  qed
next
  case (voted acked fe d t v io fe' d' r)
  from voted.IH show ?case
  proof (rule history_step)
    show "fe_recovery_required fe \<Longrightarrow> fe' = fe \<and> d' = d" using refused_writes(4) voted.hyps(4) by blast
  qed (use voted.hyps persist_consensus_step in metis)
next
  case (armed acked fe d fault fe' r)
  then have "\<exists>x. fe' = fe\<lparr>fe_fault := x\<rparr>"
    by (auto simp: arm_storage_fault_def split: if_splits intro: exI [of _ "fe_fault fe"])
  then show ?case using armed.IH history_ok_fault by auto
next
  case (crashed acked x d)
  then show ?case by (auto simp: history_ok_def)
next
  case (reopened acked x d io d' fe)
  then show ?case using reopened_ok [OF reopened.IH assms(2)] by fastforce
next
  case (not_opened acked x d io d' e)
  then show ?case using reopened_ok [OF not_opened.IH assms(2)] by fastforce
qed

section \<open>What the store promises\<close>



section \<open>A sample history\<close>

definition sample_options :: StoreOptions where
  "sample_options = \<lparr>snapshot_every = 0, durability = Sync, commit_on_append = False, test_mode = True, compact_log = False\<rparr>"

lemma created_quiet:
  assumes "\<not> compact_log options"
  shows "\<exists>d fe. fe_open quiet directory options empty_directory = (d, Inr fe)"
proof (rule quiet_open)
  let ?w = "loaded (new_wal (event_log_path directory) directory) [] 0" and ?d = "empty_directory\<lparr>dd_wal := Some (wal_bytes [])\<rparr>"
  show "open_wal quiet directory empty_directory = (?d, Inr ?w)"
    using load_image [of "[]"] wal_bytes_Nil
    by (simp add: open_wal_def wal_open_def quiet_def Let_def empty_directory_def write_new_header_def fwrite_def sync_handle_def
        sync_directory_def)
  have "files_valid ?d [] initial_metadata"
    using wal_holds_image [of "[]"] by (simp add: files_valid_def meta_holds_def empty_directory_def metadata_ok_def initial_metadata_def)
  then show "\<exists>fe d'. open_store quiet (new_store directory options ?w) ?d = (fe, d', Inr ())"
    using open_store_quiet [OF _ empty_log_valid assms] by simp
qed (simp add: empty_directory_def)

abbreviation first_event :: Event where
  "first_event \<equiv> hd sample_log"

lemma first_event_storable: "storable first_event" "own_id first_event" "ev_index first_event = 1"
proof -
  have "length (canonical_event first_event) \<le> 200"
    by (simp add: canonical_event_def sample_log_def plain_event_def show_int_def show_u16_def show_u64_def show_nat.simps
        overlap_policy_name_def)
  moreover have "event_ok first_event" using sample_log_ok by (simp add: sample_log_def)
  ultimately show "storable first_event" by (simp add: storable_def kMaxPayloadBytes_def)
qed (simp_all add: sample_log_def plain_event_def own_id_def)

lemma first_event_commits:
  "\<exists>staged. prepare_committed empty_engine [first_event] = Inr staged \<and> st_last_applied (en_state staged) = 1"
  by (simp add: prepare_committed_def empty_engine_def sample_log_def plain_event_def eval_machine)

text \<open>Appending the first event and committing it, on a system on which no call fails.\<close>

lemma first_append:
  assumes live: "files_valid d [] m" "store_live fe d [] m" and m: "md_commit_index m = 0"
    and fe: "fe_fault fe = NoStorageFault" "\<not> commit_on_append (fe_options fe)"
  shows "\<exists>fe' d'. append_event quiet first_event fe d = (fe', d', Inr ()) \<and> fe_options fe' = fe_options fe \<and> fe_fault fe' = NoStorageFault
    \<and> files_valid d' [first_event] m \<and> store_live fe' d' [first_event] m"
proof -
  obtain f where f: "dd_wal d = Some f" "wal_ok (fe_wal fe) f" "wal_bytes_of d = f" using live_file [OF live] by blast
  have state: "\<not> fe_recovery_required fe" "wal_events (fe_wal fe) = []" "st_last_applied (en_state (fe_engine fe)) = 0"
    using live(2) by (auto simp: store_live_def runs_def)
  obtain w f' where append: "wal_append NoFault 0 first_event (durability (fe_options fe)) (fe_wal fe) f = (w, f', Inr ())"
    by (simp add: wal_append_cases [OF first_event_storable(1)] append_bytes_def fwrite_def sync_handle_def)
  note done' = wal_append_done [OF f(2) first_event_storable(1) append]
  have "\<not> kMaxPayloadBytes < length (canonical_event first_event)" using first_event_storable(1) by (simp add: storable_def)
  then have "append_event quiet first_event fe d = (fe\<lparr>fe_wal := w\<rparr>, d\<lparr>dd_wal := Some f'\<rparr>, Inr ())"
    using state append f(3) fe(1) first_event_storable(3)
    by (simp add: append_event_def require_writable_def write_event_def fail_before_flush_def fail_after_flush_def quiet_def Let_def)
  moreover have "files_valid (d\<lparr>dd_wal := Some f'\<rparr>) [first_event] m"
    using live(1) done' state(2) wal_holds_image by (auto simp: files_valid_def wal_ok_def)
  moreover have "store_live (fe\<lparr>fe_wal := w\<rparr>) (d\<lparr>dd_wal := Some f'\<rparr>) [first_event] m"
    using live(2) done' state(2) fe(2) m by (simp add: store_live_def wal_bytes_of_def)
  ultimately show ?thesis using fe(1) by auto
qed

lemma first_commit:
  assumes live: "files_valid d [first_event] m" "store_live fe d [first_event] m" and m: "md_commit_index m = 0"
    and fe: "\<not> commit_on_append (fe_options fe)" "snapshot_every (fe_options fe) = 0"
  shows "\<exists>fe' d'. commit_through quiet 1 fe d = (fe', d', Inr ()) \<and> \<not> fe_recovery_required fe' \<and> committed_log fe' = [first_event]
    \<and> fe_commit_index fe' = 1"
proof -
  have state: "\<not> fe_recovery_required fe" "wal_events (fe_wal fe) = [first_event]" "fe_engine fe = empty_engine" "fe_commit_index fe = 0"
    using live(2) m by (auto simp: store_live_def runs_def)
  have "commit_batch fe 1 (0 + 1) = [first_event]"
    using state(2) first_event_storable(3) by (simp add: log_entry_def Let_def)
  moreover obtain staged where "prepare_committed empty_engine [first_event] = Inr staged" "st_last_applied (en_state staged) = 1"
    using first_event_commits by blast
  moreover obtain fe1 d1 q where commit: "store_commit quiet 1 (st_term (en_state staged)) fe d = (fe1, d1, q)" by (metis prod_cases3)
  moreover have "fe1 = fe \<and> q = Inr ()"
  proof -
    have "metadata_ok m" "read_metadata quiet d = Inr m"
      using live(1) parse_metadata_bytes by (auto simp: files_valid_def meta_holds_def read_metadata_def load_metadata_def quiet_def)
    moreover from this obtain d2 where "put_metadata quiet (fe_directory fe) (fe_options fe) (advance_commit 1 (st_term (en_state staged)) m) d = (d2, Inr ())"
      using put_metadata_quiet advance_commit_fields(3) by blast
    ultimately show ?thesis using commit by (simp add: store_commit_def)
  qed
  ultimately show ?thesis
    using state fe(2) by (simp add: commit_through_def require_writable_def committed_log_def)
qed

lemma sample_run_committed:
  obtains fe1 d1 fe2 d2 where "store_history sample_options ''data'' (acknowledged [] fe1) (Some fe1) d1"
    "fe_commit_index fe1 = 0" "st_last_applied (en_state (fe_engine fe1)) = 0" "commit_through quiet 1 fe1 d1 = (fe2, d2, Inr ())"
    "\<not> fe_recovery_required fe2" "committed_log fe2 = [first_event]" "fe_commit_index fe2 = 1"
proof -
  have opts: "\<not> compact_log sample_options" "snapshot_every sample_options = 0" "\<not> commit_on_append sample_options"
    "test_mode sample_options" by (simp_all add: sample_options_def)
  obtain d fe where new: "fe_open quiet ''data'' sample_options empty_directory = (d, Inr fe)" using created_quiet opts(1) by blast
  let ?fe = "fe\<lparr>fe_fault := NoStorageFault\<rparr>"
  obtain m where m: "files_valid d [] m" "log_valid sample_options [] m" "fe_options fe = sample_options" "store_live fe d [] m"
    using created_live [OF opts(1) new] by blast
  have zero: "md_commit_index m = 0" using m(2) opts(3) by (simp add: log_valid_def applied_count_def unat_eq_0)
  have "arm_storage_fault NoStorageFault fe = (?fe, Inr ())" using m(3) opts(4) by (simp add: arm_storage_fault_def)
  with created [OF new] have armed': "store_history sample_options ''data'' [] (Some ?fe) d" by (rule armed)
  obtain fe1 d1 where first: "append_event quiet first_event ?fe d = (fe1, d1, Inr ())" "fe_options fe1 = sample_options"
    "files_valid d1 [first_event] m" "store_live fe1 d1 [first_event] m"
    using first_append [OF m(1), of ?fe] m(3,4) zero opts(3) by auto
  have "event_ok first_event" "own_id first_event" "ev_index first_event \<noteq> 0"
    using first_event_storable by (simp_all add: storable_def)
  from appended [OF armed' opts(3) this first(1)] have "store_history sample_options ''data'' (acknowledged [] fe1) (Some fe1) d1" .
  moreover obtain fe2 d2 where "commit_through quiet 1 fe1 d1 = (fe2, d2, Inr ())" "\<not> fe_recovery_required fe2"
    "committed_log fe2 = [first_event]" "fe_commit_index fe2 = 1"
    using first_commit [OF first(3,4) zero] first(2) opts by auto
  moreover have "fe_commit_index fe1 = 0" "st_last_applied (en_state (fe_engine fe1)) = 0"
    using first(4) zero by (auto simp: store_live_def runs_def)
  ultimately show thesis using that by blast
qed

lemma sample_commit:
  "\<exists>fe d fe' d'. commit_through quiet 1 fe d = (fe', d', Inr ()) \<and> fe_commit_index fe = 0 \<and> fe_commit_index fe' = 1
     \<and> st_last_applied (en_state (fe_engine fe)) = fe_commit_index fe"
proof -
  obtain fe d fe' d' where "store_history sample_options ''data'' (acknowledged [] fe) (Some fe) d"
    and run: "fe_commit_index fe = 0" "st_last_applied (en_state (fe_engine fe)) = 0" "commit_through quiet 1 fe d = (fe', d', Inr ())"
    "\<not> fe_recovery_required fe'" "committed_log fe' = [first_event]" "fe_commit_index fe' = 1"
    by (rule sample_run_committed)
  show ?thesis
    by (intro exI [of _ fe] exI [of _ d] exI [of _ fe'] exI [of _ d']) (use run in simp)
qed

lemma sample_history:
  "\<exists>fe d. store_history sample_options ''data'' [first_event] (Some fe) d \<and> \<not> fe_recovery_required fe"
proof -
  obtain fe1 d1 fe2 d2 where run: "store_history sample_options ''data'' (acknowledged [] fe1) (Some fe1) d1"
    "fe_commit_index fe1 = 0" "st_last_applied (en_state (fe_engine fe1)) = 0" "commit_through quiet 1 fe1 d1 = (fe2, d2, Inr ())"
    "\<not> fe_recovery_required fe2" "committed_log fe2 = [first_event]" "fe_commit_index fe2 = 1"
    by (rule sample_run_committed)
  have "\<not> commit_on_append sample_options" by (simp add: sample_options_def)
  from committed [OF run(1) this run(4)] show ?thesis using run(5,6) by (auto simp: acknowledged_def)
qed



end
