(* ===== verification/File_Engine_Guards.thy ===== *)
theory File_Engine_Guards
  imports File_Engine_Recovery
begin

text \<open>
  What holds of the durable store in every configuration, with snapshots and compaction: a failure that
  may have touched the directory closes the store for writes, a commit index is published only when it is
  durable, and the constant-time lookup finds exactly what a search of the log finds.
\<close>

section \<open>The operations of a store\<close>

datatype store_op =
    Append Event
  | Truncate u64
  | Commit_Through u64
  | Submit Command
  | Persist u64 "string option"
  | Install Snapshot
  | Discard
  | Take_Checkpoint

fun run_op :: "StoreCalls \<Rightarrow> store_op \<Rightarrow> FileEngine \<Rightarrow> DataDir \<Rightarrow> unit store_result" where
  "run_op io (Append event) fe d = append_event io event fe d"
| "run_op io (Truncate index) fe d = truncate_after io index fe d"
| "run_op io (Commit_Through index) fe d = commit_through io index fe d"
| "run_op io (Submit command) fe d = and_then (fe_submit io command fe d) (\<lambda>fe d _. (fe, d, Inr ()))"
| "run_op io (Persist term' voted_for) fe d = persist_consensus io term' voted_for fe d"
| "run_op io (Install snapshot) fe d = fe_install_snapshot io snapshot fe d"
| "run_op io Discard fe d = discard_compacted_prefix io fe d"
| "run_op io Take_Checkpoint fe d = checkpoint io fe d"

lemma closed_store_refuses: "fe_recovery_required fe \<Longrightarrow> \<exists>e. run_op io op fe d = (fe, d, Inl e)"
  by (cases op)
    (simp_all add: require_writable_def append_event_def truncate_after_def commit_through_def persist_consensus_def
      fe_submit_def fe_install_snapshot_def discard_compacted_prefix_def checkpoint_def)

section \<open>Failing and stopping\<close>

text \<open>Every failure of a closed outcome closes the store; a safe one may also leave the directory as it was.\<close>

definition closing :: "'a store_result \<Rightarrow> bool" where
  "closing outcome \<longleftrightarrow> (\<forall>fe d e. outcome = (fe, d, Inl e) \<longrightarrow> fe_recovery_required fe)"

definition safe :: "DataDir \<Rightarrow> 'a store_result \<Rightarrow> bool" where
  "safe d0 outcome \<longleftrightarrow> (\<forall>fe d e. outcome = (fe, d, Inl e) \<longrightarrow> d = d0 \<or> fe_recovery_required fe)"

named_theorems stopping

lemma closing_checked [stopping]: "closing (checked_mutation outcome)"
  by (cases outcome; cases "snd (snd outcome)") (auto simp: closing_def)

lemma closing_done [stopping]: "closing (fe, d, Inr x)"
  by (simp add: closing_def)

lemma closing_then [stopping]:
  assumes "closing outcome" "\<And>fe d x. closing (continue fe d x)"
  shows "closing (and_then outcome continue)"
proof -
  obtain fe d r where outcome: "outcome = (fe, d, r)" by (metis prod_cases3)
  then show ?thesis using assms by (cases r) (simp_all add: closing_def)
qed

lemma safe_closing: "closing outcome \<Longrightarrow> safe d outcome"
  by (auto simp: safe_def closing_def)

lemma safe_same: "safe d (fe, d, r)"
  by (simp add: safe_def)

lemma safe_then_same:
  assumes "\<And>fe x. safe d (continue fe d x)"
  shows "safe d (and_then (fe, d, r) continue)"
  using assms by (cases r) (auto simp: safe_def)

lemma safe_then:
  assumes "safe d outcome" "\<And>fe d x. closing (continue fe d x)"
  shows "safe d (and_then outcome continue)"
proof -
  obtain fe d1 r where outcome: "outcome = (fe, d1, r)" by (metis prod_cases3)
  show ?thesis
  proof (cases r)
    case (Inl e)
    then show ?thesis using assms(1) outcome by (simp add: safe_def)
  next
    case (Inr x)
    then show ?thesis using safe_closing [OF assms(2)] outcome by simp
  qed
qed

lemma compact_closing [stopping]: "closing (compact io anchor fe d)"
  unfolding compact_def Let_def by (auto intro!: stopping)

lemma maybe_snapshot_closing [stopping]: "closing (maybe_snapshot io fe d)"
  unfolding maybe_snapshot_def Let_def by (auto intro!: stopping)

lemma store_commit_closing [stopping]: "closing (store_commit io i t fe d)"
  unfolding store_commit_def by (rule stopping)

lemma finish_install_closing [stopping]: "closing (finish_install io snapshot en fe d)"
  unfolding finish_install_def Let_def by (auto intro!: stopping)

lemma safe_metadata:
  fixes r :: "NodeMetadata Result"
  assumes "\<And>fe x. safe d (continue fe d x)"
  shows "safe d (and_then (checked_mutation (fe, d, r)) continue)"
  using assms by (cases r) (auto simp: safe_def)

lemma safe_checked_then:
  fixes outcome :: "unit store_result"
  assumes "\<And>fe d x. closing (continue fe d x)"
  shows "safe d (and_then (checked_mutation outcome) continue)"
  using assms by (intro safe_closing stopping)

lemma write_event_safe: "safe d (write_event io e fe d)"
proof -
  have first: "safe d (and_then (case fail_before_flush fe of (fe, r) \<Rightarrow> (fe, d, r)) continue)"
    if "\<And>fe x. closing (continue fe d x)" for continue :: "FileEngine \<Rightarrow> DataDir \<Rightarrow> unit \<Rightarrow> unit store_result"
    using that by (auto simp: fail_before_flush_def intro: safe_closing safe_same)
  show ?thesis unfolding write_event_def by (auto intro!: first safe_same closing_then closing_checked)
qed

lemmas safety = safe_same safe_then_same safe_metadata safe_then [OF write_event_safe] write_event_safe
  safe_closing [OF closing_checked] safe_closing [OF compact_closing]
  safe_checked_then safe_closing [OF closing_then [OF store_commit_closing]] stopping

lemma op_safe: "safe d (run_op io op fe d)"
proof (cases op)
  case (Submit command)
  have "safe d (fe_submit io command fe d)" unfolding fe_submit_def Let_def by (auto intro!: safety)
  then show ?thesis using Submit safe_then [OF _ closing_done] by simp
next
  case (Persist t v)
  then show ?thesis by (auto intro!: safety simp: persist_consensus_def)
next
  case (Install snapshot)
  then show ?thesis by (auto intro!: safety simp: fe_install_snapshot_def)
qed (auto intro!: safety simp: append_event_def truncate_after_def commit_through_def discard_compacted_prefix_def checkpoint_def
    Let_def split: option.split)

text \<open>
  (C10) The store is fail-stop: when an operation reports an error, either the directory is exactly as it
  was before, or the store refuses every further operation that writes, leaving itself and the
  directory unchanged, until the directory is opened again. This covers appends, truncations,
  commits, submissions, votes, snapshot installs, checkpoints and compaction, with any system faults.
\<close>

theorem store_fail_stop:
  assumes "run_op io op fe d = (fe', d', Inl e)"
  shows "d' = d \<or> (\<forall>io' op' d''. \<exists>e'. run_op io' op' fe' d'' = (fe', d'', Inl e'))"
  using op_safe [of d io op fe] closed_store_refuses assms by (auto simp: safe_def)

definition sample_store :: FileEngine where
  "sample_store = new_store ''data'' sample_options (new_wal ''data/wal.bin'' ''data'')"

definition sample_files :: DataDir where
  "sample_files = empty_directory\<lparr>dd_wal := Some (wal_bytes [])\<rparr>"

theorem store_fail_stop_witness:
  "\<exists>fe' d' e. run_op (quiet\<lparr>io_append := ShortWrite 3\<rparr>) (Append first_event) sample_store sample_files = (fe', d', Inl e)
     \<and> d' \<noteq> sample_files \<and> (\<exists>e'. run_op quiet Take_Checkpoint fe' d' = (fe', d', Inl e'))"
proof -
  let ?io = "quiet\<lparr>io_append := ShortWrite 3\<rparr>" and ?w = "new_wal ''data/wal.bin'' ''data''"
  have size: "length (record_bytes first_event) = 32 + length (canonical_event first_event)"
    by (simp add: record_bytes_def record_body_def)
  then have "wal_append (ShortWrite 3) 0 first_event Sync ?w (wal_bytes []) =
      (?w, wal_bytes [] @ take 3 (record_bytes first_event), io_error (''short write to '' @ ''data/wal.bin''))"
    by (simp add: wal_append_cases [OF first_event_storable(1)] append_bytes_def fwrite_def io_error_def new_wal_def)
  moreover have "\<not> kMaxPayloadBytes < length (canonical_event first_event)" using first_event_storable(1) by (simp add: storable_def)
  ultimately have run: "\<exists>fe' e. run_op ?io (Append first_event) sample_store sample_files =
      (fe', sample_files\<lparr>dd_wal := Some (wal_bytes [] @ take 3 (record_bytes first_event))\<rparr>, Inl e)"
    using first_event_storable(3)
    by (simp add: append_event_def require_writable_def write_event_def fail_before_flush_def sample_store_def new_store_def Let_def
        sample_files_def wal_bytes_of_def quiet_def sample_options_def io_error_def empty_engine_def initial_state_def new_wal_def)
  have "record_bytes first_event \<noteq> []" using size by force
  then have changed: "sample_files\<lparr>dd_wal := Some (wal_bytes [] @ take 3 (record_bytes first_event))\<rparr> \<noteq> sample_files"
    by (auto simp: sample_files_def dest!: arg_cong [where f = dd_wal])
  then show ?thesis using run store_fail_stop [of ?io "Append first_event" sample_store sample_files] by blast
qed

section \<open>Commits are durable before they are visible\<close>

text \<open>What the directory records as committed, read without faults.\<close>

definition records_commit :: "DataDir \<Rightarrow> u64 \<Rightarrow> bool" where
  "records_commit d i \<longleftrightarrow> (\<exists>m. consensus_metadata quiet d = Inr m \<and> md_commit_index m = i)"

lemma records_commit_meta: "dd_meta d' = dd_meta d \<Longrightarrow> records_commit d' i = records_commit d i"
  unfolding records_commit_def consensus_metadata_def read_metadata_def by (simp only:)

lemma parsed_metadata_ok: "parse_metadata bytes = Inr m \<Longrightarrow> metadata_ok m"
  by (auto simp: parse_metadata_def Let_def parse_term_def parse_id_Inr_iff metadata_ok_def bindE_Inr_iff
      split: if_splits sum.splits)

lemma read_metadata_ok: "read_metadata io d = Inr m \<Longrightarrow> metadata_ok m"
  by (auto simp: read_metadata_def load_metadata_def bindE_Inr_iff initial_metadata_def metadata_ok_def
      dest!: parsed_metadata_ok split: option.splits sum.splits)

lemma meta_holds_recorded: "meta_holds d m \<Longrightarrow> records_commit d (md_commit_index m)"
  using parse_metadata_bytes [of m]
  by (auto simp: meta_holds_def records_commit_def consensus_metadata_def read_metadata_def load_metadata_def quiet_def)

lemma stored_commit_recorded:
  assumes "store_commit io i t fe d = (fe', d', Inr ())"
  shows "records_commit d' i" "fe' = fe"
proof -
  obtain m where m: "read_metadata io d = Inr m" using assms by (cases "read_metadata io d") (auto simp: store_commit_def)
  let ?m = "advance_commit i t m"
  note ok = advance_commit_fields(3) [OF read_metadata_ok [OF m], of i t]
  obtain d1 q where put: "put_metadata io (fe_directory fe) (fe_options fe) ?m d = (d1, q)" by fastforce
  then have result: "fe' = fe" "d' = d1" "q = Inr ()"
    using assms m by (cases q; auto simp: store_commit_def)+
  show "fe' = fe" by (rule result(1))
  have "meta_holds d' ?m" using put_metadata_holds(2) [OF ok put] result by simp
  from meta_holds_recorded [OF this] show "records_commit d' i" by simp
qed

text \<open>Snapshots and compaction leave the metadata and the commit index alone.\<close>

definition same_commit :: "FileEngine \<Rightarrow> DataDir \<Rightarrow> 'a store_result \<Rightarrow> bool" where
  "same_commit fe d outcome \<longleftrightarrow> (case outcome of (fe', d', _) \<Rightarrow> fe_commit_index fe' = fe_commit_index fe \<and> dd_meta d' = dd_meta d)"

named_theorems commit_kept

lemma storage_failure_index [simp]: "fe_commit_index (storage_failure fe) = fe_commit_index fe"
  by (simp add: storage_failure_def)

lemma same_commit_done [simp]:
  "same_commit fe0 d0 (fe, p) \<longleftrightarrow> fe_commit_index fe = fe_commit_index fe0 \<and> dd_meta (fst p) = dd_meta d0"
  by (cases p) (simp add: same_commit_def)

lemma same_commit_checked [commit_kept]: "same_commit fe d outcome \<Longrightarrow> same_commit fe d (checked_mutation outcome)"
  by (cases outcome; cases "snd (snd outcome)") (auto simp: same_commit_def storage_failure_def)

lemma same_commit_then [commit_kept]:
  assumes "same_commit fe d outcome" "\<And>fe1 d1 x. fe_commit_index fe1 = fe_commit_index fe \<Longrightarrow> dd_meta d1 = dd_meta d \<Longrightarrow>
    same_commit fe d (continue fe1 d1 x)"
  shows "same_commit fe d (and_then outcome continue)"
proof -
  obtain fe1 d1 r where "outcome = (fe1, d1, r)" by (metis prod_cases3)
  then show ?thesis using assms by (cases r) (auto simp: same_commit_def)
qed

lemma compact_commit [commit_kept]:
  assumes "fe_commit_index fe = fe_commit_index fe0" "dd_meta d = dd_meta d0"
  shows "same_commit fe0 d0 (compact io anchor fe d)"
  unfolding compact_def Let_def using assms
  by (auto intro!: commit_kept simp: retain_from_def split: prod.split sum.split)

lemma put_state_snapshot_meta [simp]: "dd_meta (fst (put_state_snapshot io directory options state d)) = dd_meta d"
  by (auto simp: put_state_snapshot_def put_snapshot_def Let_def split: prod.split)

lemma prune_folder_meta [simp]: "dd_meta (fst (prune_folder io n d)) = dd_meta d"
  by (auto simp: prune_folder_def split: prod.split option.split)

lemma take_snapshot_commit [commit_kept]:
  assumes "fe_commit_index fe = fe_commit_index fe0" "dd_meta d = dd_meta d0"
  shows "same_commit fe0 d0 (take_snapshot io fe d)"
  using assms unfolding take_snapshot_def Let_def by (auto intro!: commit_kept)

lemma maybe_snapshot_commit [commit_kept]:
  assumes "fe_commit_index fe = fe_commit_index fe0" "dd_meta d = dd_meta d0"
  shows "same_commit fe0 d0 (maybe_snapshot io fe d)"
  using assms unfolding maybe_snapshot_def Let_def by (auto intro!: commit_kept)

lemma write_event_commit [commit_kept]:
  assumes "fe_commit_index fe = fe_commit_index fe0" "dd_meta d = dd_meta d0"
  shows "same_commit fe0 d0 (write_event io e fe d)"
  using assms unfolding write_event_def
  by (auto intro!: commit_kept simp: fail_before_flush_def fail_after_flush_def split: prod.split)

text \<open>The operations that never move the commit index.\<close>

lemma index_kept:
  assumes "op \<in> {Discard, Take_Checkpoint} \<or> (\<exists>e. op = Append e) \<or> (\<exists>i. op = Truncate i)"
  shows "same_commit fe d (run_op io op fe d)"
  using assms
  by (auto intro!: commit_kept simp: append_event_def truncate_after_def discard_compacted_prefix_def checkpoint_def Let_def
      split: prod.split option.split)

lemma persist_index:
  assumes "persist_consensus io t v fe d = (fe', d', r)"
  shows "fe_commit_index fe' = fe_commit_index fe"
  using assms unfolding persist_consensus_def
  by (cases "require_writable fe"; cases "read_metadata io d") (auto simp: checked_mutation_def split: if_splits prod.splits sum.splits)

text \<open>An operation that moved the index passed each of its steps.\<close>

lemma and_then_moved:
  assumes "and_then outcome continue = (fe', d', r)" "same_commit fe d outcome" "fe_commit_index fe' \<noteq> fe_commit_index fe"
  obtains fe1 d1 x where "outcome = (fe1, d1, Inr x)" "continue fe1 d1 x = (fe', d', r)" "fe_commit_index fe1 = fe_commit_index fe"
proof -
  obtain fe1 d1 q where outcome: "outcome = (fe1, d1, q)" by (metis prod_cases3)
  then show thesis using assms that by (cases q) auto
qed

lemma commit_then_recorded:
  assumes "and_then (store_commit io i t fe d) continue = (fe', d', r)" "fe_commit_index fe' \<noteq> fe_commit_index fe"
    and "\<And>d1. continue fe d1 () = (fe', d', r) \<Longrightarrow>
      (fe_commit_index fe' = i \<or> fe_commit_index fe' = fe_commit_index fe) \<and> dd_meta d' = dd_meta d1"
  shows "records_commit d' (fe_commit_index fe')"
proof -
  obtain fe1 d1 q where commit: "store_commit io i t fe d = (fe1, d1, q)" by (metis prod_cases3)
  show ?thesis
  proof (cases q)
    case (Inl e)
    then have "fe1 = storage_failure fe"
      using commit by (auto simp: store_commit_def checked_mutation_def and_then_def split: sum.splits prod.splits)
    then show ?thesis using assms(1,2) commit Inl by auto
  next
    case (Inr u)
    then have stored: "records_commit d1 i" "fe1 = fe" using stored_commit_recorded commit by auto
    then have "continue fe d1 () = (fe', d', r)" using assms(1) commit Inr by simp
    then have "fe_commit_index fe' = i" "dd_meta d' = dd_meta d1" using assms(2,3) by blast+
    then show ?thesis using stored(1) records_commit_meta by metis
  qed
qed

lemma commit_through_recorded:
  assumes run: "commit_through io i fe d = (fe', d', r)" and moved: "fe_commit_index fe' \<noteq> fe_commit_index fe"
  shows "records_commit d' (fe_commit_index fe')"
proof -
  let ?batch = "commit_batch fe (unat (i - fe_commit_index fe)) (fe_commit_index fe + 1)"
  let ?finish = "\<lambda>staged fe d. checked_mutation (maybe_snapshot io
      (note_commit (fe\<lparr>fe_engine := publish_committed (fe_engine fe) staged, fe_commit_index := i\<rparr>)) d)"
  have "\<exists>staged. and_then (store_commit io i (st_term (en_state staged)) fe d) (\<lambda>fe d _. ?finish staged fe d) = (fe', d', r)"
    using run moved unfolding commit_through_def Let_def
    by (cases "require_writable fe"; cases "prepare_committed (fe_engine fe) ?batch") (auto split: if_splits)
  then obtain staged where
    "and_then (store_commit io i (st_term (en_state staged)) fe d) (\<lambda>fe d _. ?finish staged fe d) = (fe', d', r)" by blast
  then show ?thesis
  proof (rule commit_then_recorded [OF _ moved])
    fix d1
    assume final: "?finish staged fe d1 = (fe', d', r)"
    have "same_commit (fe\<lparr>fe_commit_index := i\<rparr>) d1 (?finish staged fe d1)" by (auto intro!: commit_kept)
    then show "(fe_commit_index fe' = i \<or> fe_commit_index fe' = fe_commit_index fe) \<and> dd_meta d' = dd_meta d1"
      unfolding final by simp
  qed
qed

lemma write_event_engine: "write_event io e fe d = (fe', d', Inr x) \<Longrightarrow> fe_engine fe' = fe_engine fe"
  by (auto simp: write_event_def fail_before_flush_def fail_after_flush_def and_then_def checked_mutation_def
      split: if_splits prod.splits sum.splits)

lemma submit_recorded:
  assumes run: "fe_submit io c fe d = (fe', d', r)" and moved: "fe_commit_index fe' \<noteq> fe_commit_index fe"
    and applied: "st_last_applied (en_state (fe_engine fe)) = fe_commit_index fe"
  shows "records_commit d' (fe_commit_index fe')"
proof -
  let ?last = "\<lambda>e fe d. and_then (checked_mutation (publish_submitted e fe d)) (\<lambda>fe d _.
      and_then (checked_mutation (maybe_snapshot io fe d)) (\<lambda>fe d _. (fe, d, Inr \<lparr>sr_event = e, sr_duplicate = False\<rparr>)))"
  obtain e where "and_then (write_event io e fe d) (\<lambda>fe d _.
      and_then (store_commit io (ev_index e) (ev_term e) fe d) (\<lambda>fe d _. ?last e fe d)) = (fe', d', r)"
    using run moved unfolding fe_submit_def Let_def
    by (cases "require_writable fe"; cases "propose (en_state (fe_engine fe)) c") (auto split: if_splits)
  then obtain fe1 d1 x where wrote: "write_event io e fe d = (fe1, d1, Inr x)"
    and commit: "and_then (store_commit io (ev_index e) (ev_term e) fe1 d1) (\<lambda>fe d _. ?last e fe d) = (fe', d', r)"
    and index: "fe_commit_index fe1 = fe_commit_index fe"
    by (rule and_then_moved [OF _ write_event_commit [OF refl refl] moved])
  have engine: "fe_engine fe1 = fe_engine fe" by (rule write_event_engine [OF wrote])
  from commit show ?thesis
  proof (rule commit_then_recorded)
    show "fe_commit_index fe' \<noteq> fe_commit_index fe1" using moved index by simp
    fix d2
    assume last': "?last e fe1 d2 = (fe', d', r)"
    show "(fe_commit_index fe' = ev_index e \<or> fe_commit_index fe' = fe_commit_index fe1) \<and> dd_meta d' = dd_meta d2"
    proof (cases "apply_committed (fe_engine fe) e")
      case (Inl err)
      then show ?thesis using last' engine by (auto simp: publish_submitted_def)
    next
      case (Inr en)
      let ?fe = "note_commit (fe1\<lparr>fe_engine := en, fe_commit_index := st_last_applied (en_state en)\<rparr>)"
      have "same_commit ?fe d2 (?last e fe1 d2)"
        using Inr engine by (auto intro!: commit_kept simp: publish_submitted_def)
      moreover have "st_last_applied (en_state en) \<in> {ev_index e, fe_commit_index fe}"
        using Inr applied by (auto simp: apply_committed_def bindE_Inr_iff apply_state_Inr)
      ultimately show ?thesis unfolding last' using index by auto
    qed
  qed
qed

lemma install_images_metadata:
  assumes "install_images snapshot replacement m fe = Inr v" "metadata_ok m"
  shows "tx_metadata v = metadata_bytes (advance_commit (ss_index snapshot) (st_term (en_state replacement)) m)"
  using assms(1) encode_metadata_layout [OF voted_short [OF advance_commit_fields(3) [OF assms(2)]]]
  by (auto simp: install_images_def Let_def bindE_Inr_iff)

lemma committed_transaction_metadata:
  assumes "commit_snapshot_transaction sc directory v fault d = (d', Inr u)"
  shows "dd_meta d' = Some (tx_metadata v)"
proof -
  have "dd_journal d = None"
  proof (rule ccontr)
    assume "dd_journal d \<noteq> None"
    then show False
      using assms by (cases "sc_stat sc") (auto simp: commit_snapshot_transaction_def journal_exists_def)
  qed
  from commit_outcome [OF this assms] show ?thesis by (simp add: is_ok_def installed_def)
qed

lemma open_wal_meta [simp]: "dd_meta (fst (open_wal io directory d)) = dd_meta d"
  by (auto simp: open_wal_def split: sum.split prod.split)

lemma finish_install_commit:
  "same_commit (fe\<lparr>fe_commit_index := ss_index snapshot\<rparr>) d (finish_install io snapshot replacement fe d)"
  unfolding finish_install_def Let_def by (auto intro!: commit_kept simp: retain_from_def split: sum.split)

lemma install_recorded:
  assumes run: "fe_install_snapshot io snapshot fe d = (fe', d', r)" and moved: "fe_commit_index fe' \<noteq> fe_commit_index fe"
  shows "records_commit d' (fe_commit_index fe')"
proof -
  let ?commit = "\<lambda>v. commit_snapshot_transaction (io_txn io) (fe_directory fe) v (fe_install_fault fe) d"
  let ?fe = "fe\<lparr>fe_install_fault := NoInstallFault\<rparr>"
  let ?open = "\<lambda>replacement fe d. and_then (checked_mutation (case open_wal io (fe_directory fe) d of (d, r) \<Rightarrow> (fe, d, r)))
      (\<lambda>fe d w. finish_install io snapshot replacement (fe\<lparr>fe_wal := w\<rparr>) d)"
  obtain replacement m v where steps: "read_metadata io d = Inr m" "install_images snapshot replacement m fe = Inr v"
    "and_then (checked_mutation (case ?commit v of (d, r) \<Rightarrow> (?fe, d, r))) (\<lambda>fe d _. ?open replacement fe d) = (fe', d', r)"
  proof (cases "require_writable fe"; cases "ss_index snapshot \<le> fe_commit_index fe"; cases "install_engine snapshot"; cases "read_metadata io d")
    fix u replacement m
    assume run': "require_writable fe = Inr u" "\<not> ss_index snapshot \<le> fe_commit_index fe" "install_engine snapshot = Inr replacement"
      "read_metadata io d = Inr m"
    show thesis
    proof (cases "install_images snapshot replacement m fe")
      case (Inl e)
      then show thesis using run moved run' by (simp add: fe_install_snapshot_def)
    next
      case (Inr v)
      then show thesis using run run' that [of m replacement v] by (simp add: fe_install_snapshot_def)
    qed
  qed (use run moved in \<open>auto simp: fe_install_snapshot_def\<close>)
  obtain d1 q where commit: "?commit v = (d1, q)" by fastforce
  then obtain u where q: "q = Inr u" using steps(3) moved by (cases q) auto
  let ?m = "advance_commit (ss_index snapshot) (st_term (en_state replacement)) m"
  have "dd_meta d1 = Some (metadata_bytes ?m)"
    using committed_transaction_metadata commit q install_images_metadata [OF steps(2) read_metadata_ok [OF steps(1)]] by simp
  then have "meta_holds d1 ?m" using read_metadata_ok [OF steps(1)] by (simp add: meta_holds_def)
  from meta_holds_recorded [OF this] have recorded: "records_commit d1 (ss_index snapshot)" by simp
  obtain d2 q2 where opened: "open_wal io (fe_directory fe) d1 = (d2, q2)" by fastforce
  then have meta: "dd_meta d2 = dd_meta d1" using open_wal_meta [of io "fe_directory fe" d1] by simp
  have rest: "?open replacement ?fe d1 = (fe', d', r)" using steps(3) commit q by simp
  then obtain w where "q2 = Inr w" using moved opened by (cases q2) auto
  then have "finish_install io snapshot replacement (?fe\<lparr>fe_wal := w\<rparr>) d2 = (fe', d', r)" using rest opened by simp
  with finish_install_commit [of snapshot "?fe\<lparr>fe_wal := w\<rparr>" d2 io replacement]
  have "fe_commit_index fe' = ss_index snapshot" "dd_meta d' = dd_meta d1" using meta by simp_all
  then show ?thesis using recorded records_commit_meta by metis
qed



section \<open>Looking up the log\<close>

lemma contiguous_index:
  assumes "retained_contiguous p xs" "k < length xs"
  shows "unat (ev_index (xs ! k)) = unat (ev_index (hd xs)) + k"
  using assms
proof (induction xs arbitrary: p k)
  case (Cons x xs)
  show ?case
  proof (cases k)
    case (Suc j)
    then obtain y ys where xs: "xs = y # ys" using Cons.prems(2) by (cases xs) auto
    have "ev_index x \<noteq> max_u64" "ev_index y = ev_index x + 1" using Cons.prems(1) xs by auto
    then have "unat (ev_index y) = Suc (unat (ev_index x))" by (simp add: unat_Suc_exact)
    moreover have "unat (ev_index (xs ! j)) = unat (ev_index (hd xs)) + j"
      using Cons.IH [of "ev_index x" j] Cons.prems Suc by simp
    ultimately show ?thesis using Suc xs by simp
  qed simp
qed simp

lemma contiguous_last:
  assumes "retained_contiguous p xs" "xs \<noteq> []"
  shows "unat (ev_index (last xs)) = unat (ev_index (hd xs)) + (length xs - 1)"
proof -
  have "length xs - 1 < length xs" using assms(2) by simp
  from contiguous_index [OF assms(1) this] show ?thesis unfolding last_conv_nth [OF assms(2)] .
qed

text \<open>
  (C40) The constant-time lookup of the log is exact: on the contiguous logs an opening admits, also
  compacted ones that do not start at index 1, \<open>log_entry\<close> returns for every index what searching the
  whole log for an event with that index returns.
\<close>

theorem log_lookup_exact:
  assumes "retained_contiguous 0 (wal_events (fe_wal fe))"
  shows "log_entry fe i = find (\<lambda>e. ev_index e = i) (wal_events (fe_wal fe))"
proof (cases "log_entry fe i")
  let ?es = "wal_events (fe_wal fe)"
  note index = contiguous_index [OF assms]
  case None
  have "ev_index e \<noteq> i" if e: "e \<in> set ?es" for e
  proof
    assume i: "ev_index e = i"
    obtain k where k: "k < length ?es" "?es ! k = e" using e by (auto simp: in_set_conv_nth)
    have "?es \<noteq> []" using e by auto
    from contiguous_last [OF assms this] this show False
      using None k i index [OF k(1)] by (auto simp: log_entry_def Let_def word_less_nat_alt split: if_splits)
  qed
  then show ?thesis using None by (simp add: find_None_iff [THEN iffD2])
next
  let ?es = "wal_events (fe_wal fe)"
  note index = contiguous_index [OF assms]
  case (Some e)
  let ?k = "unat i - unat (ev_index (hd ?es))"
  have bounds: "?es \<noteq> []" "unat (ev_index (hd ?es)) \<le> unat i" "unat i \<le> unat (ev_index (last ?es))"
    and e: "e = ?es ! unat (i - ev_index (hd ?es))"
    using Some by (auto simp: log_entry_def Let_def word_less_nat_alt not_less split: if_splits)
  then have k: "?k < length ?es" using contiguous_last [OF assms bounds(1)] by (cases ?es) auto
  have "e = ?es ! ?k" using e bounds(2) by (simp add: unat_sub_exact word_le_nat_alt)
  moreover have "ev_index (?es ! ?k) = i" using index [OF k] bounds(2) by (simp add: word_unat_eq_iff)
  moreover have "\<forall>j < ?k. ev_index (?es ! j) \<noteq> i"
    using index k bounds(2) by (auto simp: word_unat_eq_iff)
  ultimately show ?thesis using Some k by (auto simp: find_Some_iff intro!: sym [OF find_Some_iff [THEN iffD2]])
qed

theorem log_lookup_exact_witness:
  "log_entry (sample_store\<lparr>fe_wal := (fe_wal sample_store)\<lparr>wal_events := drop 2 sample_log\<rparr>\<rparr>) 4 = Some (sample_log ! 3)"
proof -
  let ?fe = "sample_store\<lparr>fe_wal := (fe_wal sample_store)\<lparr>wal_events := drop 2 sample_log\<rparr>\<rparr>"
  have "retained_contiguous 0 (wal_events (fe_wal ?fe))" by (simp add: sample_log_def plain_event_def)
  from log_lookup_exact [OF this, of 4] show ?thesis by (simp add: sample_log_def plain_event_def)
qed

section \<open>A torn file header\<close>

text \<open>
  A first opening that is interrupted while it writes the header of the log leaves a file that no later
  opening accepts, although nothing was ever stored in it: the file exists, so that the header is not
  written again, and it is too short to be read.
\<close>

lemma torn_header_is_final:
  assumes "n < 16" and "fe_open (quiet\<lparr>io_header := ShortWrite n\<rparr>) directory options empty_directory = (d, r)"
  shows "\<not> is_ok r" "\<not> is_ok (snd (fe_open io directory options d))"
proof -
  let ?io = "quiet\<lparr>io_header := ShortWrite n\<rparr>"
  have size: "length wal_file_header = 16" by simp
  have header: "write_new_header (ShortWrite n) directory = (take n wal_file_header, io_error ''unable to write log header'')"
    using assms(1) size by (simp add: write_new_header_def fwrite_def Let_def io_error_def)
  have "open_wal ?io directory empty_directory =
      (empty_directory\<lparr>dd_wal := Some (take n wal_file_header)\<rparr>, io_error ''unable to write log header'')"
    by (simp add: open_wal_def wal_open_def Let_def header empty_directory_def quiet_def io_error_def)
  then have run: "d = empty_directory\<lparr>dd_wal := Some (take n wal_file_header)\<rparr>" "r = io_error ''unable to write log header''"
    using assms(2) quiet_journal [of empty_directory directory]
    by (simp_all add: fe_open_def empty_directory_def quiet_def io_error_def)
  show "\<not> is_ok r" using run(2) by (simp add: is_ok_def io_error_def)
  have load: "\<exists>e. wal_load answer resized w (take n wal_file_header) = (w, take n wal_file_header, Inl e)" for answer resized w
    using assms(1) size by (cases answer) (simp_all add: wal_load_def kFileHeaderBytes_def)
  have "\<exists>e. open_wal io directory d = (d, Inl e)"
    using load [of "io_reading io" "io_resized io" "new_wal (event_log_path directory) directory"] run(1)
    by (cases "io_wal_stat io") (auto simp: open_wal_def wal_open_def Let_def)
  moreover have "\<exists>q. recover_snapshot_transaction (io_txn io) directory d = (d, q)"
    using run(1) by (cases "journal_exists (io_txn io) d") (simp_all add: recover_snapshot_transaction_def empty_directory_def)
  ultimately show "\<not> is_ok (snd (fe_open io directory options d))"
    by (auto simp: fe_open_def is_ok_def split: sum.splits)
qed

end
