(* ===== verification/Spec2Isabelle.thy ===== *)
theory Spec2Isabelle
  imports Raft_Cluster Durable_Node Pending_Requests Outbound_Queue Frame Wire_Round_Trip File_Engine_Guards
begin

text \<open>
  Verification of the Choreolog C++ runtime, \<open>src/cpp-runtime\<close>. File names below are relative to its
  directories \<open>src\<close> and \<open>include/choreoos\<close>.

  \<^bold>\<open>The program.\<close> Choreolog replicates the editing of a dance choreography. A client sends a command; the
  leader turns it into an event (\<open>propose\<close>), replicates the event with Raft, and every node applies
  committed events in log order to a choreography state with retry receipts, so that a repeated command
  returns the event of its first submission. A node runs a pure transition core for consensus, stores
  log, term, vote, commit index and snapshots in a data directory, and exchanges framed protobuf
  messages.

  \<^bold>\<open>Conventions.\<close> Machine integers are words of their width (\<open>u8\<close> to \<open>u64\<close>), so that wrap-around is part of
  the model. Strings are lists of characters, which are bytes. \<open>Result<T>\<close> is a sum with the error on the
  left; \<open>bindE\<close> is the early return. \<open>std::map\<close> is an association list sorted by key (\<open>smap\<close>). A class is
  a record, a method a function that takes the object and returns it. What the operating system does to a
  call is an argument: a value of \<open>io_fault\<close>, or one of the records \<open>SystemCalls\<close> and \<open>StoreCalls\<close> with one
  answer per call. Files are byte strings, possibly missing, and \<open>DataDir\<close> is a data directory.

  \<^bold>\<open>Theories and sources.\<close>

  \<^item> \<open>Choreo_Prelude\<close>: word arithmetic, results, ordered maps, list lemmas, and the locale
    \<open>climbing_machine\<close> of machines whose durable part only grows. \<open>Map_Sums\<close>: totals over ordered maps.
  \<^item> \<open>Entry_Log\<close>: \<open>raft/entry_log.hpp\<close>, the chunked copy-on-write log with explicit addresses, refined to
    lists through the locale \<open>entry_sequence\<close>.
  \<^item> \<open>Raft_Core\<close>: \<open>raft/transition.hpp\<close> and \<open>raft/transition.cpp\<close>; \<open>step\<close> with one definition per handler.
    \<open>Raft_Durable\<close>, \<open>Raft_Safety\<close> and \<open>Raft_Step\<close> hold the node invariant and that each handler keeps it,
    \<open>Raft_Node\<close> the theorems about one node. \<open>Raft_Cluster\<close> runs many nodes over a network that loses,
    duplicates, delays and reorders messages, with storage failures and crashes; majorities are an
    interpretation of the locale \<open>quorum_system\<close>.
  \<^item> \<open>Checkpoint\<close>, \<open>Checkpoint_Recovery\<close>, \<open>Durable_Node\<close>: \<open>raft/checkpoint.cpp\<close> and
    \<open>raft/durable_node.cpp\<close>, the file that holds the durable part of the core and the driver that writes
    it before it releases messages.
  \<^item> \<open>Std_Text\<close>: the parts of the standard library the text formats use, and the locale \<open>round_trip\<close> of an
    encoder with its decoder. \<open>Domain_Types\<close>, \<open>Domain_Model\<close>: \<open>state/error\<close>, \<open>state/types\<close> and
    \<open>state/model\<close>. \<open>Event_Text\<close>: \<open>parse_event\<close> of \<open>state/store.cpp\<close> and \<open>protocol/command_codec.cpp\<close>.
  \<^item> \<open>Machine\<close>: \<open>state/machine.cpp\<close>. \<open>Machine_Domain\<close> has the choreography invariant, \<open>Machine_Log\<close> the
    retry logs, \<open>Machine_Engine\<close> and \<open>Machine_Retention\<close> the engine with staged commits, compaction and time
    travel. \<open>Snapshot_Text\<close>, \<open>Snapshot_Round_Trip\<close>: the canonical state text, its hash and the snapshot payload.
  \<^item> \<open>Storage_Bytes\<close>, \<open>File_Ops\<close>: \<open>storage/crc32.cpp\<close> and the POSIX branch of \<open>storage/file_util.cpp\<close>, with the
    locales \<open>stored_file\<close> (a file that is replaced atomically) and \<open>durable_log\<close> (a log that survives a failed
    append). \<open>Wal_File\<close>, \<open>Wal_Recovery\<close>: \<open>storage/wal.cpp\<close>. \<open>Store_Files\<close>, \<open>Store_Recovery\<close>:
    \<open>storage/metadata.cpp\<close> and \<open>storage/snapshot.cpp\<close>. \<open>Install_Transaction\<close>, \<open>Install_Recovery\<close>:
    \<open>storage/transaction.cpp\<close>.
  \<^item> \<open>File_Engine\<close>: \<open>state/store.cpp\<close> and \<open>state/store.hpp\<close>, the durable store that composes log, metadata,
    snapshots, journal and engine. \<open>File_Engine_Steps\<close> treats its operations one by one,
    \<open>File_Engine_Recovery\<close> histories of a directory, \<open>File_Engine_Guards\<close> what holds in every configuration.
  \<^item> \<open>Frame\<close>: \<open>protocol/frame.cpp\<close>. \<open>Protobuf\<close>, \<open>Wire_Messages\<close>, \<open>Wire_Round_Trip\<close>: \<open>protocol/messages.hpp\<close>
    and \<open>protocol/codec.cpp\<close>.
  \<^item> \<open>Outbound_Queue\<close>, \<open>Pending_Requests\<close>: \<open>network/outbound_queue.hpp\<close> and
    \<open>network/pending_requests.hpp\<close>, the two data structures of the node server.

  \<^bold>\<open>What is shown.\<close>

  \<^item> Consensus: at most one leader per term in a cluster; one vote per term; every message is backed by state
    that is already durable; terms, votes, commits and committed entries are never taken back; the commit
    rule, the append loop, compaction and snapshot installation do what they should; entries are applied in
    order. The driver writes ahead and a restart recovers.
  \<^item> State machine: replayed states satisfy the choreography invariant; a retry returns the original event,
    also after compaction; staging a batch equals committing event by event; seeking reproduces past states;
    snapshots and event lines read back.
  \<^item> Storage: acknowledged events survive torn writes; metadata and installed snapshots are replaced
    atomically and recovery always completes; single damaged bytes in metadata and snapshot files are
    rejected; the newest readable snapshot is used and pruning keeps the newest. The store recovers every
    acknowledged commit after any history of faults and crashes; it agrees with its directory while it is
    open; a failure that may have touched the directory closes it; a commit is durable before it is visible.
  \<^item> Wire: messages read back; a frame with one damaged byte is rejected. Server data: the loop that releases
    waiters ends and answers each once; the byte accounting of the queues is exact.

  Some lemmas show where the code falls short of its comments or documents:
  \<open>propose_misses_event_ids\<close>, \<open>dash_identifier_lost\<close>, \<open>major_zero_reads_as_one\<close>, \<open>field_number_truncated\<close>,
  \<open>empty_event_dropped\<close>, \<open>damaged_magic_drops_record\<close>, \<open>damaged_length_drops_log\<close>, \<open>name_order_fails\<close> and
  \<open>torn_header_is_final\<close>.

  \<^bold>\<open>Loops, bounds and hypotheses.\<close> No definition uses fuel. Loops are structural recursion or functions with a
  measure: the distance to the end of a file, the length of a queue, the value of a word that is shifted.
  \<open>take_through\<close> of the pending requests is a partial function and is proved to end. \<open>commit_batch\<close> counts
  the distance between two word indexes, which is how often its loop can run. Word arithmetic is exact under
  explicit hypotheses; the order of snapshot file names needs indexes below ten to the sixteenth. Histories
  of the store cover crashes of the process, where a call may fail at any point of a write; the loss of
  unsynced data by a power failure is covered for the snapshot installation only. They are proved
  for stores that take no snapshots and do not compact; a single node submits below the largest index.

  \<^bold>\<open>Not modelled.\<close> \<open>raft/domain_bridge.cpp\<close>, \<open>raft/file_engine_adapter.cpp\<close>, \<open>raft/runtime_host.cpp\<close> and the
  replicas under \<open>replication\<close>, which connect the core and the store to the server: the two sides are
  modelled, the connection is not, and the legacy replica is a second implementation of consensus.
  \<open>raft/trace.cpp\<close> and \<open>runtime/config.cpp\<close>, which print and read text. \<open>network/node_server.cpp\<close>,
  \<open>network/peer_tls.cpp\<close> and \<open>protocol/client.cpp\<close>, which are sockets, timers, threads and TLS handshakes of
  other libraries around the data structures above. \<open>storage/directory_lease.cpp\<close>, one file lock of the
  operating system; the Windows branches of the file primitives; the command line applications, the
  dashboard, the scripts and the TLA+ models. Mutexes only serialise operations that are single steps here,
  and measured times are arguments.
\<close>

end
